(* ===== verification/Message_Store.thy ===== *)
theory Message_Store
  imports Prelude
begin

text \<open>
  \<^verbatim>\<open>src/message_store.c\<close>: the store of the latest text message. The record is
  \<^verbatim>\<open>message_store_state_t\<close> without its mutex and condition variable; each function below is
  what happens between \<^verbatim>\<open>message_store_lock\<close> and \<^verbatim>\<open>message_store_unlock\<close>, so one application
  of an operation is one atomic step of the store. \<open>alloc\<close> arguments say whether the
  \<^verbatim>\<open>malloc\<close> of the function succeeds.
\<close>

record message_store_state =
  ms_message :: "string option"
  ms_version :: u64
  ms_initialized :: bool
  ms_shutting_down :: bool

definition message_store_zero :: message_store_state where
  "message_store_zero =
     \<lparr>ms_message = None, ms_version = 0, ms_initialized = False, ms_shutting_down = False\<rparr>"

section \<open>Trailing white space\<close>

definition message_store_is_unicode_whitespace :: "u32 \<Rightarrow> bool" where
  "message_store_is_unicode_whitespace cp =
     (if cp \<le> 0x7F then isspace (char_of (unat cp))
      else cp = 0x0085 \<or> cp = 0x00A0 \<or> cp = 0x1680 \<or> (0x2000 \<le> cp \<and> cp \<le> 0x200A) \<or>
           cp = 0x2028 \<or> cp = 0x2029 \<or> cp = 0x202F \<or> cp = 0x205F \<or> cp = 0x3000)"

definition is_continuation :: "byte \<Rightarrow> bool" where
  "is_continuation b = (b AND 0xC0 = 0x80)"

text \<open>The \<^verbatim>\<open>while (start > 0 && ...) start--\<close> loop.\<close>

primrec ms_sequence_start :: "byte list \<Rightarrow> nat \<Rightarrow> nat" where
  "ms_sequence_start m 0 = 0"
| "ms_sequence_start m (Suc n) =
     (if is_continuation (m ! Suc n) then ms_sequence_start m n else Suc n)"

text \<open>The \<^verbatim>\<open>for\<close> loop over the continuation bytes; \<open>None\<close> is its \<^verbatim>\<open>return 0\<close>.\<close>

primrec ms_decode_tail :: "byte list \<Rightarrow> u32 \<Rightarrow> u32 option" where
  "ms_decode_tail [] cp = Some cp"
| "ms_decode_tail (bx # bs) cp =
     (if \<not> is_continuation bx then None
      else ms_decode_tail bs (push_bit 6 cp OR ucast (bx AND 0x3F)))"

definition message_store_trailing_whitespace_bytes :: "byte list \<Rightarrow> nat \<Rightarrow> nat" where
  "message_store_trailing_whitespace_bytes m len =
     (if len = 0 then 0
      else if m ! (len - 1) AND 0x80 = 0 then
        (if message_store_is_unicode_whitespace (ucast (m ! (len - 1))) then 1 else 0)
      else
        let start = ms_sequence_start m (len - 1); b0 = m ! start;
            lead = (if b0 AND 0xE0 = 0xC0 then Some (2, ucast (b0 AND 0x1F))
                    else if b0 AND 0xF0 = 0xE0 then Some (3, ucast (b0 AND 0x0F))
                    else if b0 AND 0xF8 = 0xF0 then Some (4, ucast (b0 AND 0x07))
                    else None)
        in case lead of
             None \<Rightarrow> 0
           | Some (seq_len, cp0) \<Rightarrow>
               if start + seq_len \<noteq> len then 0
               else case ms_decode_tail (drop (start + 1) (take len m)) cp0 of
                 None \<Rightarrow> 0
               | Some cp \<Rightarrow>
                   if (seq_len = 2 \<and> cp < 0x80) \<or> (seq_len = 3 \<and> cp < 0x800) \<or>
                      (seq_len = 4 \<and> cp < 0x10000) \<or> (0xD800 \<le> cp \<and> cp \<le> 0xDFFF) \<or>
                      cp > 0x10FFFF
                   then 0
                   else if message_store_is_unicode_whitespace cp then seq_len else 0)"

lemma trailing_whitespace_bytes_le:
  "message_store_trailing_whitespace_bytes m len \<le> len"
proof -
  have "(case lead of None \<Rightarrow> 0
      | Some (seq_len, cp0) \<Rightarrow> if start + seq_len \<noteq> len then 0
          else case ms_decode_tail t cp0 of None \<Rightarrow> 0 | Some cp \<Rightarrow> if bad seq_len cp then 0 else if ws cp then seq_len else 0) \<le> len"
    for lead start t bad ws by (simp split: option.split prod.split)
  then show ?thesis by (simp only: message_store_trailing_whitespace_bytes_def Let_def) simp
qed

text \<open>The trimming loop of \<^verbatim>\<open>message_store_set\<close>.\<close>

function ms_trim_len :: "byte list \<Rightarrow> nat \<Rightarrow> nat" where
  "ms_trim_len m len =
     (if 0 < len then
        (let trimmed = message_store_trailing_whitespace_bytes m len
         in if trimmed = 0 then len else ms_trim_len m (len - trimmed))
      else len)"
  by pat_completeness auto
termination
  by (relation "measure snd") auto

declare ms_trim_len.simps [simp del]

definition ms_trimmed :: "string \<Rightarrow> string" where
  "ms_trimmed message = take (ms_trim_len (bytes_of_string message) (length message)) message"

section \<open>Operations\<close>

text \<open>\<open>init_ok\<close>: both \<^verbatim>\<open>pthread_mutex_init\<close> and \<^verbatim>\<open>pthread_cond_init\<close> return 0.\<close>

definition message_store_init :: "bool \<Rightarrow> message_store_state \<Rightarrow> int \<times> message_store_state" where
  "message_store_init init_ok st =
     (if ms_initialized st then (0, st)
      else if \<not> init_ok then (1, st)
      else (0, st\<lparr>ms_message := None, ms_version := 0, ms_shutting_down := False,
                 ms_initialized := True\<rparr>))"

definition message_store_shutdown :: "message_store_state \<Rightarrow> message_store_state" where
  "message_store_shutdown st =
     (if \<not> ms_initialized st then st else st\<lparr>ms_shutting_down := True\<rparr>)"

definition message_store_cleanup :: "message_store_state \<Rightarrow> message_store_state" where
  "message_store_cleanup st =
     (if \<not> ms_initialized st then st
      else (message_store_shutdown st)\<lparr>ms_message := None, ms_initialized := False\<rparr>)"

definition message_store_set ::
  "bool \<Rightarrow> string \<Rightarrow> message_store_state \<Rightarrow> int \<times> message_store_state" where
  "message_store_set alloc message st =
     (if \<not> ms_initialized st then (1, st)
      else if \<not> alloc then (1, st)
      else (0, st\<lparr>ms_message := Some (ms_trimmed message), ms_version := ms_version st + 1\<rparr>))"

text \<open>
  The out parameters of a read: \<^verbatim>\<open>*message_out\<close>, \<^verbatim>\<open>*has_message_out\<close> and \<^verbatim>\<open>*version_out\<close>.
\<close>

record snapshot =
  snap_message :: "string option"
  snap_has_message :: bool
  snap_version :: u64

definition message_store_get_snapshot ::
  "bool \<Rightarrow> u64 \<Rightarrow> message_store_state \<Rightarrow> int \<times> snapshot" where
  "message_store_get_snapshot alloc version0 st =
     (if \<not> ms_initialized st
      then (1, \<lparr>snap_message = None, snap_has_message = False, snap_version = version0\<rparr>)
      else case ms_message st of
        None \<Rightarrow> (0, \<lparr>snap_message = None, snap_has_message = False, snap_version = ms_version st\<rparr>)
      | Some src \<Rightarrow>
          if \<not> alloc
          then (1, \<lparr>snap_message = None, snap_has_message = False, snap_version = ms_version st\<rparr>)
          else (0, \<lparr>snap_message = Some src, snap_has_message = True,
                    snap_version = ms_version st\<rparr>))"

definition message_store_get_copy ::
  "bool \<Rightarrow> message_store_state \<Rightarrow> int \<times> string option \<times> bool" where
  "message_store_get_copy alloc st =
     (let (rc, snap) = message_store_get_snapshot alloc 0 st
      in (rc, snap_message snap, snap_has_message snap))"

section \<open>Waiting for an update\<close>

text \<open>
  \<^verbatim>\<open>pthread_cond_timedwait\<close> releases the mutex, so other threads run their critical sections
  while a thread waits. What they do is a list of operations; how the wait ends is one
  constructor of \<open>wait_event\<close>. A run of the waiting loop is driven by a list of such events,
  one per iteration; when the list is used up the next wait times out with nothing done.
\<close>

datatype ms_op = MsSet bool string | MsShutdown

primrec ms_run_op :: "ms_op \<Rightarrow> message_store_state \<Rightarrow> message_store_state" where
  "ms_run_op (MsSet alloc message) st = snd (message_store_set alloc message st)"
| "ms_run_op MsShutdown st = message_store_shutdown st"

definition ms_run_ops :: "ms_op list \<Rightarrow> message_store_state \<Rightarrow> message_store_state" where
  "ms_run_ops ops st = fold ms_run_op ops st"

datatype wait_event =
    ClockFails
  | Wakes "ms_op list"
  | TimesOut "ms_op list"
  | WaitFails "ms_op list"

text \<open>The loop; the first component is \<open>False\<close> where the code returns 1 from inside it.\<close>

fun ms_wait_loop ::
  "u64 \<Rightarrow> wait_event list \<Rightarrow> message_store_state \<Rightarrow> bool \<times> message_store_state" where
  "ms_wait_loop known [] st = (True, st)"
| "ms_wait_loop known (e # es) st =
     (if ms_version st > known then (True, st)
      else if ms_shutting_down st then (True, st)
      else case e of
        ClockFails \<Rightarrow> (False, st)
      | WaitFails ops \<Rightarrow> (False, ms_run_ops ops st)
      | TimesOut ops \<Rightarrow> (True, ms_run_ops ops st)
      | Wakes ops \<Rightarrow> ms_wait_loop known es (ms_run_ops ops st))"

definition message_store_wait_for_update ::
  "u64 \<Rightarrow> wait_event list \<Rightarrow> bool \<Rightarrow> message_store_state \<Rightarrow> int \<times> snapshot \<times> message_store_state"
  where
  "message_store_wait_for_update known evs alloc st =
     (let out0 = \<lparr>snap_message = None, snap_has_message = False, snap_version = known\<rparr> in
      if \<not> ms_initialized st then (1, out0, st)
      else case ms_wait_loop known evs st of
        (False, st') \<Rightarrow> (1, out0, st')
      | (True, st') \<Rightarrow>
          let updated = ms_version st' > known;
              src = (if updated then ms_message st' else None);
              out1 = out0\<lparr>snap_version := ms_version st'\<rparr>
          in case src of
               None \<Rightarrow> (0, out1, st')
             | Some m \<Rightarrow>
                 if \<not> alloc then (1, out1, st')
                 else (0, out1\<lparr>snap_message := Some m, snap_has_message := True\<rparr>, st'))"

end
