(* ===== verification/World.thy ===== *)
theory World
  imports Message_Store
begin

text \<open>
  The operating system the program runs on: the connection socket, the file system, memory
  allocation. Every system call takes its outcome from a schedule, a list that says for the
  coming calls whether they go through, move fewer bytes than asked or fail with an error;
  a call finding its schedule used up goes through. Theorems hold for every schedule, so they
  hold for every way the kernel may answer. A schedule is finite: it excludes only a kernel that
  interrupts calls for ever.

  Paths are resolved lexically to a list of components (\<open>canon\<close>), so that two spellings of a
  path are one entry of the file system.
\<close>

section \<open>Errors and schedules\<close>

datatype errno =
  EINTR | EAGAIN | EEXIST | ENOENT | EINVAL | ENOSYS | ENOTSUP | EIO | EPIPE | EBADF | ELOOP
| EISDIR | ENOTDIR | ENOTEMPTY | EPERM | EACCES | ESRCH | EMFILE | ENFILE | ENOSPC

text \<open>
  \<open>RxUpTo k\<close>: the call delivers at most \<open>k + 1\<close> bytes (a receive of zero bytes means end of
  stream). \<open>TxUpTo k\<close>: the kernel takes at most \<open>k\<close> bytes.
\<close>

datatype rx_event = RxUpTo nat | RxFail errno
datatype tx_event = TxUpTo nat | TxFail errno
datatype fs_event = FsGo | FsShort nat | FsFail errno

section \<open>The connection\<close>

record sock =
  sock_fd :: int
  rx_data :: "byte list"
  rx_sched :: "rx_event list"
  tx_data :: "byte list"
  tx_sched :: "tx_event list"

definition recv :: "nat \<Rightarrow> sock \<Rightarrow> (errno + byte list) \<times> sock" where
  "recv n s =
     (case rx_sched s of
        [] \<Rightarrow> (Inr (take n (rx_data s)), s\<lparr>rx_data := drop n (rx_data s)\<rparr>)
      | RxFail e # es \<Rightarrow> (Inl e, s\<lparr>rx_sched := es\<rparr>)
      | RxUpTo k # es \<Rightarrow>
          (Inr (take (min n (Suc k)) (rx_data s)),
           s\<lparr>rx_data := drop (min n (Suc k)) (rx_data s), rx_sched := es\<rparr>))"

text \<open>\<^verbatim>\<open>recv\<close> with \<^verbatim>\<open>MSG_PEEK\<close> leaves the bytes in the socket.\<close>

definition recv_peek :: "nat \<Rightarrow> sock \<Rightarrow> (errno + byte list) \<times> sock" where
  "recv_peek n s = (let (r, s') = recv n s in (r, s'\<lparr>rx_data := rx_data s\<rparr>))"

definition send :: "byte list \<Rightarrow> sock \<Rightarrow> (errno + nat) \<times> sock" where
  "send bs s =
     (case tx_sched s of
        [] \<Rightarrow> (Inr (length bs), s\<lparr>tx_data := tx_data s @ bs\<rparr>)
      | TxFail e # es \<Rightarrow> (Inl e, s\<lparr>tx_sched := es\<rparr>)
      | TxUpTo k # es \<Rightarrow>
          (Inr (min k (length bs)), s\<lparr>tx_data := tx_data s @ take k bs, tx_sched := es\<rparr>))"

text \<open>No call of the schedule fails for good: failures, if any, are interruptions.\<close>

definition rx_quiet :: "sock \<Rightarrow> bool" where
  "rx_quiet s \<longleftrightarrow> (\<forall>e. RxFail e \<in> set (rx_sched s) \<longrightarrow> e = EINTR)"

definition tx_quiet :: "sock \<Rightarrow> bool" where
  "tx_quiet s \<longleftrightarrow>
     (\<forall>e. TxFail e \<in> set (tx_sched s) \<longrightarrow> e = EINTR) \<and> TxUpTo 0 \<notin> set (tx_sched s)"

section \<open>Paths\<close>

type_synonym path = "string list"

text \<open>
  One step of path resolution. The component \<^verbatim>\<open>/\<close> at the head marks an absolute path;
  \<^verbatim>\<open>..\<close> at the root stays at the root and \<^verbatim>\<open>..\<close> above the working directory is kept.
\<close>

definition push_comp :: "path \<Rightarrow> string \<Rightarrow> path" where
  "push_comp acc c =
     (if c = '''' \<or> c = ''.'' then acc
      else if c = ''..'' then
        (if acc = [] \<or> last acc = ''..'' then acc @ [c]
         else if last acc = ''/'' then acc
         else butlast acc)
      else acc @ [c])"

definition canon :: "string \<Rightarrow> path" where
  "canon s = foldl push_comp (if s \<noteq> [] \<and> hd s = CHR ''/'' then [''/''] else [])
               (split_on (CHR ''/'') s)"

section \<open>The file system\<close>

datatype node =
    is_file: FileN (node_content: "byte list") (node_mtime: u64)
  | is_dir: DirN (node_mtime: u64)
  | is_symlink: SymlinkN string (node_mtime: u64)
  | is_other: OtherN (node_mtime: u64)

record ofile =
  of_path :: path
  of_pos :: nat

record fsys =
  nodes :: "path \<Rightarrow> node option"
  fds :: "int \<Rightarrow> ofile option"
  next_fd :: nat
  fs_sched :: "fs_event list"
  fs_now :: u64

datatype oflag = O_RDONLY | O_WRONLY | O_CREAT | O_TRUNC | O_EXCL | O_NOFOLLOW

definition fs_pop :: "fsys \<Rightarrow> fs_event \<times> fsys" where
  "fs_pop f = (case fs_sched f of [] \<Rightarrow> (FsGo, f) | e # es \<Rightarrow> (e, f\<lparr>fs_sched := es\<rparr>))"

definition new_fd :: "path \<Rightarrow> fsys \<Rightarrow> int \<times> fsys" where
  "new_fd p f = (int (next_fd f),
     f\<lparr>fds := (fds f)(int (next_fd f) \<mapsto> \<lparr>of_path = p, of_pos = 0\<rparr>), next_fd := Suc (next_fd f)\<rparr>)"

text \<open>Opening an existing entry that is not a symbolic link.\<close>

definition open_node :: "path \<Rightarrow> node \<Rightarrow> oflag list \<Rightarrow> fsys \<Rightarrow> (errno + int) \<times> fsys" where
  "open_node p n flags f =
     (if O_WRONLY \<in> set flags \<and> is_dir n then (Inl EISDIR, f)
      else
        let f' = (case n of
                    FileN c m \<Rightarrow> if O_TRUNC \<in> set flags
                                 then f\<lparr>nodes := (nodes f)(p \<mapsto> FileN [] (fs_now f))\<rparr> else f
                  | _ \<Rightarrow> f);
            (fd, f'') = new_fd p f'
        in (Inr fd, f''))"

definition posix_open :: "string \<Rightarrow> oflag list \<Rightarrow> fsys \<Rightarrow> (errno + int) \<times> fsys" where
  "posix_open path flags f0 =
     (case fs_pop f0 of
        (FsFail e, f) \<Rightarrow> (Inl e, f)
      | (_, f) \<Rightarrow>
          let p = canon path in
          case nodes f p of
            None \<Rightarrow>
              if O_CREAT \<in> set flags
              then (let (fd, f') = new_fd p (f\<lparr>nodes := (nodes f)(p \<mapsto> FileN [] (fs_now f))\<rparr>)
                    in (Inr fd, f'))
              else (Inl ENOENT, f)
          | Some n \<Rightarrow>
              if O_CREAT \<in> set flags \<and> O_EXCL \<in> set flags then (Inl EEXIST, f)
              else case n of
                SymlinkN target m \<Rightarrow>
                  if O_NOFOLLOW \<in> set flags then (Inl ELOOP, f)
                  else (case nodes f (canon target) of
                          None \<Rightarrow> (Inl ENOENT, f)
                        | Some (SymlinkN t' m') \<Rightarrow> (Inl ELOOP, f)
                        | Some n' \<Rightarrow> open_node (canon target) n' flags f)
              | _ \<Rightarrow> open_node p n flags f)"

definition posix_read :: "int \<Rightarrow> nat \<Rightarrow> fsys \<Rightarrow> (errno + byte list) \<times> fsys" where
  "posix_read fd n f0 =
     (case fs_pop f0 of
        (FsFail e, f) \<Rightarrow> (Inl e, f)
      | (ev, f) \<Rightarrow>
          case fds f fd of
            None \<Rightarrow> (Inl EBADF, f)
          | Some o' \<Rightarrow>
             (case nodes f (of_path o') of
                Some (FileN c m) \<Rightarrow>
                  let k = (case ev of FsShort j \<Rightarrow> min n (Suc j) | _ \<Rightarrow> n);
                      bs = take k (drop (of_pos o') c)
                  in (Inr bs,
                      f\<lparr>fds := (fds f)(fd \<mapsto> o'\<lparr>of_pos := of_pos o' + length bs\<rparr>)\<rparr>)
              | _ \<Rightarrow> (Inl EISDIR, f)))"

text \<open>Overwrite at a position; a gap past the end reads as zeros.\<close>

definition splice_at :: "nat \<Rightarrow> byte list \<Rightarrow> byte list \<Rightarrow> byte list" where
  "splice_at pos bs c =
     take pos (c @ replicate (pos - length c) 0) @ bs @ drop (pos + length bs) c"

definition posix_write :: "int \<Rightarrow> byte list \<Rightarrow> fsys \<Rightarrow> (errno + nat) \<times> fsys" where
  "posix_write fd bs f0 =
     (case fs_pop f0 of
        (FsFail e, f) \<Rightarrow> (Inl e, f)
      | (ev, f) \<Rightarrow>
          case fds f fd of
            None \<Rightarrow> (Inl EBADF, f)
          | Some o' \<Rightarrow>
             (case nodes f (of_path o') of
                Some (FileN c m) \<Rightarrow>
                  let k = (case ev of FsShort j \<Rightarrow> min j (length bs) | _ \<Rightarrow> length bs)
                  in (Inr k,
                      f\<lparr>nodes := (nodes f)(of_path o' \<mapsto>
                            FileN (splice_at (of_pos o') (take k bs) c) (fs_now f)),
                        fds := (fds f)(fd \<mapsto> o'\<lparr>of_pos := of_pos o' + k\<rparr>)\<rparr>)
              | _ \<Rightarrow> (Inl EBADF, f)))"

text \<open>A failing \<^verbatim>\<open>close\<close> releases the descriptor all the same, as on Linux.\<close>

definition posix_close :: "int \<Rightarrow> fsys \<Rightarrow> (errno + unit) \<times> fsys" where
  "posix_close fd f0 =
     (case fs_pop f0 of (ev, f) \<Rightarrow>
        if fds f fd = None then (Inl EBADF, f)
        else case ev of
          FsFail e \<Rightarrow> (Inl e, f\<lparr>fds := (fds f)(fd := None)\<rparr>)
        | _ \<Rightarrow> (Inr (), f\<lparr>fds := (fds f)(fd := None)\<rparr>))"

definition posix_rename :: "string \<Rightarrow> string \<Rightarrow> fsys \<Rightarrow> (errno + unit) \<times> fsys" where
  "posix_rename old new f0 =
     (case fs_pop f0 of
        (FsFail e, f) \<Rightarrow> (Inl e, f)
      | (_, f) \<Rightarrow>
          case nodes f (canon old) of
            None \<Rightarrow> (Inl ENOENT, f)
          | Some n \<Rightarrow>
              if (case nodes f (canon new) of Some n' \<Rightarrow> is_dir n' | None \<Rightarrow> False) then (Inl EISDIR, f)
              else (Inr (), f\<lparr>nodes := (nodes f)(canon old := None, canon new := Some n)\<rparr>))"

text \<open>\<^verbatim>\<open>remove\<close> of a file, link or special file; of a directory it may fail or not.\<close>

definition posix_remove :: "string \<Rightarrow> fsys \<Rightarrow> (errno + unit) \<times> fsys" where
  "posix_remove path f0 =
     (case fs_pop f0 of
        (FsFail e, f) \<Rightarrow> (Inl e, f)
      | (_, f) \<Rightarrow>
          case nodes f (canon path) of
            None \<Rightarrow> (Inl ENOENT, f)
          | Some n \<Rightarrow> (Inr (), f\<lparr>nodes := (nodes f)(canon path := None)\<rparr>))"

definition posix_lstat :: "string \<Rightarrow> fsys \<Rightarrow> (errno + node) \<times> fsys" where
  "posix_lstat path f0 =
     (case fs_pop f0 of
        (FsFail e, f) \<Rightarrow> (Inl e, f)
      | (_, f) \<Rightarrow> (case nodes f (canon path) of None \<Rightarrow> (Inl ENOENT, f) | Some n \<Rightarrow> (Inr n, f)))"

definition posix_fstat :: "int \<Rightarrow> fsys \<Rightarrow> (errno + node) \<times> fsys" where
  "posix_fstat fd f0 =
     (case fs_pop f0 of
        (FsFail e, f) \<Rightarrow> (Inl e, f)
      | (_, f) \<Rightarrow>
          (case fds f fd of
             None \<Rightarrow> (Inl EBADF, f)
           | Some o' \<Rightarrow>
              (case nodes f (of_path o') of None \<Rightarrow> (Inl EBADF, f) | Some n \<Rightarrow> (Inr n, f))))"

text \<open>\<^verbatim>\<open>opendir\<close>, with the directory that the path leads to.\<close>

definition posix_opendir :: "string \<Rightarrow> fsys \<Rightarrow> (errno + path) \<times> fsys" where
  "posix_opendir path f0 =
     (case fs_pop f0 of
        (FsFail e, f) \<Rightarrow> (Inl e, f)
      | (_, f) \<Rightarrow>
         (case nodes f (canon path) of
            None \<Rightarrow> (Inl ENOENT, f)
          | Some (DirN m) \<Rightarrow> (Inr (canon path), f)
          | Some (SymlinkN target m) \<Rightarrow>
             (case nodes f (canon target) of
                Some (DirN m') \<Rightarrow> (Inr (canon target), f)
              | _ \<Rightarrow> (Inl ENOTDIR, f))
          | Some n \<Rightarrow> (Inl ENOTDIR, f)))"

text \<open>Descriptors not yet handed out are closed.\<close>

definition fs_ok :: "fsys \<Rightarrow> bool" where
  "fs_ok f \<longleftrightarrow> (\<forall>k \<ge> next_fd f. fds f (int k) = None)"

section \<open>The world of one connection\<close>

text \<open>
  \<open>sk\<close>: the connection; \<open>fs\<close>: the file system; \<open>mem\<close>: the outcomes of the coming
  \<^verbatim>\<open>malloc\<close> calls; \<open>store\<close>: the global \<^verbatim>\<open>g_message_store\<close>; \<open>pid\<close>: \<^verbatim>\<open>getpid()\<close>;
  \<open>splice_direct\<close>: whether the kernel can splice a socket into a file with no pipe between
  them (Linux answers \<^verbatim>\<open>EINVAL\<close>: one of the two descriptors must be a pipe).
\<close>

record world =
  sk :: sock
  fs :: fsys
  mem :: "bool list"
  store :: message_store_state
  pid :: int
  splice_direct :: bool

definition malloc :: "world \<Rightarrow> bool \<times> world" where
  "malloc w = (case mem w of [] \<Rightarrow> (True, w) | b # bs \<Rightarrow> (b, w\<lparr>mem := bs\<rparr>))"

text \<open>
  Calls that move data between a socket and a file inside the kernel. \<^verbatim>\<open>sendfile\<close> reads the
  file at the given offset; the caller's offset is advanced by the count returned.
\<close>

definition sendfile :: "int \<Rightarrow> nat \<Rightarrow> nat \<Rightarrow> world \<Rightarrow> (errno + nat) \<times> world" where
  "sendfile in_fd offset want w =
     (case fds (fs w) in_fd of
        None \<Rightarrow> (Inl EBADF, w)
      | Some o' \<Rightarrow>
         (case nodes (fs w) (of_path o') of
            Some (FileN c m) \<Rightarrow>
             (let avail = take want (drop offset c) in
              case tx_sched (sk w) of
                [] \<Rightarrow> (Inr (length avail), w\<lparr>sk := (sk w)\<lparr>tx_data := tx_data (sk w) @ avail\<rparr>\<rparr>)
              | TxFail e # es \<Rightarrow> (Inl e, w\<lparr>sk := (sk w)\<lparr>tx_sched := es\<rparr>\<rparr>)
              | TxUpTo k # es \<Rightarrow>
                  (Inr (length (take (Suc k) avail)),
                   w\<lparr>sk := (sk w)\<lparr>tx_data := tx_data (sk w) @ take (Suc k) avail,
                                 tx_sched := es\<rparr>\<rparr>))
          | _ \<Rightarrow> (Inl EINVAL, w)))"

text \<open>
  \<^verbatim>\<open>splice\<close> from the socket to a file at \<open>offset\<close>; the result carries the offset as the kernel
  leaves it. \<^verbatim>\<open>splice\<close> from the socket to a pipe is a receive; from a pipe to a file it is a
  write at the descriptor's position.
\<close>

definition splice_sock_file ::
  "int \<Rightarrow> nat \<Rightarrow> nat \<Rightarrow> world \<Rightarrow> (errno + nat) \<times> nat \<times> world" where
  "splice_sock_file out_fd offset want w =
     (if \<not> splice_direct w then (Inl EINVAL, offset, w)
      else case fds (fs w) out_fd of
        None \<Rightarrow> (Inl EBADF, offset, w)
      | Some o' \<Rightarrow>
         (case nodes (fs w) (of_path o') of
            Some (FileN c m) \<Rightarrow>
             (case recv want (sk w) of
                (Inl e, s') \<Rightarrow> (Inl e, offset, w\<lparr>sk := s'\<rparr>)
              | (Inr bs, s') \<Rightarrow>
                  (Inr (length bs), offset + length bs,
                   w\<lparr>sk := s', fs := (fs w)\<lparr>nodes := (nodes (fs w))
                        (of_path o' \<mapsto> FileN (splice_at offset bs c) (fs_now (fs w)))\<rparr>\<rparr>))
          | _ \<Rightarrow> (Inl EINVAL, offset, w)))"

definition splice_sock_pipe :: "nat \<Rightarrow> sock \<Rightarrow> (errno + byte list) \<times> sock" where
  "splice_sock_pipe want s = recv want s"

definition splice_pipe_file :: "int \<Rightarrow> byte list \<Rightarrow> fsys \<Rightarrow> (errno + nat) \<times> fsys" where
  "splice_pipe_file out_fd buf f = posix_write out_fd buf f"

definition posix_pipe :: "fsys \<Rightarrow> (errno + unit) \<times> fsys" where
  "posix_pipe f = (case fs_pop f of (FsFail e, f') \<Rightarrow> (Inl e, f') | (_, f') \<Rightarrow> (Inr (), f'))"

section \<open>Facts about the system calls\<close>

lemma recv_cases:
  assumes "recv n s = (r, s')"
  obtains (fail) e es where "rx_sched s = RxFail e # es" "r = Inl e" "s' = s\<lparr>rx_sched := es\<rparr>"
  | (data) k es where "k = 0 \<Longrightarrow> n = 0 \<or> rx_data s = []" "k \<le> n" "k \<le> length (rx_data s)"
      "r = Inr (take k (rx_data s))" "s' = s\<lparr>rx_data := drop k (rx_data s), rx_sched := es\<rparr>"
      "set es \<subseteq> set (rx_sched s)" "length es \<le> length (rx_sched s)"
proof (cases "rx_sched s")
  case Nil
  with assms show ?thesis
    by (intro data [of "min n (length (rx_data s))" "[]"]) (auto simp: recv_def min_def split: if_splits)
next
  case (Cons e es)
  show ?thesis
  proof (cases e)
    case (RxFail x)
    with assms Cons show ?thesis by (intro fail) (auto simp: recv_def)
  next
    case (RxUpTo k)
    with assms Cons show ?thesis
      by (intro data [of "min (min n (Suc k)) (length (rx_data s))" es])
        (auto simp: recv_def min_def split: if_splits)
  qed
qed

lemma fs_popE:
  assumes "fs_pop f = (e, f')"
  obtains es where "f' = f\<lparr>fs_sched := es\<rparr>" "set es \<subseteq> set (fs_sched f)"
    "length es \<le> length (fs_sched f)"
  using assms by (cases "fs_sched f") (auto simp: fs_pop_def intro: that [of "[]"] that)

lemma splice_at_end: "splice_at (length c) bs c = c @ bs"
  by (simp add: splice_at_def)

end
