(* ===== verification/Fs.thy ===== *)
theory Fs
  imports World
begin

text \<open>
  \<^verbatim>\<open>src/fs.c\<close> (POSIX branch): the wrappers of the file system calls, the loop that writes a
  whole buffer, the validation of names a peer sends, and the paths built from them. A function
  that returns 0 for success and 1 for failure is a \<^typ>\<open>bool\<close> (\<open>True\<close> for 0) or, where it
  fills an output buffer, an \<open>option\<close>.
\<close>

section \<open>Descriptors\<close>

datatype fs_path_kind =
  FS_PATH_KIND_FILE | FS_PATH_KIND_DIR | FS_PATH_KIND_SYMLINK | FS_PATH_KIND_OTHER

record fs_path_info =
  info_kind :: fs_path_kind
  info_size :: u64
  info_mtime :: u64

definition fs_open :: "string \<Rightarrow> oflag list \<Rightarrow> fsys \<Rightarrow> (errno + int) \<times> fsys" where
  "fs_open path flags f = posix_open path flags f"

definition fs_read :: "int \<Rightarrow> nat \<Rightarrow> fsys \<Rightarrow> (errno + byte list) \<times> fsys" where
  "fs_read fd len f = posix_read fd len f"

definition fs_write :: "int \<Rightarrow> byte list \<Rightarrow> fsys \<Rightarrow> (errno + nat) \<times> fsys" where
  "fs_write fd buf f = posix_write fd buf f"

definition fs_close :: "int \<Rightarrow> fsys \<Rightarrow> bool \<times> fsys" where
  "fs_close fd f = (case posix_close fd f of (r, f') \<Rightarrow> (r = Inr (), f'))"

lemma fs_write_sched:
  assumes "fs_write fd bs f = (r, f')"
  shows "length (fs_sched f') \<le> length (fs_sched f)"
    and "r = Inl EINTR \<Longrightarrow> length (fs_sched f') < length (fs_sched f)"
    and "r = Inr k \<Longrightarrow> k \<le> length bs"
  using assms
  by (auto simp: fs_write_def posix_write_def fs_pop_def Let_def
      split: list.splits fs_event.splits option.splits node.splits)

text \<open>\<^verbatim>\<open>fs_write_all\<close>: \<open>bs\<close> is what is left of the buffer, \<open>tot\<close> (the code's \<^verbatim>\<open>total\<close>) what is written.\<close>

function fs_write_all_loop :: "int \<Rightarrow> byte list \<Rightarrow> nat \<Rightarrow> fsys \<Rightarrow> int \<times> fsys" where
  "fs_write_all_loop fd bs tot f =
     (if bs = [] then (int tot, f)
      else case fs_write fd bs f of
        (Inl e, f') \<Rightarrow> if e = EINTR then fs_write_all_loop fd bs tot f' else (-1, f')
      | (Inr n, f') \<Rightarrow>
          if n = 0 then (int tot, f')
          else fs_write_all_loop fd (drop n bs) (tot + n) f')"
  by pat_completeness auto
termination
proof (relation "measure (\<lambda>(fd, bs, tot, f). length bs + length (fs_sched f))", goal_cases)
  case 1
  show ?case by simp
next
  case (2 fd bs tot f x f' e)
  then show ?case using fs_write_sched(2) [of fd bs f "Inl e" f'] by simp
next
  case (3 fd bs tot f x f' n)
  then show ?case using fs_write_sched(1) [of fd bs f "Inr n" f'] by (cases bs) auto
qed

declare fs_write_all_loop.simps [simp del]

definition fs_write_all :: "int \<Rightarrow> byte list \<Rightarrow> fsys \<Rightarrow> int \<times> fsys" where
  "fs_write_all fd buf f = fs_write_all_loop fd buf 0 f"

section \<open>Names and paths\<close>

definition fs_validate_file_name :: "string \<Rightarrow> bool" where
  "fs_validate_file_name file_name =
     (if file_name = [] then False
      else if strchr file_name (CHR ''/'') \<noteq> None then False
      else if strchr file_name (CHR 0x5C) \<noteq> None then False
      else if strstr file_name ''..'' then False
      else True)"

text \<open>The loop over the segments; \<open>segment\<close> is the pointer of the same name.\<close>

function fs_validate_segments :: "string \<Rightarrow> bool" where
  "fs_validate_segments segment =
     (if segment = [] then True
      else
        let slash = strchr segment (CHR ''/'');
            len = (case slash of Some i \<Rightarrow> i | None \<Rightarrow> length segment)
        in if len = 0 then False
           else if len = 1 \<and> segment ! 0 = CHR ''.'' then False
           else if len = 2 \<and> segment ! 0 = CHR ''.'' \<and> segment ! 1 = CHR ''.'' then False
           else case slash of
                  None \<Rightarrow> True
                | Some i \<Rightarrow> fs_validate_segments (drop (Suc i) segment))"
  by pat_completeness auto
termination
  by (relation "measure length") auto

declare fs_validate_segments.simps [simp del]

definition fs_validate_relative_path :: "string \<Rightarrow> bool" where
  "fs_validate_relative_path path =
     (if path = [] then False
      else if hd path = CHR ''/'' then False
      else if strchr path (CHR 0x5C) \<noteq> None then False
      else fs_validate_segments path)"

definition fs_join_path :: "nat \<Rightarrow> string \<Rightarrow> string \<Rightarrow> string option" where
  "fs_join_path out_cap dir file =
     (if out_cap = 0 then None
      else
        let sep = (if 0 < length dir \<and> dir ! (length dir - 1) = CHR ''/'' then '''' else ''/'')
        in snprintf_checked out_cap (dir @ sep @ file))"

text \<open>\<^verbatim>\<open>relative_path\<close> may be \<^verbatim>\<open>NULL\<close>, which is \<open>None\<close>.\<close>

definition fs_join_relative_path :: "nat \<Rightarrow> string \<Rightarrow> string option \<Rightarrow> string option" where
  "fs_join_relative_path out_cap base_dir relative_path =
     (if out_cap = 0 then None
      else case relative_path of
        None \<Rightarrow> snprintf_checked out_cap base_dir
      | Some rel \<Rightarrow>
          if rel = [] then snprintf_checked out_cap base_dir
          else if \<not> fs_validate_relative_path rel then None
          else fs_join_path out_cap base_dir rel)"

definition fs_stat_path :: "string \<Rightarrow> fsys \<Rightarrow> fs_path_info option \<times> fsys" where
  "fs_stat_path path f =
     (case posix_lstat path f of
        (Inl e, f') \<Rightarrow> (None, f')
      | (Inr n, f') \<Rightarrow>
          (Some (case n of
             SymlinkN t m \<Rightarrow> \<lparr>info_kind = FS_PATH_KIND_SYMLINK, info_size = 0, info_mtime = m\<rparr>
           | DirN m \<Rightarrow> \<lparr>info_kind = FS_PATH_KIND_DIR, info_size = 0, info_mtime = m\<rparr>
           | FileN c m \<Rightarrow> \<lparr>info_kind = FS_PATH_KIND_FILE, info_size = of_nat (length c), info_mtime = m\<rparr>
           | OtherN m \<Rightarrow> \<lparr>info_kind = FS_PATH_KIND_OTHER, info_size = 0, info_mtime = m\<rparr>), f'))"

definition fs_build_temp_path :: "nat \<Rightarrow> string \<Rightarrow> int \<Rightarrow> int \<Rightarrow> string option" where
  "fs_build_temp_path out_cap final_path process_id attempt =
     (if out_cap = 0 then None
      else snprintf_checked out_cap
             (final_path @ ''.tmp.'' @ show_int process_id @ ''.'' @ show_int attempt))"

definition fs_open_temp_file :: "string \<Rightarrow> fsys \<Rightarrow> (errno + int) \<times> fsys" where
  "fs_open_temp_file tmp_path f = fs_open tmp_path [O_CREAT, O_WRONLY, O_TRUNC, O_EXCL] f"

definition fs_commit_temp_file :: "string \<Rightarrow> string \<Rightarrow> fsys \<Rightarrow> bool \<times> fsys" where
  "fs_commit_temp_file tmp_path final_path f =
     (case posix_rename tmp_path final_path f of (r, f') \<Rightarrow> (r = Inr (), f'))"

definition fs_remove_ignore_error :: "string \<Rightarrow> fsys \<Rightarrow> fsys" where
  "fs_remove_ignore_error path f = snd (posix_remove path f)"

text \<open>\<open>Some name\<close> for the pointer into the path; the path itself is never \<^verbatim>\<open>NULL\<close> here.\<close>

definition fs_basename_from_path :: "string \<Rightarrow> string" where
  "fs_basename_from_path file_path =
     (case strrchr file_path (CHR ''/'') of
        None \<Rightarrow> file_path
      | Some i \<Rightarrow> drop (Suc i) file_path)"

section \<open>Writing through a descriptor\<close>

text \<open>\<open>fd\<close> is open on the file \<open>p\<close>, whose content is \<open>c\<close>, and stands at its end.\<close>

definition appending :: "fsys \<Rightarrow> int \<Rightarrow> path \<Rightarrow> byte list \<Rightarrow> bool" where
  "appending f fd p c \<longleftrightarrow>
     fds f fd = Some \<lparr>of_path = p, of_pos = length c\<rparr> \<and> (\<exists>m. nodes f p = Some (FileN c m))"

text \<open>From \<open>f\<close> to \<open>f'\<close> nothing changes but the entry \<open>p\<close> and the descriptor \<open>fd\<close>.\<close>

definition only_touches :: "path \<Rightarrow> int \<Rightarrow> fsys \<Rightarrow> fsys \<Rightarrow> bool" where
  "only_touches p fd f f' \<longleftrightarrow>
     (\<forall>q. q \<noteq> p \<longrightarrow> nodes f' q = nodes f q) \<and> (\<forall>d. d \<noteq> fd \<longrightarrow> fds f' d = fds f d) \<and>
     next_fd f' = next_fd f \<and> set (fs_sched f') \<subseteq> set (fs_sched f)"

lemma only_touches_refl [simp, intro]: "only_touches p fd f f"
  by (simp add: only_touches_def)

lemma only_touches_trans [trans]:
  "only_touches p fd f g \<Longrightarrow> only_touches p fd g h \<Longrightarrow> only_touches p fd f h"
  by (auto simp: only_touches_def)

text \<open>No failing call is scheduled, and no write of nothing.\<close>

definition fs_quiet :: "fsys \<Rightarrow> bool" where
  "fs_quiet f \<longleftrightarrow> set (fs_sched f) \<subseteq> {FsGo} \<union> {FsShort (Suc k) | k. True}"

lemma fs_quiet_no_fail: "fs_quiet f \<Longrightarrow> fs_pop f = (e, f') \<Longrightarrow> e = FsGo \<or> (\<exists>k. e = FsShort (Suc k))"
  by (auto simp: fs_quiet_def fs_pop_def split: list.splits)

lemma fs_quiet_pop: "fs_quiet f \<Longrightarrow> fs_pop f = (e, f') \<Longrightarrow> fs_quiet f'"
  by (auto simp: fs_quiet_def fs_pop_def split: list.splits)

lemma fs_write_appending:
  assumes "fs_write fd bs f = (r, f')" and "appending f fd p c"
  shows "only_touches p fd f f'"
    and "r = Inl e \<Longrightarrow> appending f' fd p c"
    and "r = Inr k \<Longrightarrow> appending f' fd p (c @ take k bs)"
    and "fs_quiet f \<Longrightarrow> bs \<noteq> [] \<Longrightarrow> \<exists>k. r = Inr (Suc k)"
proof -
  show "only_touches p fd f f'" "r = Inl e \<Longrightarrow> appending f' fd p c"
    "r = Inr k \<Longrightarrow> appending f' fd p (c @ take k bs)"
    using assms
    by (auto simp: fs_write_def posix_write_def appending_def only_touches_def Let_def splice_at_end
        elim!: fs_popE split: prod.splits fs_event.splits) blast+
  assume "fs_quiet f" "bs \<noteq> []"
  with assms show "\<exists>k. r = Inr (Suc k)"
    using fs_quiet_no_fail [of f]
    by (cases bs) (auto simp: fs_write_def posix_write_def appending_def Let_def elim!: fs_popE
        split: prod.splits fs_event.splits)
qed

lemma fs_write_all_loop_appending:
  assumes "fs_write_all_loop fd bs t f = (rc, f')" and "appending f fd p c"
  shows "only_touches p fd f f' \<and>
    (\<exists>k \<le> length bs. appending f' fd p (c @ take k bs) \<and> (rc = -1 \<or> rc = int (t + k)) \<and>
       (fs_quiet f \<longrightarrow> rc = int (t + length bs)))"
  using assms
proof (induction fd bs t f arbitrary: c rule: fs_write_all_loop.induct)
  case (1 fd bs t f)
  show ?case
  proof (cases "bs = []")
    case True
    with "1.prems" show ?thesis by (auto simp: fs_write_all_loop.simps)
  next
    case False
    obtain r g where w: "fs_write fd bs f = (r, g)" by fastforce
    note wa = fs_write_appending [OF w "1.prems"(2)]
    show ?thesis
    proof (cases r)
      case (Inl e)
      with wa have app: "appending g fd p c" by blast
      show ?thesis
      proof (cases "e = EINTR")
        case True
        with "1.prems" w Inl False have "fs_write_all_loop fd bs t g = (rc, f')"
          by (simp add: fs_write_all_loop.simps [of fd bs t f])
        from "1.IH"(1) [OF False w [symmetric] Inl True this app] wa(1) wa(4) [OF _ False] Inl
        show ?thesis by (blast intro: only_touches_trans)
      next
        case e: False
        with "1.prems" w Inl False have "rc = -1" "f' = g"
          by (simp_all add: fs_write_all_loop.simps [of fd bs t f])
        with wa(1) app wa(4) [OF _ False] Inl show ?thesis by (auto intro!: exI [of _ 0])
      qed
    next
      case (Inr n)
      with wa have app: "appending g fd p (c @ take n bs)" by blast
      have n: "n \<le> length bs" using fs_write_sched(3) [OF w] Inr by simp
      show ?thesis
      proof (cases "n = 0")
        case True
        with "1.prems" w Inr False have "rc = int t" "f' = g"
          by (simp_all add: fs_write_all_loop.simps [of fd bs t f])
        with wa(1) app True wa(4) [OF _ False] Inr show ?thesis by (auto intro!: exI [of _ 0])
      next
        case nz: False
        with "1.prems" w Inr False have "fs_write_all_loop fd (drop n bs) (t + n) g = (rc, f')"
          by (simp add: fs_write_all_loop.simps [of fd bs t f])
        from "1.IH"(2) [OF False w [symmetric] Inr nz this app] obtain k where
          k: "k \<le> length (drop n bs)" "appending f' fd p ((c @ take n bs) @ take k (drop n bs))"
             "rc = -1 \<or> rc = int (t + n + k)" "fs_quiet g \<longrightarrow> rc = int (t + n + length (drop n bs))"
          and ot: "only_touches p fd g f'"
          by blast
        have "fs_quiet f \<longrightarrow> fs_quiet g" using wa(1) by (auto simp: only_touches_def fs_quiet_def)
        moreover have "take n bs @ take k (drop n bs) = take (n + k) bs" by (simp add: take_add)
        ultimately show ?thesis using k n ot wa(1)
          by (intro conjI exI [of _ "n + k"]) (auto intro: only_touches_trans)
      qed
    qed
  qed
qed

lemma fs_write_all_appending:
  assumes "fs_write_all fd bs f = (rc, f')" and "appending f fd p c"
  obtains k where "k \<le> length bs" "appending f' fd p (c @ take k bs)" "only_touches p fd f f'"
    "rc = int (length bs) \<longrightarrow> k = length bs" "fs_quiet f \<longrightarrow> rc = int (length bs)"
  using fs_write_all_loop_appending [OF assms [unfolded fs_write_all_def]] by auto

section \<open>What validation guarantees\<close>

definition normal_comp :: "string \<Rightarrow> bool" where
  "normal_comp c \<longleftrightarrow> c \<noteq> '''' \<and> c \<noteq> ''.'' \<and> c \<noteq> ''..''"

lemma first_segment_dots:
  assumes "len \<le> length s"
  shows "(len = 1 \<and> s ! 0 = CHR ''.'') \<longleftrightarrow> take len s = ''.''"
    and "(len = 2 \<and> s ! 0 = CHR ''.'' \<and> s ! 1 = CHR ''.'') \<longleftrightarrow> take len s = ''..''"
  using assms
  by (auto simp: list_eq_iff_nth_eq less_Suc_eq numeral_2_eq_2)

lemma fs_validate_segments_iff:
  "fs_validate_segments s \<longleftrightarrow>
     (\<forall>seg \<in> set (butlast (split_on (CHR ''/'') s)). normal_comp seg) \<and>
     last (split_on (CHR ''/'') s) \<noteq> ''.'' \<and> last (split_on (CHR ''/'') s) \<noteq> ''..''"
proof (induction s rule: fs_validate_segments.induct)
  case (1 s)
  show ?case
  proof (cases "s = []")
    case True
    then show ?thesis by (simp add: fs_validate_segments.simps)
  next
    case ne: False
    show ?thesis
    proof (cases "strchr s (CHR ''/'')")
      case None
      then have "CHR ''/'' \<notin> set s" by (simp add: strchr_None_iff)
      with None ne first_segment_dots [of "length s" s] show ?thesis
        by (simp add: fs_validate_segments.simps [of s] split_on_none)
    next
      case (Some i)
      note sd = strchr_SomeD [OF Some]
      have sp: "split_on (CHR ''/'') s = take i s # split_on (CHR ''/'') (drop (Suc i) s)"
        using split_on_append_sep [of "CHR ''/''" "take i s" "drop (Suc i) s"]
          split_on_none [OF sd(2)] sd(1) by simp
      have fsd: "(i = 1 \<and> s ! 0 = CHR ''.'') \<longleftrightarrow> take i s = ''.''"
        "(i = 2 \<and> s ! 0 = CHR ''.'' \<and> s ! 1 = CHR ''.'') \<longleftrightarrow> take i s = ''..''"
        using first_segment_dots [of i s] sd(3) by simp_all
      have "fs_validate_segments s \<longleftrightarrow>
              normal_comp (take i s) \<and> fs_validate_segments (drop (Suc i) s)"
        using ne Some fsd sd(3)
        by (auto simp: fs_validate_segments.simps [of s] normal_comp_def)
      moreover have "i \<noteq> 0 \<Longrightarrow> take i s \<noteq> ''.'' \<Longrightarrow> take i s \<noteq> ''..'' \<Longrightarrow> ?thesis"
        using 1 [OF ne refl refl] Some fsd sp calculation by auto
      ultimately show ?thesis using sp by (auto simp: normal_comp_def)
    qed
  qed
qed

lemma push_comps_normal:
  "\<forall>c \<in> set cs. normal_comp c \<Longrightarrow> foldl push_comp acc cs = acc @ cs"
  by (induction cs arbitrary: acc) (auto simp: push_comp_def normal_comp_def)

lemma push_comp_Nil [simp]: "push_comp acc [] = acc"
  by (simp add: push_comp_def)

text \<open>A path below a directory resolves from where the directory resolves.\<close>

lemma canon_below:
  assumes "dir \<noteq> []"
  shows "canon (dir @ CHR ''/'' # rel) = foldl push_comp (canon dir) (split_on (CHR ''/'') rel)"
  using assms by (simp add: canon_def split_on_append_sep)

lemma canon_snoc_slash:
  assumes "dir \<noteq> []"
  shows "canon (dir @ ''/'') = canon dir"
  using canon_below [OF assms, of "[]"] by (simp add: push_comp_def)

lemma fs_join_path_canon:
  assumes "fs_join_path cap dir file = Some full" and "dir \<noteq> []"
  shows "canon full = foldl push_comp (canon dir) (split_on (CHR ''/'') file)"
    and "length full < cap"
proof -
  show "length full < cap"
    using assms by (auto simp: fs_join_path_def snprintf_checked_def Let_def split: if_splits)
  show "canon full = foldl push_comp (canon dir) (split_on (CHR ''/'') file)"
  proof (cases "last dir = CHR ''/''")
    case True
    with assms have full: "full = dir @ file"
      by (auto simp: fs_join_path_def snprintf_checked_def Let_def last_conv_nth split: if_splits)
    define d where "d = butlast dir"
    have dir: "dir = d @ ''/''"
      using True assms(2) append_butlast_last_id [of dir] by (simp add: d_def)
    show ?thesis
    proof (cases "d = []")
      case True
      with full dir show ?thesis by (simp add: canon_def push_comp_def)
    next
      case False
      with full dir show ?thesis by (simp add: canon_below canon_snoc_slash)
    qed
  next
    case False
    with assms have "full = dir @ ''/'' @ file"
      by (auto simp: fs_join_path_def snprintf_checked_def Let_def last_conv_nth split: if_splits)
    then show ?thesis using canon_below [OF assms(2)] by simp
  qed
qed

lemma valid_relative_comps:
  assumes "fs_validate_relative_path rel"
  obtains cs where "cs \<noteq> []" "\<forall>c \<in> set cs. normal_comp c"
    "foldl push_comp acc (split_on (CHR ''/'') rel) = acc @ cs"
proof -
  obtain xs l where sp: "split_on (CHR ''/'') rel = xs @ [l]"
    by (metis append_butlast_last_id split_on_not_Nil)
  with assms have ne: "rel \<noteq> []" and hd: "hd rel \<noteq> CHR ''/''"
    and xs: "\<forall>seg \<in> set xs. normal_comp seg" and l: "l \<noteq> ''.''" "l \<noteq> ''..''"
    by (auto simp: fs_validate_relative_path_def fs_validate_segments_iff split: if_splits)
  show thesis
  proof (cases "l = ''''")
    case True
    have "xs \<noteq> []"
    proof
      assume "xs = []"
      with sp True ne hd show False by (cases rel) (auto split: list.splits)
    qed
    moreover have "foldl push_comp acc (split_on (CHR ''/'') rel) = acc @ xs"
      by (simp add: sp True push_comps_normal xs)
    ultimately show thesis using that xs by blast
  next
    case False
    with l xs have "\<forall>c \<in> set (xs @ [l]). normal_comp c" by (auto simp: normal_comp_def)
    with sp show thesis using that [of "xs @ [l]"] push_comps_normal by fastforce
  qed
qed

lemma fs_join_relative_path_confined:
  assumes "fs_join_relative_path cap base (Some rel) = Some full" and "base \<noteq> []" and "rel \<noteq> []"
  obtains cs where "cs \<noteq> []" "\<forall>c \<in> set cs. normal_comp c" "canon full = canon base @ cs"
proof -
  from assms have v: "fs_validate_relative_path rel" and j: "fs_join_path cap base rel = Some full"
    by (auto simp: fs_join_relative_path_def split: if_splits)
  from v obtain cs where "cs \<noteq> []" "\<forall>c \<in> set cs. normal_comp c"
    "foldl push_comp (canon base) (split_on (CHR ''/'') rel) = canon base @ cs"
    by (rule valid_relative_comps)
  with fs_join_path_canon(1) [OF j assms(2)] show thesis by (auto intro: that)
qed

text \<open>The temporary name beside a path: same directory, another entry.\<close>

lemma show_int_no_slash: "CHR ''/'' \<notin> set (show_int i)"
proof -
  have "\<not> isdigit (CHR ''/'')" by (simp add: isdigit_def char_code_def)
  then show ?thesis by (auto simp: show_int_def dest: show_nat_digits)
qed

lemma temp_path_canon:
  assumes "fs_build_temp_path cap full i a = Some tmp"
  obtains d l where "canon tmp = d @ [l @ ''.tmp.'' @ show_int i @ ''.'' @ show_int a]"
    "canon full = push_comp d l"
proof -
  let ?suf = "''.tmp.'' @ show_int i @ ''.'' @ show_int a"
  let ?segs = "split_on (CHR ''/'') full"
  let ?r = "if full \<noteq> [] \<and> hd full = CHR ''/'' then [''/''] else []"
  let ?d = "foldl push_comp ?r (butlast ?segs)"
  from assms have tmp: "tmp = full @ ?suf"
    by (auto simp: fs_build_temp_path_def snprintf_checked_def split: if_splits)
  have "CHR ''/'' \<notin> set ?suf" using show_int_no_slash by auto
  then have sp: "split_on (CHR ''/'') tmp = butlast ?segs @ [last ?segs @ ?suf]"
    using split_on_snoc_text tmp by blast
  have root: "(tmp \<noteq> [] \<and> hd tmp = CHR ''/'') \<longleftrightarrow> (full \<noteq> [] \<and> hd full = CHR ''/'')"
    by (cases full) (auto simp: tmp)
  have "push_comp ?d (last ?segs @ ?suf) = ?d @ [last ?segs @ ?suf]"
    by (auto simp: push_comp_def append_eq_Cons_conv)
  then have "canon tmp = ?d @ [last ?segs @ ?suf]"
    by (simp add: canon_def sp root)
  moreover have "canon full = push_comp ?d (last ?segs)"
  proof -
    have "?segs = butlast ?segs @ [last ?segs]" by simp
    then show ?thesis by (metis (no_types) canon_def foldl_Cons foldl_Nil foldl_append)
  qed
  ultimately show thesis by (rule that)
qed

lemma temp_path_other:
  assumes "fs_build_temp_path cap full i a = Some tmp"
  shows "canon tmp \<noteq> canon full"
proof -
  from assms obtain d l where *: "canon tmp = d @ [l @ ''.tmp.'' @ show_int i @ ''.'' @ show_int a]"
    "canon full = push_comp d l"
    by (rule temp_path_canon)
  have "length (butlast d) \<le> length d" by simp
  with * show ?thesis
    by (auto simp: push_comp_def dest: arg_cong [where f = length])
qed

lemma temp_path_below:
  assumes "fs_build_temp_path cap full i a = Some tmp"
    and "canon full = base @ cs" "cs \<noteq> []" "\<forall>c \<in> set cs. normal_comp c"
  shows "prefix base (canon tmp)"
proof -
  from assms(1) obtain d l where
    tmp: "canon tmp = d @ [l @ ''.tmp.'' @ show_int i @ ''.'' @ show_int a]"
    and full: "canon full = push_comp d l"
    by (rule temp_path_canon)
  have "last (canon full) \<noteq> ''..''"
    using assms(2-4) by (auto simp: normal_comp_def)
  with full have "canon full = d \<or> canon full = d @ [l] \<or> (d \<noteq> [] \<and> canon full = butlast d)"
    by (auto simp: push_comp_def split: if_splits)
  then have "prefix base d"
  proof (elim disjE conjE)
    assume "canon full = d @ [l]"
    with assms(2,3) have "d = base @ butlast cs" by (metis butlast_append butlast_snoc)
    then show ?thesis by simp
  next
    assume "d \<noteq> []" "canon full = butlast d"
    with assms(2) have "d = base @ cs @ [last d]" by (metis append_assoc append_butlast_last_id)
    then show ?thesis by (metis prefixI)
  qed (auto simp: assms(2))
  then show ?thesis by (simp add: tmp)
qed

section \<open>The life of a temporary file\<close>

lemma fs_open_temp_file_cases:
  assumes "fs_open_temp_file tmp f = (r, f')"
  obtains (fail) e where "r = Inl e" "nodes f' = nodes f" "fds f' = fds f" "next_fd f' = next_fd f"
      "set (fs_sched f') \<subseteq> set (fs_sched f)"
      "fs_quiet f \<Longrightarrow> e = EEXIST \<and> nodes f (canon tmp) \<noteq> None"
  | (ok) fd where "r = Inr fd" "fd = int (next_fd f)" "nodes f (canon tmp) = None"
      "nodes f' = (nodes f)(canon tmp \<mapsto> FileN [] (fs_now f))"
      "fds f' = (fds f)(fd \<mapsto> \<lparr>of_path = canon tmp, of_pos = 0\<rparr>)"
      "next_fd f' = Suc (next_fd f)" "set (fs_sched f') \<subseteq> set (fs_sched f)"
proof -
  obtain ev g where pop: "fs_pop f = (ev, g)" by fastforce
  then obtain es where g: "g = f\<lparr>fs_sched := es\<rparr>" "set es \<subseteq> set (fs_sched f)" by (rule fs_popE)
  have q: "\<not> fs_quiet f \<or> (\<forall>e. ev \<noteq> FsFail e)" using fs_quiet_no_fail [OF _ pop] by auto
  show thesis
    using assms fail ok g q pop
    by (auto simp: fs_open_temp_file_def fs_open_def posix_open_def new_fd_def Let_def
        split: fs_event.splits option.splits)
qed

lemma fs_open_temp_file_ok:
  assumes "fs_open_temp_file tmp f = (Inr fd, f')"
  shows "appending f' fd (canon tmp) []"
    and "nodes f (canon tmp) = None" and "fd = int (next_fd f)"
    and "\<And>q. q \<noteq> canon tmp \<Longrightarrow> nodes f' q = nodes f q"
    and "\<And>d. d \<noteq> fd \<Longrightarrow> fds f' d = fds f d" and "set (fs_sched f') \<subseteq> set (fs_sched f)"
    and "next_fd f' = Suc (next_fd f)"
  using assms by (auto elim!: fs_open_temp_file_cases simp: appending_def)

lemma fs_quiet_subset: "fs_quiet f \<Longrightarrow> set (fs_sched f') \<subseteq> set (fs_sched f) \<Longrightarrow> fs_quiet f'"
  by (auto simp: fs_quiet_def)

lemma fs_close_effect:
  assumes "fs_close fd f = (ok, f')"
  shows "nodes f' = nodes f" "fds f' = (fds f)(fd := None)" "next_fd f' = next_fd f"
    and "set (fs_sched f') \<subseteq> set (fs_sched f)"
    and "fs_quiet f \<Longrightarrow> fds f fd \<noteq> None \<Longrightarrow> ok"
  using assms fs_quiet_no_fail [of f]
  by (auto simp: fs_close_def posix_close_def elim!: fs_popE
      split: prod.splits if_splits fs_event.splits)

lemma fs_commit_effect:
  assumes "fs_commit_temp_file tmp full f = (ok, f')"
  shows "fds f' = fds f" "next_fd f' = next_fd f" "set (fs_sched f') \<subseteq> set (fs_sched f)"
    and "\<not> ok \<Longrightarrow> nodes f' = nodes f"
    and "ok \<Longrightarrow> \<exists>n. nodes f (canon tmp) = Some n \<and>
           nodes f' = (nodes f)(canon tmp := None, canon full := Some n)"
    and "fs_quiet f \<Longrightarrow> nodes f (canon tmp) \<noteq> None \<Longrightarrow> \<forall>m. nodes f (canon full) \<noteq> Some (DirN m) \<Longrightarrow> ok"
  using assms fs_quiet_no_fail [of f]
  by (auto simp: fs_commit_temp_file_def posix_rename_def is_dir_def elim!: fs_popE
      split: prod.splits if_splits fs_event.splits option.splits)

lemma fs_remove_effect:
  shows "fds (fs_remove_ignore_error p f) = fds f"
    and "next_fd (fs_remove_ignore_error p f) = next_fd f"
    and "set (fs_sched (fs_remove_ignore_error p f)) \<subseteq> set (fs_sched f)"
    and "q \<noteq> canon p \<Longrightarrow> nodes (fs_remove_ignore_error p f) q = nodes f q"
    and "nodes (fs_remove_ignore_error p f) (canon p) = None \<or>
         nodes (fs_remove_ignore_error p f) (canon p) = nodes f (canon p)"
    and "fs_quiet f \<Longrightarrow> nodes (fs_remove_ignore_error p f) (canon p) = None"
proof -
  obtain ev g where pop: "fs_pop f = (ev, g)" by fastforce
  then obtain es where g: "g = f\<lparr>fs_sched := es\<rparr>" "set es \<subseteq> set (fs_sched f)" by (rule fs_popE)
  note unf = fs_remove_ignore_error_def posix_remove_def pop
  show "fds (fs_remove_ignore_error p f) = fds f"
    "next_fd (fs_remove_ignore_error p f) = next_fd f"
    "set (fs_sched (fs_remove_ignore_error p f)) \<subseteq> set (fs_sched f)"
    "q \<noteq> canon p \<Longrightarrow> nodes (fs_remove_ignore_error p f) q = nodes f q"
    "nodes (fs_remove_ignore_error p f) (canon p) = None \<or>
     nodes (fs_remove_ignore_error p f) (canon p) = nodes f (canon p)"
    using g by (auto simp: unf split: fs_event.splits option.splits)
  show "nodes (fs_remove_ignore_error p f) (canon p) = None" if "fs_quiet f"
    using g fs_quiet_no_fail [OF that pop] by (auto simp: unf split: option.splits)
qed

text \<open>A call that only takes its outcome from the schedule.\<close>

definition fs_untouched :: "fsys \<Rightarrow> fsys \<Rightarrow> bool" where
  "fs_untouched f f' \<longleftrightarrow> nodes f' = nodes f \<and> fds f' = fds f \<and> next_fd f' = next_fd f \<and>
     set (fs_sched f') \<subseteq> set (fs_sched f)"

lemma fs_untouched_refl [simp, intro]: "fs_untouched f f"
  by (simp add: fs_untouched_def)

lemma fs_untouched_trans [trans]: "fs_untouched f g \<Longrightarrow> fs_untouched g h \<Longrightarrow> fs_untouched f h"
  by (auto simp: fs_untouched_def)

lemma posix_opendir_effect: "posix_opendir p f = (r, f') \<Longrightarrow> fs_untouched f f'"
  by (auto simp: posix_opendir_def fs_untouched_def elim!: fs_popE
      split: prod.splits fs_event.splits option.splits node.splits)

end
