(* ===== verification/Net.thy ===== *)
theory Net
  imports Fs
begin

text \<open>
  \<^verbatim>\<open>src/net.c\<close> (Linux branch): whole-buffer send and receive, the big-endian codec of 64-bit
  numbers, and the transfer of file bodies with \<^verbatim>\<open>sendfile\<close> and \<^verbatim>\<open>splice\<close> and their buffered
  fall-backs. Counts that the code keeps in \<^verbatim>\<open>size_t\<close> or in a \<^verbatim>\<open>uint64_t remaining\<close> that only
  decreases by what was moved are \<^typ>\<open>nat\<close>.
\<close>

definition is_socket_invalid :: "sock \<Rightarrow> bool" where
  "is_socket_invalid s = (sock_fd s < 0)"

definition CHUNK_SIZE :: nat where
  "CHUNK_SIZE = 1024 * 1024"

section \<open>Whole buffers\<close>

lemma send_sched:
  assumes "send bs s = (r, s')"
  shows "length (tx_sched s') \<le> length (tx_sched s)"
    and "r = Inl e \<Longrightarrow> length (tx_sched s') < length (tx_sched s)"
  using assms by (auto simp: send_def split: list.splits tx_event.splits)

function send_all_loop :: "byte list \<Rightarrow> nat \<Rightarrow> sock \<Rightarrow> int \<times> sock" where
  "send_all_loop bs tot s =
     (if bs = [] then (int tot, s)
      else case send bs s of
        (Inl e, s') \<Rightarrow> if e = EINTR then send_all_loop bs tot s' else (-1, s')
      | (Inr n, s') \<Rightarrow>
          if n = 0 then (int tot, s') else send_all_loop (drop n bs) (tot + n) s')"
  by pat_completeness auto
termination
proof (relation "measure (\<lambda>(bs, tot, s). length bs + length (tx_sched s))", goal_cases)
  case 1
  show ?case by simp
next
  case (2 bs tot s x s' e)
  then show ?case using send_sched(2) [of bs s "Inl e" s'] by simp
next
  case (3 bs tot s x s' n)
  then show ?case using send_sched(1) [of bs s "Inr n" s'] by (cases bs) auto
qed

declare send_all_loop.simps [simp del]

definition send_all :: "byte list \<Rightarrow> sock \<Rightarrow> int \<times> sock" where
  "send_all data s = send_all_loop data 0 s"

text \<open>The second component is the part of the buffer that is filled.\<close>

function recv_all_loop :: "nat \<Rightarrow> byte list \<Rightarrow> sock \<Rightarrow> int \<times> byte list \<times> sock" where
  "recv_all_loop len buf s =
     (if length buf < len then
        case recv (len - length buf) s of
          (Inl e, s') \<Rightarrow> if e = EINTR then recv_all_loop len buf s' else (-1, buf, s')
        | (Inr bs, s') \<Rightarrow>
            if bs = [] then (int (length buf), buf, s') else recv_all_loop len (buf @ bs) s'
      else (int (length buf), buf, s))"
  by pat_completeness auto
termination
proof (relation "measure (\<lambda>(len, buf, s). (len - length buf) + length (rx_sched s))", goal_cases)
  case 1
  show ?case by simp
next
  case (2 len buf s x s' e)
  then show ?case by (auto elim!: recv_cases [OF sym])
next
  case (3 len buf s x s' bs)
  then show ?case by (cases bs) (auto elim!: recv_cases [OF sym])
qed

declare recv_all_loop.simps [simp del]

definition recv_all :: "nat \<Rightarrow> sock \<Rightarrow> int \<times> byte list \<times> sock" where
  "recv_all len s = recv_all_loop len [] s"

section \<open>64-bit numbers\<close>

definition encode_u64_be :: "u64 \<Rightarrow> byte list" where
  "encode_u64_be v =
     [ucast (drop_bit 56 v AND 0xFF), ucast (drop_bit 48 v AND 0xFF),
      ucast (drop_bit 40 v AND 0xFF), ucast (drop_bit 32 v AND 0xFF),
      ucast (drop_bit 24 v AND 0xFF), ucast (drop_bit 16 v AND 0xFF),
      ucast (drop_bit 8 v AND 0xFF), ucast (v AND 0xFF)]"

definition decode_u64_be :: "byte list \<Rightarrow> u64" where
  "decode_u64_be b =
     push_bit 56 (ucast (b ! 0)) OR push_bit 48 (ucast (b ! 1)) OR
     push_bit 40 (ucast (b ! 2)) OR push_bit 32 (ucast (b ! 3)) OR
     push_bit 24 (ucast (b ! 4)) OR push_bit 16 (ucast (b ! 5)) OR
     push_bit 8 (ucast (b ! 6)) OR ucast (b ! 7)"

text \<open>\<^verbatim>\<open>htons\<close> followed by \<^verbatim>\<open>memcpy\<close>, and back, as the code uses them on 16-bit fields.\<close>

definition htons_bytes :: "u16 \<Rightarrow> byte list" where
  "htons_bytes v = [ucast (drop_bit 8 v), ucast v]"

definition ntohs_bytes :: "byte list \<Rightarrow> u16" where
  "ntohs_bytes b = push_bit 8 (ucast (b ! 0)) OR ucast (b ! 1)"

section \<open>Sending a file\<close>

datatype net_send_file_result =
  NET_SEND_FILE_OK | NET_SEND_FILE_UNSUPPORTED | NET_SEND_FILE_SOURCE_CHANGED | NET_SEND_FILE_IO
| NET_SEND_FILE_INVALID_ARGUMENT

lemma sendfile_count:
  assumes "sendfile in_fd offset want w = (r, w')"
  shows "r = Inr n \<Longrightarrow> n \<le> want"
    and "length (tx_sched (sk w')) \<le> length (tx_sched (sk w))"
    and "r = Inl EINTR \<Longrightarrow> length (tx_sched (sk w')) < length (tx_sched (sk w))"
  using assms
  by (auto simp: sendfile_def Let_def split: option.splits node.splits list.splits tx_event.splits)

function net_send_file_all_loop ::
  "int \<Rightarrow> nat \<Rightarrow> nat \<Rightarrow> world \<Rightarrow> net_send_file_result \<times> world" where
  "net_send_file_all_loop in_fd remaining offset w =
     (if remaining = 0 then (NET_SEND_FILE_OK, w)
      else case sendfile in_fd offset remaining w of
        (Inl e, w') \<Rightarrow>
          if (e = EINVAL \<or> e = ENOSYS \<or> e = ENOTSUP) \<and> offset = 0
          then (NET_SEND_FILE_UNSUPPORTED, w')
          else if e = EINTR then net_send_file_all_loop in_fd remaining offset w'
          else (NET_SEND_FILE_IO, w')
      | (Inr n, w') \<Rightarrow>
          if n = 0 then (NET_SEND_FILE_SOURCE_CHANGED, w')
          else net_send_file_all_loop in_fd (remaining - n) (offset + n) w')"
  by pat_completeness auto
termination
proof (relation "measure (\<lambda>(in_fd, remaining, offset, w). remaining + length (tx_sched (sk w)))",
    goal_cases)
  case 1
  show ?case by simp
next
  case (2 in_fd remaining offset w x w' e)
  then show ?case using sendfile_count(3) [of in_fd offset remaining w "Inl e" w'] by simp
next
  case (3 in_fd remaining offset w x w' n)
  then show ?case
    using sendfile_count(1,2) [of in_fd offset remaining w "Inr n" w'] by simp
qed

declare net_send_file_all_loop.simps [simp del]

definition net_send_file_all :: "int \<Rightarrow> u64 \<Rightarrow> world \<Rightarrow> net_send_file_result \<times> world" where
  "net_send_file_all in_fd content_size w =
     (if content_size = 0 then (NET_SEND_FILE_OK, w)
      else if is_socket_invalid (sk w) \<or> in_fd < 0 then (NET_SEND_FILE_INVALID_ARGUMENT, w)
      else net_send_file_all_loop in_fd (unat content_size) 0 w)"

function net_send_file_buffered_loop ::
  "int \<Rightarrow> nat \<Rightarrow> world \<Rightarrow> net_send_file_result \<times> world" where
  "net_send_file_buffered_loop in_fd remaining w =
     (if remaining = 0 then (NET_SEND_FILE_OK, w)
      else
        case fs_read in_fd (min CHUNK_SIZE remaining) (fs w) of
          (Inl e, f') \<Rightarrow> (NET_SEND_FILE_IO, w\<lparr>fs := f'\<rparr>)
        | (Inr buf, f') \<Rightarrow>
            if buf = [] then (NET_SEND_FILE_SOURCE_CHANGED, w\<lparr>fs := f'\<rparr>)
            else case send_all buf (sk w) of
              (n, s') \<Rightarrow>
                if n \<noteq> int (length buf) then (NET_SEND_FILE_IO, w\<lparr>fs := f', sk := s'\<rparr>)
                else net_send_file_buffered_loop in_fd (remaining - length buf)
                       (w\<lparr>fs := f', sk := s'\<rparr>))"
  by pat_completeness auto
termination
  by (relation "measure (\<lambda>(in_fd, remaining, w). remaining)") auto

declare net_send_file_buffered_loop.simps [simp del]

definition net_send_file_buffered :: "int \<Rightarrow> u64 \<Rightarrow> world \<Rightarrow> net_send_file_result \<times> world" where
  "net_send_file_buffered in_fd content_size w =
     (if is_socket_invalid (sk w) \<or> in_fd < 0 then (NET_SEND_FILE_INVALID_ARGUMENT, w)
      else if content_size = 0 then (NET_SEND_FILE_OK, w)
      else case malloc w of
        (False, w') \<Rightarrow> (NET_SEND_FILE_IO, w')
      | (True, w') \<Rightarrow> net_send_file_buffered_loop in_fd (unat content_size) w')"

definition net_send_file_best_effort :: "int \<Rightarrow> u64 \<Rightarrow> world \<Rightarrow> net_send_file_result \<times> world" where
  "net_send_file_best_effort in_fd content_size w =
     (case net_send_file_all in_fd content_size w of
        (res, w') \<Rightarrow>
          if res \<noteq> NET_SEND_FILE_UNSUPPORTED then (res, w')
          else net_send_file_buffered in_fd content_size w')"

section \<open>Receiving a file\<close>

datatype net_recv_file_result =
  NET_RECV_FILE_OK | NET_RECV_FILE_UNSUPPORTED | NET_RECV_FILE_EOF | NET_RECV_FILE_IO
| NET_RECV_FILE_INVALID_ARGUMENT

text \<open>
  The inner loop of the pipe path: \<open>buf\<close> is what the pipe holds (its length is the code's
  \<^verbatim>\<open>pipe_remaining\<close>). \<open>False\<close> is \<^verbatim>\<open>return NET_RECV_FILE_IO\<close>.
\<close>

function net_pipe_drain :: "int \<Rightarrow> byte list \<Rightarrow> fsys \<Rightarrow> bool \<times> fsys" where
  "net_pipe_drain out_fd buf f =
     (if buf = [] then (True, f)
      else case splice_pipe_file out_fd buf f of
        (Inl e, f') \<Rightarrow> if e = EINTR then net_pipe_drain out_fd buf f' else (False, f')
      | (Inr written, f') \<Rightarrow>
          if written = 0 then (False, f') else net_pipe_drain out_fd (drop written buf) f')"
  by pat_completeness auto
termination
proof (relation "measure (\<lambda>(out_fd, buf, f). length buf + length (fs_sched f))", goal_cases)
  case 1
  show ?case by simp
next
  case (2 out_fd buf f x f' e)
  then show ?case
    using fs_write_sched(2) [of out_fd buf f "Inl e" f'] by (simp add: splice_pipe_file_def fs_write_def)
next
  case (3 out_fd buf f x f' n)
  then show ?case
    using fs_write_sched(1) [of out_fd buf f "Inr n" f']
    by (cases buf) (auto simp: splice_pipe_file_def fs_write_def)
qed

declare net_pipe_drain.simps [simp del]

lemma splice_sock_file_count:
  assumes "splice_sock_file out_fd offset want w = (r, off', w')"
  shows "length (rx_sched (sk w')) \<le> length (rx_sched (sk w))"
    and "r = Inl EINTR \<Longrightarrow> length (rx_sched (sk w')) < length (rx_sched (sk w))"
    and "r = Inr n \<Longrightarrow> n \<le> want"
  using assms
  by (auto simp: splice_sock_file_def elim!: recv_cases
      split: if_splits option.splits node.splits prod.splits sum.splits)

text \<open>
  The main loop. \<open>file_offset\<close> is advanced by the kernel inside \<^verbatim>\<open>splice\<close> and once more by the
  code; \<open>use_pipe\<close> is the code's \<^verbatim>\<open>use_pipe_fallback\<close>.
\<close>

function net_recv_file_all_loop ::
  "int \<Rightarrow> nat \<Rightarrow> nat \<Rightarrow> bool \<Rightarrow> nat \<Rightarrow> world \<Rightarrow> net_recv_file_result \<times> world" where
  "net_recv_file_all_loop out_fd remaining moved use_pipe file_offset w =
     (if remaining = 0 then (NET_RECV_FILE_OK, w)
      else
        let want = min CHUNK_SIZE remaining in
        if \<not> use_pipe then
          case splice_sock_file out_fd file_offset want w of
            (Inl e, off', w') \<Rightarrow>
              if (e = EINVAL \<or> e = ENOSYS \<or> e = ENOTSUP) \<and> moved = 0 then
                (case posix_pipe (fs w') of
                   (Inl pe, f') \<Rightarrow>
                     (if pe = EMFILE \<or> pe = ENFILE then NET_RECV_FILE_IO
                      else NET_RECV_FILE_UNSUPPORTED, w'\<lparr>fs := f'\<rparr>)
                 | (Inr u, f') \<Rightarrow>
                     net_recv_file_all_loop out_fd remaining moved True off' (w'\<lparr>fs := f'\<rparr>))
              else if e = EINTR then
                net_recv_file_all_loop out_fd remaining moved False off' w'
              else (NET_RECV_FILE_IO, w')
          | (Inr n, off', w') \<Rightarrow>
              if n = 0 then (NET_RECV_FILE_EOF, w')
              else net_recv_file_all_loop out_fd (remaining - n) (moved + n) False (off' + n) w'
        else
          case splice_sock_pipe want (sk w) of
            (Inl e, s') \<Rightarrow>
              if (e = EINVAL \<or> e = ENOSYS \<or> e = ENOTSUP) \<and> moved = 0
              then (NET_RECV_FILE_UNSUPPORTED, w\<lparr>sk := s'\<rparr>)
              else if e = EINTR then
                net_recv_file_all_loop out_fd remaining moved True file_offset (w\<lparr>sk := s'\<rparr>)
              else (NET_RECV_FILE_IO, w\<lparr>sk := s'\<rparr>)
          | (Inr buf, s') \<Rightarrow>
              if buf = [] then (NET_RECV_FILE_EOF, w\<lparr>sk := s'\<rparr>)
              else case net_pipe_drain out_fd buf (fs w) of
                (False, f') \<Rightarrow> (NET_RECV_FILE_IO, w\<lparr>sk := s', fs := f'\<rparr>)
              | (True, f') \<Rightarrow>
                  net_recv_file_all_loop out_fd (remaining - length buf) (moved + length buf) True
                    file_offset (w\<lparr>sk := s', fs := f'\<rparr>))"
  by pat_completeness auto
termination
proof (relation "measure (\<lambda>(out_fd, remaining, moved, use_pipe, off, w).
    remaining + length (rx_sched (sk w)) + (if use_pipe then 0 else 1))", goal_cases)
  case 1
  show ?case by simp
next
  case 2
  then show ?case by (auto dest!: splice_sock_file_count(1) [OF sym])
next
  case 3
  then show ?case by (auto dest!: splice_sock_file_count(2) [OF sym])
next
  case 4
  then show ?case
    by (auto dest: splice_sock_file_count(1) [OF sym] splice_sock_file_count(3) [OF sym])
next
  case (5 out_fd remaining moved use_pipe off w want x s' e)
  then show ?case by (auto simp: splice_sock_pipe_def elim!: recv_cases [OF sym])
next
  case (6 out_fd remaining moved use_pipe off w want x s' buf y f')
  then show ?case
    by (cases buf) (auto simp: splice_sock_pipe_def elim!: recv_cases [OF sym])
qed

declare net_recv_file_all_loop.simps [simp del]

definition net_recv_file_all :: "int \<Rightarrow> u64 \<Rightarrow> world \<Rightarrow> net_recv_file_result \<times> world" where
  "net_recv_file_all out_fd content_size w =
     (if content_size = 0 then (NET_RECV_FILE_OK, w)
      else if is_socket_invalid (sk w) \<or> out_fd < 0 then (NET_RECV_FILE_INVALID_ARGUMENT, w)
      else net_recv_file_all_loop out_fd (unat content_size) 0 False 0 w)"

text \<open>
  The receive-and-write loop, which \<^verbatim>\<open>net_recv_file_buffered\<close> here and
  \<^verbatim>\<open>transfer_recv_socket_http_file_buffered\<close> in \<^verbatim>\<open>transfer_io.c\<close> both have; the ways it ends are
  mapped to their own result codes.
\<close>

datatype recv_loop_end = RecvDone | RecvEof | RecvSockError | RecvWriteError

function recv_to_file_loop :: "nat \<Rightarrow> int \<Rightarrow> nat \<Rightarrow> world \<Rightarrow> recv_loop_end \<times> world" where
  "recv_to_file_loop buf_cap out_fd remaining w =
     (if remaining = 0 then (RecvDone, w)
      else
        case recv (min buf_cap remaining) (sk w) of
          (Inl e, s') \<Rightarrow>
            if e = EINTR then recv_to_file_loop buf_cap out_fd remaining (w\<lparr>sk := s'\<rparr>)
            else (RecvSockError, w\<lparr>sk := s'\<rparr>)
        | (Inr buf, s') \<Rightarrow>
            if buf = [] then (RecvEof, w\<lparr>sk := s'\<rparr>)
            else case fs_write_all out_fd buf (fs w) of
              (n, f') \<Rightarrow>
                if n \<noteq> int (length buf) then (RecvWriteError, w\<lparr>sk := s', fs := f'\<rparr>)
                else recv_to_file_loop buf_cap out_fd (remaining - length buf)
                       (w\<lparr>sk := s', fs := f'\<rparr>))"
  by pat_completeness auto
termination
proof (relation "measure (\<lambda>(cap, out_fd, remaining, w). remaining + length (rx_sched (sk w)))",
    goal_cases)
  case 1
  show ?case by simp
next
  case (2 cap out_fd remaining w x s' e)
  then show ?case by (auto elim!: recv_cases [OF sym])
next
  case (3 cap out_fd remaining w x s' buf n f')
  then show ?case by (cases buf) (auto elim!: recv_cases [OF sym])
qed

declare recv_to_file_loop.simps [simp del]

definition net_recv_file_buffered :: "int \<Rightarrow> u64 \<Rightarrow> world \<Rightarrow> net_recv_file_result \<times> world" where
  "net_recv_file_buffered out_fd content_size w =
     (if is_socket_invalid (sk w) \<or> out_fd < 0 then (NET_RECV_FILE_INVALID_ARGUMENT, w)
      else if content_size = 0 then (NET_RECV_FILE_OK, w)
      else
        let big = content_size > 1024 * 1024;
            (ok, w1) = (if big then malloc w else (True, w));
            buf_cap = (if big then 256 * 1024 else 8192)
        in if \<not> ok then (NET_RECV_FILE_IO, w1)
           else case recv_to_file_loop buf_cap out_fd (unat content_size) w1 of
             (r, w') \<Rightarrow>
               (case r of RecvDone \<Rightarrow> NET_RECV_FILE_OK | RecvEof \<Rightarrow> NET_RECV_FILE_EOF
                | RecvSockError \<Rightarrow> NET_RECV_FILE_IO | RecvWriteError \<Rightarrow> NET_RECV_FILE_IO, w'))"

definition net_recv_file_best_effort :: "int \<Rightarrow> u64 \<Rightarrow> world \<Rightarrow> net_recv_file_result \<times> world" where
  "net_recv_file_best_effort out_fd content_size w =
     (case net_recv_file_all out_fd content_size w of
        (res, w') \<Rightarrow>
          if res \<noteq> NET_RECV_FILE_UNSUPPORTED then (res, w')
          else net_recv_file_buffered out_fd content_size w')"

section \<open>The own address\<close>

text \<open>
  What the calls of \<^verbatim>\<open>net_primary_ipv4\<close> give, in their order; \<open>ic_local\<close> is the address of the
  datagram socket, \<open>None\<close> when \<^verbatim>\<open>getsockname\<close> fails. The socket is closed on every path and nothing is
  sent on it. The address of the resolver that is parsed is a literal, so \<^verbatim>\<open>inet_pton\<close> accepts it.
\<close>

type_synonym ipv4_addr = "byte \<times> byte \<times> byte \<times> byte"

record ipv4_calls =
  ic_socket :: int
  ic_connect :: bool
  ic_local :: "ipv4_addr option"

text \<open>\<^verbatim>\<open>inet_ntop\<close> for \<^verbatim>\<open>AF_INET\<close>: \<open>None\<close> when the buffer is too small.\<close>

fun inet_ntop :: "ipv4_addr \<Rightarrow> nat \<Rightarrow> string option" where
  "inet_ntop (a, b, c, d) cap =
     snprintf_checked cap (show_nat (unat a) @ ''.'' @ show_nat (unat b) @ ''.'' @ show_nat (unat c) @ ''.'' @ show_nat (unat d))"

text \<open>\<open>None\<close> is the return value 1.\<close>

definition net_primary_ipv4 :: "ipv4_calls \<Rightarrow> nat \<Rightarrow> string option" where
  "net_primary_ipv4 calls out_cap =
     (if out_cap = 0 then None
      else if ic_socket calls < 0 then None
      else if \<not> ic_connect calls then None
      else case ic_local calls of
        None \<Rightarrow> None
      | Some local \<Rightarrow>
         (case inet_ntop local out_cap of
            None \<Rightarrow> None
          | Some out \<Rightarrow> if out = ''0.0.0.0'' \<or> out = ''127.0.0.1'' then None else Some out))"

text \<open>An address that is found is short and made of digits and dots.\<close>

lemma net_primary_ipv4_text:
  assumes "net_primary_ipv4 calls cap = Some out"
  shows "length out \<le> 15" "set out \<subseteq> {c. isdigit c} \<union> {CHR ''.''}"
proof -
  from assms obtain a b c d where "inet_ntop (a, b, c, d) cap = Some out"
    by (auto simp: net_primary_ipv4_def split: if_splits option.splits)
  then have out: "out = show_nat (unat a) @ ''.'' @ show_nat (unat b) @ ''.'' @ show_nat (unat c) @ ''.'' @ show_nat (unat d)"
    by (simp add: snprintf_checked_def split: if_splits)
  have "length (show_nat (unat x)) \<le> 3" for x :: byte
    by (intro length_show_nat order_less_le_trans [OF unsigned_less]) simp_all
  from this [of a] this [of b] this [of c] this [of d] show "length out \<le> 15" by (simp add: out)
  show "set out \<subseteq> {c. isdigit c} \<union> {CHR ''.''}" using show_nat_digits by (auto simp: out)
qed

end
