(* ===== verification/Net_Facts.thy ===== *)
theory Net_Facts
  imports Net
begin

text \<open>
  What the operations of \<^verbatim>\<open>net.c\<close> do, for every schedule: which bytes reach the peer or the
  file, in which order, and what a successful return means; and that they succeed when no call
  fails for good.
\<close>

section \<open>What whole-buffer calls do\<close>

lemma send_cases:
  assumes "send bs s = (r, s')"
  obtains (fail) e es where "tx_sched s = TxFail e # es" "r = Inl e" "s' = s\<lparr>tx_sched := es\<rparr>"
  | (data) k es where "k \<le> length bs" "r = Inr k"
      "s' = s\<lparr>tx_data := tx_data s @ take k bs, tx_sched := es\<rparr>"
      "set es \<subseteq> set (tx_sched s)" "k = 0 \<Longrightarrow> bs = [] \<or> TxUpTo 0 \<in> set (tx_sched s)"
proof (cases "tx_sched s")
  case Nil
  with assms show ?thesis by (intro data [of "length bs" "[]"]) (auto simp: send_def)
next
  case (Cons e es)
  show ?thesis
  proof (cases e)
    case (TxFail x)
    with assms Cons show ?thesis by (intro fail) (auto simp: send_def)
  next
    case (TxUpTo k)
    with assms Cons show ?thesis
      by (intro data [of "min k (length bs)" es]) (auto simp: send_def min_def split: if_splits)
  qed
qed

lemma send_all_loop_effect:
  assumes "send_all_loop bs t s = (rc, s')"
  shows "\<exists>k es. k \<le> length bs \<and> s' = s\<lparr>tx_data := tx_data s @ take k bs, tx_sched := es\<rparr> \<and>
           set es \<subseteq> set (tx_sched s) \<and> (rc = -1 \<or> rc = int (t + k)) \<and>
           (tx_quiet s \<longrightarrow> rc = int (t + length bs))"
  using assms
proof (induction bs t s rule: send_all_loop.induct)
  case (1 bs t s)
  show ?case
  proof (cases "bs = []")
    case True
    with "1.prems" show ?thesis
      by (intro exI [of _ 0] exI [of _ "tx_sched s"]) (auto simp: send_all_loop.simps)
  next
    case ne: False
    obtain r g where snd: "send bs s = (r, g)" by fastforce
    from snd show ?thesis
    proof (cases rule: send_cases)
      case (fail e es)
      show ?thesis
      proof (cases "e = EINTR")
        case True
        with fail ne snd "1.prems" have "send_all_loop bs t g = (rc, s')"
          by (simp add: send_all_loop.simps [of bs t s])
        from "1.IH"(1) [OF ne snd [symmetric] fail(2) True this] show ?thesis
          using fail by (fastforce simp: tx_quiet_def)
      next
        case False
        with fail ne snd "1.prems" show ?thesis
          by (intro exI [of _ 0] exI [of _ es])
            (auto simp: send_all_loop.simps [of bs t s] tx_quiet_def)
      qed
    next
      case (data k es)
      show ?thesis
      proof (cases "k = 0")
        case True
        with data ne snd "1.prems" show ?thesis
          by (intro exI [of _ 0] exI [of _ es])
            (auto simp: send_all_loop.simps [of bs t s] tx_quiet_def)
      next
        case False
        with data ne snd "1.prems" have "send_all_loop (drop k bs) (t + k) g = (rc, s')"
          by (simp add: send_all_loop.simps [of bs t s])
        from "1.IH"(2) [OF ne snd [symmetric] data(2) False this] obtain k' es' where
          *: "k' \<le> length (drop k bs)"
             "s' = g\<lparr>tx_data := tx_data g @ take k' (drop k bs), tx_sched := es'\<rparr>"
             "set es' \<subseteq> set (tx_sched g)" "rc = -1 \<or> rc = int (t + k + k')"
             "tx_quiet g \<longrightarrow> rc = int (t + k + length (drop k bs))"
          by blast
        have "tx_quiet s \<longrightarrow> tx_quiet g" using data by (auto simp: tx_quiet_def)
        with * data show ?thesis
          by (intro exI [of _ "k + k'"] exI [of _ es']) (auto simp: take_add)
      qed
    qed
  qed
qed

lemma send_allE:
  assumes "send_all bs s = (rc, s')"
  obtains k es where "k \<le> length bs" "s' = s\<lparr>tx_data := tx_data s @ take k bs, tx_sched := es\<rparr>"
    "set es \<subseteq> set (tx_sched s)" "rc = -1 \<or> rc = int k" "tx_quiet s \<longrightarrow> rc = int (length bs)"
  using send_all_loop_effect [OF assms [unfolded send_all_def]] by auto

lemma send_all_quiet:
  assumes "tx_quiet s"
  obtains es where "send_all bs s = (int (length bs), s\<lparr>tx_data := tx_data s @ bs, tx_sched := es\<rparr>)"
    "set es \<subseteq> set (tx_sched s)"
proof -
  obtain rc s' where *: "send_all bs s = (rc, s')" by fastforce
  then obtain k es where "k \<le> length bs" "s' = s\<lparr>tx_data := tx_data s @ take k bs, tx_sched := es\<rparr>"
    "set es \<subseteq> set (tx_sched s)" "rc = -1 \<or> rc = int k" "tx_quiet s \<longrightarrow> rc = int (length bs)"
    by (rule send_allE)
  with assms * that show thesis by auto
qed

lemma recv_all_loop_effect:
  assumes "recv_all_loop len buf s = (rc, out, s')" and "length buf \<le> len"
  shows "\<exists>k es. k \<le> length (rx_data s) \<and> length buf + k \<le> len \<and> out = buf @ take k (rx_data s) \<and>
           s' = s\<lparr>rx_data := drop k (rx_data s), rx_sched := es\<rparr> \<and> set es \<subseteq> set (rx_sched s) \<and>
           (rc = -1 \<and> \<not> rx_quiet s \<or> rc = int (length out) \<and>
             (length out < len \<longrightarrow> k = length (rx_data s)))"
  using assms
proof (induction len buf s rule: recv_all_loop.induct)
  case (1 len buf s)
  show ?case
  proof (cases "length buf < len")
    case False
    with "1.prems" show ?thesis
      by (intro exI [of _ 0] exI [of _ "rx_sched s"]) (auto simp: recv_all_loop.simps)
  next
    case less: True
    obtain r g where rcv: "recv (len - length buf) s = (r, g)" by fastforce
    from rcv show ?thesis
    proof (cases rule: recv_cases)
      case (fail e es)
      show ?thesis
      proof (cases "e = EINTR")
        case True
        with fail less rcv "1.prems" have "recv_all_loop len buf g = (rc, out, s')"
          by (simp add: recv_all_loop.simps [of len buf s])
        from "1.IH"(1) [OF less rcv [symmetric] fail(2) True this "1.prems"(2)] show ?thesis
          using fail by (fastforce simp: rx_quiet_def)
      next
        case False
        with fail less rcv "1.prems" show ?thesis
          by (intro exI [of _ 0] exI [of _ es])
            (auto simp: recv_all_loop.simps [of len buf s] rx_quiet_def)
      qed
    next
      case (data k es)
      let ?bs = "take k (rx_data s)"
      show ?thesis
      proof (cases "?bs = []")
        case True
        with data less have "rx_data s = []" by auto
        with True data less rcv "1.prems" show ?thesis
          by (intro exI [of _ 0] exI [of _ es]) (auto simp: recv_all_loop.simps [of len buf s])
      next
        case False
        with data less rcv "1.prems" have rec: "recv_all_loop len (buf @ ?bs) g = (rc, out, s')"
          by (simp add: recv_all_loop.simps [of len buf s])
        have "length (buf @ ?bs) \<le> len" using data less by auto
        from "1.IH"(2) [OF less rcv [symmetric] data(4) False rec this] obtain k' es' where
          *: "k' \<le> length (rx_data g)" "length (buf @ ?bs) + k' \<le> len"
             "out = (buf @ ?bs) @ take k' (rx_data g)"
             "s' = g\<lparr>rx_data := drop k' (rx_data g), rx_sched := es'\<rparr>"
             "set es' \<subseteq> set (rx_sched g)"
             "rc = -1 \<and> \<not> rx_quiet g \<or> rc = int (length out) \<and>
                (length out < len \<longrightarrow> k' = length (rx_data g))"
          by blast
        show ?thesis
        proof (intro exI [of _ "k + k'"] exI [of _ es'] conjI)
          show "k + k' \<le> length (rx_data s)" "length buf + (k + k') \<le> len" using *(1,2) data by simp_all
          show "out = buf @ take (k + k') (rx_data s)" using *(3) data by (simp add: take_add)
          show "s' = s\<lparr>rx_data := drop (k + k') (rx_data s), rx_sched := es'\<rparr>" using *(4) data by (simp add: add.commute)
          show "set es' \<subseteq> set (rx_sched s)" using *(5) data by auto
          have "rx_quiet s \<longrightarrow> rx_quiet g" using data by (auto simp: rx_quiet_def)
          then show "rc = -1 \<and> \<not> rx_quiet s \<or> rc = int (length out) \<and> (length out < len \<longrightarrow> k + k' = length (rx_data s))"
            using *(1,6) data by auto
        qed
      qed
    qed
  qed
qed

lemma recv_allE:
  assumes "recv_all len s = (rc, out, s')"
  obtains k es where "k \<le> length (rx_data s)" "k \<le> len" "out = take k (rx_data s)"
    "s' = s\<lparr>rx_data := drop k (rx_data s), rx_sched := es\<rparr>" "set es \<subseteq> set (rx_sched s)"
    "rc = -1 \<and> \<not> rx_quiet s \<or> rc = int k \<and> (k < len \<longrightarrow> k = length (rx_data s))"
  using recv_all_loop_effect [OF assms [unfolded recv_all_def]] by auto

lemma recv_all_quiet:
  assumes "rx_quiet s"
  obtains es where "recv_all len s = (int (min len (length (rx_data s))), take len (rx_data s),
      s\<lparr>rx_data := drop len (rx_data s), rx_sched := es\<rparr>)"
    "set es \<subseteq> set (rx_sched s)"
proof -
  obtain rc out s' where *: "recv_all len s = (rc, out, s')" by (metis prod_cases3)
  then obtain k es where k: "k \<le> length (rx_data s)" "k \<le> len" "out = take k (rx_data s)"
    "s' = s\<lparr>rx_data := drop k (rx_data s), rx_sched := es\<rparr>" "set es \<subseteq> set (rx_sched s)"
    "rc = -1 \<and> \<not> rx_quiet s \<or> rc = int k \<and> (k < len \<longrightarrow> k = length (rx_data s))"
    by (rule recv_allE)
  with assms have "k = min len (length (rx_data s))" "rc = int k" by auto
  with k * show thesis using that [of es] by (auto simp: min_def split: if_splits)
qed

section \<open>The big-endian codecs\<close>

lemma length_encode_u64_be [simp]: "length (encode_u64_be v) = 8"
  by (simp add: encode_u64_be_def)

lemma length_htons_bytes [simp]: "length (htons_bytes v) = 2"
  by (simp add: htons_bytes_def)

lemma ucast_and_0xFF: "(ucast (x AND 0xFF) :: byte) = ucast (x :: 'a::len word)"
proof -
  have "(0xFF :: 'a word) = mask 8" by (simp add: mask_eq_exp_minus_1)
  then have "x AND 0xFF = take_bit 8 x" by (simp only: take_bit_eq_mask)
  then show ?thesis by (simp only:) (auto intro!: bit_word_eqI simp: bit_simps)
qed

lemma bit_byte_at:
  assumes "n < 64"
  shows "bit (push_bit k (ucast (ucast (drop_bit k v) :: byte)) :: u64) n \<longleftrightarrow> k \<le> n \<and> n < k + 8 \<and> bit (v :: u64) n"
  using assms by (auto simp: bit_simps)

lemma decode_encode_u64_be_append [simp]: "decode_u64_be (encode_u64_be v @ rest) = v"
proof (rule bit_word_eqI)
  fix n assume "n < LENGTH(64)"
  then have n: "n < 64" by simp
  have low: "bit (ucast (ucast v :: byte) :: u64) n \<longleftrightarrow> n < 8 \<and> bit v n" using bit_byte_at [OF n, of 0 v] by simp
  have "56 \<le> n \<and> n < 64 \<or> 48 \<le> n \<and> n < 56 \<or> 40 \<le> n \<and> n < 48 \<or> 32 \<le> n \<and> n < 40 \<or>
    24 \<le> n \<and> n < 32 \<or> 16 \<le> n \<and> n < 24 \<or> 8 \<le> n \<and> n < 16 \<or> n < 8" using n by linarith
  then show "bit (decode_u64_be (encode_u64_be v @ rest)) n = bit v n"
    by (simp add: decode_u64_be_def encode_u64_be_def ucast_and_0xFF bit_or_iff bit_byte_at [OF n] low) blast
qed

lemma ntohs_htons_append [simp]: "ntohs_bytes (htons_bytes v @ rest) = v"
proof (rule bit_word_eqI)
  fix n assume n: "n < LENGTH(16)"
  show "bit (ntohs_bytes (htons_bytes v @ rest)) n = bit v n"
    using n by (simp add: ntohs_bytes_def htons_bytes_def bit_simps cong: conj_cong)
      (cases "bit v n"; simp; presburger)
qed

section \<open>Frames\<close>

definition io_frame :: "world \<Rightarrow> world \<Rightarrow> bool" where
  "io_frame w w' \<longleftrightarrow> store w' = store w \<and> pid w' = pid w \<and> splice_direct w' = splice_direct w \<and>
     sock_fd (sk w') = sock_fd (sk w) \<and> set (mem w') \<subseteq> set (mem w) \<and>
     set (rx_sched (sk w')) \<subseteq> set (rx_sched (sk w)) \<and> set (tx_sched (sk w')) \<subseteq> set (tx_sched (sk w))"

definition tx_only :: "sock \<Rightarrow> sock \<Rightarrow> bool" where
  "tx_only s s' \<longleftrightarrow> sock_fd s' = sock_fd s \<and> rx_data s' = rx_data s \<and> rx_sched s' = rx_sched s \<and>
     set (tx_sched s') \<subseteq> set (tx_sched s)"

definition rx_only :: "sock \<Rightarrow> sock \<Rightarrow> bool" where
  "rx_only s s' \<longleftrightarrow> sock_fd s' = sock_fd s \<and> tx_data s' = tx_data s \<and> tx_sched s' = tx_sched s \<and>
     set (rx_sched s') \<subseteq> set (rx_sched s)"

text \<open>Reading through \<open>fd\<close> changes nothing but the position of \<open>fd\<close>.\<close>

definition only_reads :: "int \<Rightarrow> fsys \<Rightarrow> fsys \<Rightarrow> bool" where
  "only_reads fd f f' \<longleftrightarrow> nodes f' = nodes f \<and> (\<forall>d. d \<noteq> fd \<longrightarrow> fds f' d = fds f d) \<and>
     (fds f' fd = None \<longleftrightarrow> fds f fd = None) \<and> next_fd f' = next_fd f \<and>
     set (fs_sched f') \<subseteq> set (fs_sched f)"

lemma io_frame_refl [simp, intro]: "io_frame w w"
  by (simp add: io_frame_def)

lemma io_frame_trans [trans]: "io_frame w w' \<Longrightarrow> io_frame w' w'' \<Longrightarrow> io_frame w w''"
  by (auto simp: io_frame_def)

lemma tx_only_refl [simp, intro]: "tx_only s s"
  by (simp add: tx_only_def)

lemma tx_only_trans [trans]: "tx_only s t \<Longrightarrow> tx_only t u \<Longrightarrow> tx_only s u"
  by (auto simp: tx_only_def)

lemma rx_only_refl [simp, intro]: "rx_only s s"
  by (simp add: rx_only_def)

lemma rx_only_trans [trans]: "rx_only s t \<Longrightarrow> rx_only t u \<Longrightarrow> rx_only s u"
  by (auto simp: rx_only_def)

lemma tx_onlyD [frame_simps]:
  assumes "tx_only s s'"
  shows "rx_data s' = rx_data s" "rx_sched s' = rx_sched s" "sock_fd s' = sock_fd s"
    "set (tx_sched s') \<subseteq> set (tx_sched s)" "tx_quiet s \<Longrightarrow> tx_quiet s'" "rx_quiet s' = rx_quiet s"
  using assms by (auto simp: tx_only_def tx_quiet_def rx_quiet_def)

lemma rx_onlyD [frame_simps]:
  assumes "rx_only s s'"
  shows "tx_data s' = tx_data s" "tx_sched s' = tx_sched s" "sock_fd s' = sock_fd s"
    "set (rx_sched s') \<subseteq> set (rx_sched s)" "rx_quiet s \<Longrightarrow> rx_quiet s'" "tx_quiet s' = tx_quiet s"
  using assms by (auto simp: rx_only_def tx_quiet_def rx_quiet_def)

lemma only_reads_refl [simp, intro]: "only_reads fd f f"
  by (simp add: only_reads_def)

lemma only_reads_trans [trans]:
  "only_reads fd f g \<Longrightarrow> only_reads fd g h \<Longrightarrow> only_reads fd f h"
  by (auto simp: only_reads_def)

lemma malloc_effect:
  assumes "malloc w = (b, w')"
  obtains bs where "w' = w\<lparr>mem := bs\<rparr>" "set bs \<subseteq> set (mem w)" "False \<notin> set (mem w) \<Longrightarrow> b"
  using assms by (cases "mem w") (auto simp: malloc_def intro: that [of "[]"] that)

section \<open>Sending a file body\<close>

lemma sendfile_effect:
  assumes "sendfile fd offset want w = (r, w')"
    and "fds (fs w) fd = Some ofl" and "nodes (fs w) (of_path ofl) = Some (FileN c m)"
  obtains (fail) e es where "tx_sched (sk w) = TxFail e # es" "r = Inl e"
      "w' = w\<lparr>sk := (sk w)\<lparr>tx_sched := es\<rparr>\<rparr>"
  | (data) k es where "k \<le> want" "offset + k \<le> length c \<or> k = 0" "r = Inr k"
      "k = 0 \<Longrightarrow> want = 0 \<or> length c \<le> offset"
      "w' = w\<lparr>sk := (sk w)\<lparr>tx_data := tx_data (sk w) @ take k (drop offset c), tx_sched := es\<rparr>\<rparr>"
      "set es \<subseteq> set (tx_sched (sk w))"
proof (cases "tx_sched (sk w)")
  case Nil
  with assms show ?thesis
    by (intro data [of "min want (length c - offset)" "[]"])
      (auto simp: sendfile_def Let_def min_def split: if_splits)
next
  case (Cons e es)
  show ?thesis
  proof (cases e)
    case (TxFail x)
    with assms Cons show ?thesis by (intro fail) (auto simp: sendfile_def)
  next
    case (TxUpTo k)
    with assms Cons show ?thesis
      by (intro data [of "min (Suc k) (min want (length c - offset))" es])
        (auto simp: sendfile_def Let_def min_def split: if_splits)
  qed
qed

lemma net_send_file_all_loop_not_unsupported:
  "net_send_file_all_loop fd remaining offset w = (r, w') \<Longrightarrow> 0 < offset \<Longrightarrow>
     r \<noteq> NET_SEND_FILE_UNSUPPORTED"
proof (induction fd remaining offset w rule: net_send_file_all_loop.induct)
  case (1 fd remaining offset w)
  show ?case
    using "1.prems" "1.IH"
    by (subst (asm) net_send_file_all_loop.simps)
      (auto split: if_splits prod.splits sum.splits)
qed

lemma net_send_file_all_loop_effect:
  assumes "net_send_file_all_loop fd remaining offset w = (r, w')"
    and "fds (fs w) fd = Some ofl" and "nodes (fs w) (of_path ofl) = Some (FileN c m)"
  shows "\<exists>k es. w' = w\<lparr>sk := (sk w)\<lparr>tx_data := tx_data (sk w) @ take k (drop offset c),
             tx_sched := es\<rparr>\<rparr> \<and> set es \<subseteq> set (tx_sched (sk w)) \<and> k \<le> remaining \<and>
           (r = NET_SEND_FILE_OK \<longrightarrow> k = remaining \<and> (remaining = 0 \<or> offset + remaining \<le> length c)) \<and>
           (r = NET_SEND_FILE_UNSUPPORTED \<longrightarrow> k = 0) \<and>
           (tx_quiet (sk w) \<and> offset + remaining \<le> length c \<longrightarrow> r = NET_SEND_FILE_OK)"
  using assms
proof (induction fd remaining offset w rule: net_send_file_all_loop.induct)
  case (1 fd remaining offset w)
  show ?case
  proof (cases "remaining = 0")
    case True
    with "1.prems" show ?thesis
      by (intro exI [of _ 0] exI [of _ "tx_sched (sk w)"]) (auto simp: net_send_file_all_loop.simps)
  next
    case ne: False
    obtain x v where sf: "sendfile fd offset remaining w = (x, v)" by fastforce
    from sf "1.prems"(2,3) show ?thesis
    proof (cases rule: sendfile_effect)
      case (fail e es)
      show ?thesis
      proof (cases "\<not> ((e = EINVAL \<or> e = ENOSYS \<or> e = ENOTSUP) \<and> offset = 0) \<and> e = EINTR")
        case True
        with fail ne sf "1.prems" have rec: "net_send_file_all_loop fd remaining offset v = (r, w')"
          by (simp add: net_send_file_all_loop.simps [of fd remaining offset w])
        have "fds (fs v) fd = Some ofl" "nodes (fs v) (of_path ofl) = Some (FileN c m)"
          using fail "1.prems" by simp_all
        from "1.IH"(1) [OF ne sf [symmetric] fail(2) _ _ rec this] True obtain k es' where
          *: "w' = v\<lparr>sk := (sk v)\<lparr>tx_data := tx_data (sk v) @ take k (drop offset c),
                 tx_sched := es'\<rparr>\<rparr>"
             "set es' \<subseteq> set (tx_sched (sk v))" "k \<le> remaining"
             "r = NET_SEND_FILE_OK \<longrightarrow> k = remaining \<and>
                (remaining = 0 \<or> offset + remaining \<le> length c)"
             "r = NET_SEND_FILE_UNSUPPORTED \<longrightarrow> k = 0"
             "tx_quiet (sk v) \<and> offset + remaining \<le> length c \<longrightarrow> r = NET_SEND_FILE_OK"
          by blast
        have "tx_quiet (sk w) \<longrightarrow> tx_quiet (sk v)" using fail by (auto simp: tx_quiet_def)
        with * fail show ?thesis by (intro exI [of _ k] exI [of _ es']) auto
      next
        case False
        with fail ne sf "1.prems" show ?thesis
          by (intro exI [of _ 0] exI [of _ es])
            (auto simp: net_send_file_all_loop.simps [of fd remaining offset w] tx_quiet_def
              split: if_splits)
      qed
    next
      case (data k es)
      show ?thesis
      proof (cases "k = 0")
        case True
        with data ne sf "1.prems" show ?thesis
          by (intro exI [of _ 0] exI [of _ es])
            (auto simp: net_send_file_all_loop.simps [of fd remaining offset w])
      next
        case False
        with data ne sf "1.prems"
        have rec: "net_send_file_all_loop fd (remaining - k) (offset + k) v = (r, w')"
          by (simp add: net_send_file_all_loop.simps [of fd remaining offset w])
        have "fds (fs v) fd = Some ofl" "nodes (fs v) (of_path ofl) = Some (FileN c m)"
          using data "1.prems" by simp_all
        from "1.IH"(2) [OF ne sf [symmetric] data(3) False rec this] obtain k' es' where
          *: "w' = v\<lparr>sk := (sk v)\<lparr>tx_data := tx_data (sk v) @ take k' (drop (offset + k) c),
                 tx_sched := es'\<rparr>\<rparr>"
             "set es' \<subseteq> set (tx_sched (sk v))" "k' \<le> remaining - k"
             "r = NET_SEND_FILE_OK \<longrightarrow> k' = remaining - k \<and>
                (remaining - k = 0 \<or> offset + k + (remaining - k) \<le> length c)"
             "tx_quiet (sk v) \<and> offset + k + (remaining - k) \<le> length c \<longrightarrow> r = NET_SEND_FILE_OK"
          by blast
        have unsup: "r \<noteq> NET_SEND_FILE_UNSUPPORTED"
          using net_send_file_all_loop_not_unsupported [OF rec] False by simp
        have "tx_quiet (sk w) \<longrightarrow> tx_quiet (sk v)" using data by (auto simp: tx_quiet_def)
        moreover have "take k (drop offset c) @ take k' (drop (offset + k) c) =
          take (k + k') (drop offset c)" by (metis add.commute drop_drop take_add)
        ultimately show ?thesis using * data unsup False
          by (intro exI [of _ "k + k'"] exI [of _ es']) auto
      qed
    qed
  qed
qed

lemma fs_read_effect:
  assumes "fs_read fd n f = (r, f')"
    and "fds f fd = Some ofl" and "nodes f (of_path ofl) = Some (FileN c m)"
  obtains (fail) e where "r = Inl e" "only_reads fd f f'" "\<not> fs_quiet f"
  | (data) k where "k \<le> n" "of_pos ofl + k \<le> length c \<or> k = 0"
      "r = Inr (take k (drop (of_pos ofl) c))"
      "k = 0 \<Longrightarrow> n = 0 \<or> length c \<le> of_pos ofl" "only_reads fd f f'"
      "fds f' fd = Some (ofl\<lparr>of_pos := of_pos ofl + k\<rparr>)"
proof -
  obtain ev g where pop: "fs_pop f = (ev, g)" by fastforce
  then obtain es where g: "g = f\<lparr>fs_sched := es\<rparr>" "set es \<subseteq> set (fs_sched f)"
    by (rule fs_popE)
  show ?thesis
  proof (cases "\<exists>e. ev = FsFail e")
    case True
    then obtain e where "ev = FsFail e" ..
    moreover have "\<not> fs_quiet f" using fs_quiet_no_fail [OF _ pop] calculation by auto
    ultimately show ?thesis using assms(1) pop g
      by (intro fail [of e]) (auto simp: fs_read_def posix_read_def only_reads_def)
  next
    case False
    define lim where "lim = (case ev of FsShort j \<Rightarrow> min n (Suc j) | _ \<Rightarrow> n)"
    have lim: "lim \<le> n" "lim = 0 \<Longrightarrow> n = 0" by (auto simp: lim_def split: fs_event.splits)
    from False assms pop g have
      "r = Inr (take lim (drop (of_pos ofl) c))"
      "f' = g\<lparr>fds := (fds g)(fd \<mapsto> ofl\<lparr>of_pos := of_pos ofl + length (take lim (drop (of_pos ofl) c))\<rparr>)\<rparr>"
      by (auto simp: fs_read_def posix_read_def Let_def lim_def split: fs_event.splits)
    then show ?thesis using lim g assms(2)
      by (intro data [of "min lim (length c - of_pos ofl)"])
        (auto simp: only_reads_def min_def split: if_splits)
  qed
qed

text \<open>
  The state in which a body is sent: \<open>fd\<close> reads the file \<open>p\<close> with content \<open>c\<close> from
  position \<open>pos\<close>.
\<close>

definition reading :: "fsys \<Rightarrow> int \<Rightarrow> path \<Rightarrow> nat \<Rightarrow> byte list \<Rightarrow> bool" where
  "reading f fd p pos c \<longleftrightarrow>
     fds f fd = Some \<lparr>of_path = p, of_pos = pos\<rparr> \<and> (\<exists>m. nodes f p = Some (FileN c m))"

text \<open>What a send of \<open>remaining\<close> bytes of \<open>c\<close> from \<open>pos\<close> on does, whatever it returns.\<close>

definition sends_from ::
  "byte list \<Rightarrow> nat \<Rightarrow> nat \<Rightarrow> int \<Rightarrow> world \<Rightarrow> bool \<Rightarrow> world \<Rightarrow> bool" where
  "sends_from c pos remaining fd w ok w' \<longleftrightarrow>
     (\<exists>k \<le> remaining. tx_data (sk w') = tx_data (sk w) @ take k (drop pos c) \<and>
        (ok \<longrightarrow> k = remaining \<and> (remaining = 0 \<or> pos + remaining \<le> length c))) \<and>
     tx_only (sk w) (sk w') \<and> only_reads fd (fs w) (fs w') \<and> io_frame w w'"

lemma net_send_file_buffered_loop_effect:
  assumes "net_send_file_buffered_loop fd remaining w = (r, w')" and "reading (fs w) fd p pos c"
  shows "sends_from c pos remaining fd w (r = NET_SEND_FILE_OK) w'"
  using assms
proof (induction fd remaining w arbitrary: pos rule: net_send_file_buffered_loop.induct)
  case (1 fd remaining w)
  let ?want = "min CHUNK_SIZE remaining"
  show ?case
  proof (cases "remaining = 0")
    case True
    with "1.prems" show ?thesis
      by (auto simp: net_send_file_buffered_loop.simps sends_from_def)
  next
    case ne: False
    obtain x g where rd: "fs_read fd ?want (fs w) = (x, g)" by fastforce
    from "1.prems"(2) obtain m where op: "fds (fs w) fd = Some \<lparr>of_path = p, of_pos = pos\<rparr>"
      "nodes (fs w) (of_path \<lparr>of_path = p, of_pos = pos\<rparr>) = Some (FileN c m)"
      by (auto simp: reading_def)
    from rd op show ?thesis
    proof (cases rule: fs_read_effect)
      case (fail e)
      with ne rd "1.prems" show ?thesis
        by (auto simp: net_send_file_buffered_loop.simps [of fd remaining w] sends_from_def
            io_frame_def)
    next
      case (data k)
      show ?thesis
      proof (cases "k = 0")
        case True
        with data ne rd "1.prems" show ?thesis
          by (auto simp: net_send_file_buffered_loop.simps [of fd remaining w] sends_from_def
              io_frame_def)
      next
        case False
        let ?buf = "take k (drop pos c)"
        have len: "length ?buf = k" using data(2) False by auto
        obtain n s' where snd: "send_all ?buf (sk w) = (n, s')" by fastforce
        then obtain j es where j: "j \<le> length ?buf"
          "s' = (sk w)\<lparr>tx_data := tx_data (sk w) @ take j ?buf, tx_sched := es\<rparr>"
          "set es \<subseteq> set (tx_sched (sk w))" "n = -1 \<or> n = int j"
          by (rule send_allE)
        have txo: "tx_only (sk w) s'" using j by (auto simp: tx_only_def)
        have iof: "io_frame w (w\<lparr>fs := g, sk := s'\<rparr>)"
          using j by (auto simp: io_frame_def)
        show ?thesis
        proof (cases "n = int (length ?buf)")
          case bad: False
          with data ne rd snd "1.prems" False have "r = NET_SEND_FILE_IO" "w' = w\<lparr>fs := g, sk := s'\<rparr>"
            by (auto simp: net_send_file_buffered_loop.simps [of fd remaining w])
          then show ?thesis using j data txo iof
            by (auto simp: sends_from_def intro!: exI [of _ j])
        next
          case True
          with data ne rd snd "1.prems" False have
            rec: "net_send_file_buffered_loop fd (remaining - k) (w\<lparr>fs := g, sk := s'\<rparr>) = (r, w')"
            using len by (auto simp: net_send_file_buffered_loop.simps [of fd remaining w])
          have rd': "reading (fs (w\<lparr>fs := g, sk := s'\<rparr>)) fd p (pos + k) c"
            using data op by (auto simp: reading_def only_reads_def)
          have "take k (drop pos c) \<noteq> []" using len False by auto
          from "1.IH" [OF ne rd [symmetric] _ this snd [symmetric]] True rec rd' data len
          have "sends_from c (pos + k) (remaining - k) fd (w\<lparr>fs := g, sk := s'\<rparr>)
                  (r = NET_SEND_FILE_OK) w'" by auto
          moreover have "tx_data s' = tx_data (sk w) @ take k (drop pos c)"
            using j True len by auto
          ultimately show ?thesis using data txo iof False
            by (auto simp: sends_from_def take_add add.commute
                intro: tx_only_trans only_reads_trans io_frame_trans intro!: exI [of _ "k + _"])
        qed
      qed
    qed
  qed
qed

lemma net_send_file_best_effort_effect:
  assumes "net_send_file_best_effort fd sz w = (r, w')" and "reading (fs w) fd p 0 c"
  shows "sends_from c 0 (unat sz) fd w (r = NET_SEND_FILE_OK) w'"
proof -
  obtain r1 w1 where all: "net_send_file_all fd sz w = (r1, w1)" by fastforce
  from assms(2) obtain m where op: "fds (fs w) fd = Some \<lparr>of_path = p, of_pos = 0\<rparr>"
    "nodes (fs w) (of_path \<lparr>of_path = p, of_pos = 0\<rparr>) = Some (FileN c m)"
    by (auto simp: reading_def)
  have first: "sends_from c 0 (unat sz) fd w (r1 = NET_SEND_FILE_OK) w1 \<and>
    (r1 = NET_SEND_FILE_UNSUPPORTED \<longrightarrow> tx_data (sk w1) = tx_data (sk w) \<and> fs w1 = fs w)"
  proof (cases "sz = 0 \<or> is_socket_invalid (sk w) \<or> fd < 0")
    case True
    with all show ?thesis
      by (auto simp: net_send_file_all_def sends_from_def split: if_splits)
  next
    case False
    with all have "net_send_file_all_loop fd (unat sz) 0 w = (r1, w1)"
      by (simp add: net_send_file_all_def)
    from net_send_file_all_loop_effect [OF this op] obtain k es where
      "w1 = w\<lparr>sk := (sk w)\<lparr>tx_data := tx_data (sk w) @ take k (drop 0 c), tx_sched := es\<rparr>\<rparr>"
      "set es \<subseteq> set (tx_sched (sk w))" "k \<le> unat sz"
      "r1 = NET_SEND_FILE_OK \<longrightarrow> k = unat sz \<and> (unat sz = 0 \<or> 0 + unat sz \<le> length c)"
      "r1 = NET_SEND_FILE_UNSUPPORTED \<longrightarrow> k = 0"
      by blast
    then show ?thesis
      by (auto simp: sends_from_def tx_only_def io_frame_def intro!: exI [of _ k])
  qed
  show ?thesis
  proof (cases "r1 = NET_SEND_FILE_UNSUPPORTED")
    case False
    with assms(1) all first show ?thesis by (simp add: net_send_file_best_effort_def)
  next
    case True
    with assms(1) all have buf: "net_send_file_buffered fd sz w1 = (r, w')"
      by (simp add: net_send_file_best_effort_def)
    have "sends_from c 0 (unat sz) fd w1 (r = NET_SEND_FILE_OK) w'"
    proof (cases "is_socket_invalid (sk w1) \<or> fd < 0 \<or> sz = 0")
      case True
      with buf show ?thesis
        by (auto simp: net_send_file_buffered_def sends_from_def split: if_splits)
    next
      case False
      obtain b w2 where ml: "malloc w1 = (b, w2)" by fastforce
      then obtain bs where w2: "w2 = w1\<lparr>mem := bs\<rparr>" "set bs \<subseteq> set (mem w1)"
        by (rule malloc_effect)
      have rd: "reading (fs w2) fd p 0 c" using first True w2 assms(2) by simp
      have same: "sends_from c 0 (unat sz) fd w1 ok w'"
        if "sends_from c 0 (unat sz) fd w2 ok w'" for ok
        using that w2(2) by (auto simp: w2(1) sends_from_def io_frame_def)
      show ?thesis
      proof (cases b)
        case True
        with False buf ml have "net_send_file_buffered_loop fd (unat sz) w2 = (r, w')"
          by (simp add: net_send_file_buffered_def)
        from net_send_file_buffered_loop_effect [OF this rd] same show ?thesis by simp
      next
        case b: False
        with False buf ml w2 show ?thesis
          by (auto simp: net_send_file_buffered_def sends_from_def io_frame_def)
      qed
    qed
    with first True show ?thesis
      by (auto simp: sends_from_def intro: tx_only_trans only_reads_trans io_frame_trans)
  qed
qed

lemma net_send_file_best_effort_quiet:
  assumes "tx_quiet (sk w)" and "reading (fs w) fd p 0 c" and "unat sz \<le> length c"
    and "\<not> is_socket_invalid (sk w)" and "0 \<le> fd"
    and "net_send_file_best_effort fd sz w = (r, w')"
  shows "r = NET_SEND_FILE_OK"
proof (cases "sz = 0")
  case True
  with assms show ?thesis by (simp add: net_send_file_best_effort_def net_send_file_all_def)
next
  case False
  obtain r1 w1 where lp: "net_send_file_all_loop fd (unat sz) 0 w = (r1, w1)" by fastforce
  from assms(2) obtain m where op: "fds (fs w) fd = Some \<lparr>of_path = p, of_pos = 0\<rparr>"
    "nodes (fs w) (of_path \<lparr>of_path = p, of_pos = 0\<rparr>) = Some (FileN c m)"
    by (auto simp: reading_def)
  from net_send_file_all_loop_effect [OF lp op] assms(1,3) have "r1 = NET_SEND_FILE_OK" by auto
  with lp False assms show ?thesis
    by (simp add: net_send_file_best_effort_def net_send_file_all_def)
qed

section \<open>Receiving a file body\<close>

text \<open>No receive, file operation or allocation fails for good.\<close>

definition rx_calm :: "world \<Rightarrow> bool" where
  "rx_calm w \<longleftrightarrow> rx_quiet (sk w) \<and> fs_quiet (fs w) \<and> False \<notin> set (mem w)"

text \<open>
  What receiving up to \<open>remaining\<close> bytes into the file \<open>p\<close> (holding \<open>c\<close>) through \<open>fd\<close>
  does: \<open>j\<close> bytes are taken from the stream and the first \<open>k\<close> of them appended. On success
  both are \<open>remaining\<close>; on end of stream the stream held fewer; there is no other outcome when
  no call fails for good.
\<close>

definition receives_into ::
  "int \<Rightarrow> path \<Rightarrow> byte list \<Rightarrow> nat \<Rightarrow> world \<Rightarrow> bool \<Rightarrow> bool \<Rightarrow> world \<Rightarrow> bool" where
  "receives_into fd p c remaining w ok eof w' \<longleftrightarrow>
     (\<exists>j \<le> length (rx_data (sk w)). \<exists>k \<le> j. j \<le> remaining \<and>
        appending (fs w') fd p (c @ take k (rx_data (sk w))) \<and>
        rx_data (sk w') = drop j (rx_data (sk w)) \<and>
        (ok \<longrightarrow> k = remaining) \<and>
        (eof \<longrightarrow> k = length (rx_data (sk w)) \<and> j < remaining)) \<and>
     rx_only (sk w) (sk w') \<and> only_touches p fd (fs w) (fs w') \<and> io_frame w w' \<and>
     (rx_calm w \<longrightarrow> ok \<or> eof)"

text \<open>One round of a receiving loop that moved \<open>n\<close> bytes, followed by the other rounds.\<close>

lemma receives_into_step:
  assumes "n \<le> length (rx_data (sk w))" "n \<le> remaining"
    and "rx_data (sk w1) = drop n (rx_data (sk w))" "rx_only (sk w) (sk w1)"
    and "only_touches p fd (fs w) (fs w1)" "io_frame w w1"
    and rest: "receives_into fd p (c @ take n (rx_data (sk w))) (remaining - n) w1 ok eof w'"
  shows "receives_into fd p c remaining w ok eof w'"
proof -
  have "rx_calm w \<longrightarrow> rx_calm w1"
    using assms(4-6)
    by (auto simp: rx_calm_def only_touches_def io_frame_def fs_quiet_def dest: rx_onlyD(5))
  moreover from rest obtain j k where jk: "j \<le> length (rx_data (sk w1))" "k \<le> j" "j \<le> remaining - n"
    "appending (fs w') fd p ((c @ take n (rx_data (sk w))) @ take k (rx_data (sk w1)))"
    "rx_data (sk w') = drop j (rx_data (sk w1))" "ok \<longrightarrow> k = remaining - n"
    "eof \<longrightarrow> k = length (rx_data (sk w1)) \<and> j < remaining - n"
    by (auto simp: receives_into_def)
  moreover have "take n (rx_data (sk w)) @ take k (rx_data (sk w1)) = take (n + k) (rx_data (sk w))"
    by (simp add: assms(3) take_add)
  moreover have "rx_only (sk w) (sk w')" "only_touches p fd (fs w) (fs w')" "io_frame w w'"
    using rest assms(4-6)
    by (auto simp: receives_into_def intro: rx_only_trans only_touches_trans io_frame_trans)
  moreover have "rx_calm w1 \<longrightarrow> ok \<or> eof" using rest by (simp add: receives_into_def)
  moreover have "rx_data (sk w') = drop (n + j) (rx_data (sk w))" using jk(5) by (simp add: assms(3) add.commute)
  moreover have "n + j \<le> length (rx_data (sk w))" "n + k \<le> n + j" "n + j \<le> remaining" "ok \<longrightarrow> n + k = remaining"
    "eof \<longrightarrow> n + k = length (rx_data (sk w)) \<and> n + j < remaining"
    using assms(1-3) jk(1-3,6,7) by auto
  ultimately show ?thesis
    unfolding receives_into_def append_assoc by metis
qed

text \<open>A round that ends the loop without success.\<close>

lemma receives_into_stop:
  assumes "j \<le> length (rx_data (sk w))" "k \<le> j" "j \<le> remaining"
    and "appending (fs w') fd p (c @ take k (rx_data (sk w)))"
    and "rx_data (sk w') = drop j (rx_data (sk w))" "rx_only (sk w) (sk w')"
    and "only_touches p fd (fs w) (fs w')" "io_frame w w'"
    and "eof \<Longrightarrow> k = length (rx_data (sk w)) \<and> j < remaining" "rx_calm w \<Longrightarrow> eof"
  shows "receives_into fd p c remaining w False eof w'"
  using assms unfolding receives_into_def by blast

lemma receives_into_done:
  "appending (fs w) fd p c \<Longrightarrow> receives_into fd p c 0 w True eof w \<longleftrightarrow> \<not> eof"
  by (auto simp: receives_into_def intro!: exI [of _ 0])

lemma recv_frames:
  assumes "recv n (sk w) = (r, s')"
  shows "rx_only (sk w) s'" "io_frame w (w\<lparr>sk := s'\<rparr>)" "io_frame w (w\<lparr>sk := s', fs := f'\<rparr>)"
  using assms by (auto elim!: recv_cases simp: rx_only_def io_frame_def)

lemma recv_to_file_loop_effect:
  assumes "recv_to_file_loop cap fd remaining w = (r, w')" and "appending (fs w) fd p c" and "0 < cap"
  shows "receives_into fd p c remaining w (r = RecvDone) (r = RecvEof) w'"
  using assms
proof (induction cap fd remaining w arbitrary: c rule: recv_to_file_loop.induct)
  case (1 cap fd remaining w)
  let ?want = "min cap remaining"
  note unf = recv_to_file_loop.simps [of cap fd remaining w]
  show ?case
  proof (cases "remaining = 0")
    case True
    with "1.prems" show ?thesis by (auto simp: recv_to_file_loop.simps receives_into_done)
  next
    case ne: False
    obtain x s where rcv: "recv ?want (sk w) = (x, s)" by fastforce
    note fr = recv_frames [OF rcv]
    from rcv show ?thesis
    proof (cases rule: recv_cases)
      case (fail e es)
      show ?thesis
      proof (cases "e = EINTR")
        case True
        with fail ne rcv "1.prems"(1) have rec: "recv_to_file_loop cap fd remaining (w\<lparr>sk := s\<rparr>) = (r, w')"
          by (simp add: unf)
        from "1.IH"(1) [OF ne rcv [symmetric] fail(2) True rec _ "1.prems"(3)] "1.prems"(2)
        have "receives_into fd p c remaining (w\<lparr>sk := s\<rparr>) (r = RecvDone) (r = RecvEof) w'" by simp
        then show ?thesis
          using fail fr by (intro receives_into_step [of 0 w remaining "w\<lparr>sk := s\<rparr>"]) auto
      next
        case False
        with fail ne rcv "1.prems" have "r = RecvSockError" "w' = w\<lparr>sk := s\<rparr>" by (auto simp: unf)
        with fail fr "1.prems"(2) False show ?thesis
          by (auto intro!: receives_into_stop [of 0 w 0] simp: rx_calm_def rx_quiet_def)
      qed
    next
      case (data n es)
      let ?buf = "take n (rx_data (sk w))"
      show ?thesis
      proof (cases "?buf = []")
        case True
        with data ne "1.prems"(3) have "rx_data (sk w) = []" "n = 0" by auto
        with data ne rcv fr "1.prems" show ?thesis
          by (auto simp: unf intro!: receives_into_stop [of 0 w 0])
      next
        case False
        obtain m g where wr: "fs_write_all fd ?buf (fs w) = (m, g)" by fastforce
        then obtain k where k: "k \<le> length ?buf" "appending g fd p (c @ take k ?buf)"
          "only_touches p fd (fs w) g" "m = int (length ?buf) \<longrightarrow> k = length ?buf"
          "fs_quiet (fs w) \<longrightarrow> m = int (length ?buf)"
          using "1.prems"(2) by (rule fs_write_all_appending)
        show ?thesis
        proof (cases "m = int (length ?buf)")
          case bad: False
          with data ne rcv wr "1.prems" False have "r = RecvWriteError" "w' = w\<lparr>sk := s, fs := g\<rparr>"
            by (auto simp: unf)
          with data k fr bad show ?thesis
            by (auto intro!: receives_into_stop [of n w k] simp: rx_calm_def)
        next
          case ok: True
          with data ne rcv wr "1.prems"(1) False have
            rec: "recv_to_file_loop cap fd (remaining - n) (w\<lparr>sk := s, fs := g\<rparr>) = (r, w')"
            by (auto simp: unf)
          have "appending (fs (w\<lparr>sk := s, fs := g\<rparr>)) fd p (c @ ?buf)"
            using k ok data(3) by (simp add: min_absorb2)
          from "1.IH"(2) [OF ne rcv [symmetric] data(4) False wr [symmetric]] rec this "1.prems"(3)
            ok data(3)
          have "receives_into fd p (c @ ?buf) (remaining - n) (w\<lparr>sk := s, fs := g\<rparr>)
                  (r = RecvDone) (r = RecvEof) w'" by (auto simp: min_absorb2)
          with data k fr show ?thesis
            by (intro receives_into_step [of n w remaining "w\<lparr>sk := s, fs := g\<rparr>"]) auto
        qed
      qed
    qed
  qed
qed

lemma net_pipe_drain_effect:
  assumes "net_pipe_drain fd buf f = (ok, f')" and "appending f fd p c"
  shows "only_touches p fd f f' \<and>
    (\<exists>k \<le> length buf. appending f' fd p (c @ take k buf) \<and> (ok \<longrightarrow> k = length buf)) \<and>
    (fs_quiet f \<longrightarrow> ok)"
  using assms
proof (induction fd buf f arbitrary: c rule: net_pipe_drain.induct)
  case (1 fd buf f)
  note unf = net_pipe_drain.simps [of fd buf f]
  show ?case
  proof (cases "buf = []")
    case True
    with "1.prems" show ?thesis by (auto simp: net_pipe_drain.simps)
  next
    case ne: False
    obtain x g where sp: "splice_pipe_file fd buf f = (x, g)" by fastforce
    then have w: "fs_write fd buf f = (x, g)" by (simp add: splice_pipe_file_def fs_write_def)
    note wa = fs_write_appending [OF w "1.prems"(2)]
    have q: "fs_quiet f \<longrightarrow> fs_quiet g" using wa(1) by (auto simp: only_touches_def fs_quiet_def)
    show ?thesis
    proof (cases x)
      case (Inl e)
      then have app: "appending g fd p c" and nq: "\<not> fs_quiet f" using wa(2) wa(4) [OF _ ne] by auto
      show ?thesis
      proof (cases "e = EINTR")
        case True
        with "1.prems" sp Inl ne have "net_pipe_drain fd buf g = (ok, f')" by (simp add: unf)
        from "1.IH"(1) [OF ne sp [symmetric] Inl True this app] wa(1) nq show ?thesis
          by (blast intro: only_touches_trans)
      next
        case False
        with "1.prems" sp Inl ne have "\<not> ok" "f' = g" by (auto simp: unf)
        with wa(1) app nq show ?thesis by (auto intro!: exI [of _ 0])
      qed
    next
      case (Inr n)
      then have app: "appending g fd p (c @ take n buf)" using wa(3) by simp
      show ?thesis
      proof (cases "n = 0")
        case True
        with "1.prems" sp Inr ne have "\<not> ok" "f' = g" by (auto simp: unf)
        with wa(1) wa(4) [OF _ ne] app True Inr show ?thesis by (auto intro!: exI [of _ 0])
      next
        case False
        with "1.prems" sp Inr ne have "net_pipe_drain fd (drop n buf) g = (ok, f')" by (simp add: unf)
        from "1.IH"(2) [OF ne sp [symmetric] Inr False this app] obtain k where
          k: "k \<le> length (drop n buf)" "appending f' fd p ((c @ take n buf) @ take k (drop n buf))"
             "ok \<longrightarrow> k = length (drop n buf)" "only_touches p fd g f'" "fs_quiet g \<longrightarrow> ok"
          by blast
        moreover have "n \<le> length buf" using fs_write_sched(3) [OF w] Inr by simp
        moreover have "take n buf @ take k (drop n buf) = take (n + k) buf" by (simp add: take_add)
        ultimately show ?thesis using wa(1) q
          by (intro conjI exI [of _ "n + k"]) (auto intro: only_touches_trans)
      qed
    qed
  qed
qed

text \<open>Once bytes have been moved the loop never asks for the other path.\<close>

lemma net_recv_file_all_loop_moved:
  "net_recv_file_all_loop fd remaining moved use_pipe off w = (r, w') \<Longrightarrow> 0 < moved \<Longrightarrow>
     r \<noteq> NET_RECV_FILE_UNSUPPORTED"
proof (induction fd remaining moved use_pipe off w rule: net_recv_file_all_loop.induct)
  case (1 fd remaining moved use_pipe off w)
  show ?case
    using "1.prems" "1.IH"
    by (subst (asm) net_recv_file_all_loop.simps)
      (auto simp: Let_def split: if_splits prod.splits sum.splits bool.splits)
qed

lemma net_recv_file_all_loop_effect:
  assumes "net_recv_file_all_loop fd remaining moved use_pipe off w = (r, w')"
    and "appending (fs w) fd p c" and "\<not> splice_direct w" and "use_pipe \<or> moved = 0"
  shows "receives_into fd p c remaining w (r = NET_RECV_FILE_OK) (r = NET_RECV_FILE_EOF) w' \<and>
    (r = NET_RECV_FILE_UNSUPPORTED \<longrightarrow> rx_data (sk w') = rx_data (sk w) \<and> appending (fs w') fd p c)"
  using assms
proof (induction fd remaining moved use_pipe off w arbitrary: c rule: net_recv_file_all_loop.induct)
  case (1 fd remaining moved use_pipe off w)
  let ?want = "min CHUNK_SIZE remaining"
  note unf = net_recv_file_all_loop.simps [of fd remaining moved use_pipe off w]
  show ?case
  proof (cases "remaining = 0")
    case True
    with "1.prems" show ?thesis by (auto simp: net_recv_file_all_loop.simps receives_into_done)
  next
    case ne: False
    show ?thesis
    proof (cases use_pipe)
      case direct: False
      with "1.prems" have mv: "moved = 0" by simp
      have sp: "splice_sock_file fd off ?want w = (Inl EINVAL, off, w)"
        using "1.prems"(3) by (simp add: splice_sock_file_def)
      obtain y g where pipe: "posix_pipe (fs w) = (y, g)" by fastforce
      then have g: "only_touches p fd (fs w) g" "fds g = fds (fs w)" "nodes g = nodes (fs w)"
        by (auto simp: posix_pipe_def only_touches_def elim!: fs_popE
            split: prod.splits fs_event.splits)
      have app: "appending (fs (w\<lparr>fs := g\<rparr>)) fd p c"
        using g "1.prems"(2) by (simp add: appending_def)
      show ?thesis
      proof (cases y)
        case (Inl pe)
        then have nq: "\<not> fs_quiet (fs w)"
          using pipe fs_quiet_no_fail [of "fs w"]
          by (auto simp: posix_pipe_def split: prod.splits fs_event.splits)
        from Inl "1.prems" ne direct mv sp pipe have
          "w' = w\<lparr>fs := g\<rparr>" "r = NET_RECV_FILE_IO \<or> r = NET_RECV_FILE_UNSUPPORTED"
          by (auto simp: net_recv_file_all_loop.simps [of fd remaining 0 False off w] split: if_splits)
        with g app nq show ?thesis
          by (auto intro!: receives_into_stop [of 0 w 0] simp: rx_calm_def io_frame_def)
      next
        case (Inr u)
        with "1.prems"(1) ne direct mv sp pipe have
          rec: "net_recv_file_all_loop fd remaining moved True off (w\<lparr>fs := g\<rparr>) = (r, w')"
          by (simp add: net_recv_file_all_loop.simps [of fd remaining 0 False off w])
        have "\<not> splice_direct (w\<lparr>fs := g\<rparr>)" using "1.prems"(3) by simp
        from "1.IH"(1) [OF ne refl _ sp [symmetric] refl refl _ pipe [symmetric] Inr rec app this]
          direct mv
        have "receives_into fd p c remaining (w\<lparr>fs := g\<rparr>) (r = NET_RECV_FILE_OK)
                (r = NET_RECV_FILE_EOF) w' \<and>
              (r = NET_RECV_FILE_UNSUPPORTED \<longrightarrow>
                 rx_data (sk w') = rx_data (sk w) \<and> appending (fs w') fd p c)" by auto
        with g show ?thesis
          by (auto intro!: receives_into_step [of 0 w remaining "w\<lparr>fs := g\<rparr>"] simp: io_frame_def)
      qed
    next
      case piped: True
      note unf = net_recv_file_all_loop.simps [of fd remaining moved True off w]
      obtain x s where rcv: "splice_sock_pipe ?want (sk w) = (x, s)" by fastforce
      then have rcv': "recv ?want (sk w) = (x, s)" by (simp add: splice_sock_pipe_def)
      note fr = recv_frames [OF rcv']
      from rcv' show ?thesis
      proof (cases rule: recv_cases)
        case (fail e es)
        have nd: "\<not> splice_direct (w\<lparr>sk := s\<rparr>)" "appending (fs (w\<lparr>sk := s\<rparr>)) fd p c"
          using "1.prems"(2,3) by simp_all
        show ?thesis
        proof (cases "\<not> ((e = EINVAL \<or> e = ENOSYS \<or> e = ENOTSUP) \<and> moved = 0) \<and> e = EINTR")
          case True
          with fail ne rcv piped "1.prems"(1) have
            rec: "net_recv_file_all_loop fd remaining moved True off (w\<lparr>sk := s\<rparr>) = (r, w')"
            by (simp add: unf)
          from "1.IH"(4) [OF ne refl _ rcv [symmetric] fail(2) _ _ rec nd(2,1)] True piped
          have "receives_into fd p c remaining (w\<lparr>sk := s\<rparr>) (r = NET_RECV_FILE_OK)
                  (r = NET_RECV_FILE_EOF) w' \<and>
                (r = NET_RECV_FILE_UNSUPPORTED \<longrightarrow>
                   rx_data (sk w') = rx_data s \<and> appending (fs w') fd p c)" by auto
          with fail fr show ?thesis
            by (auto intro!: receives_into_step [of 0 w remaining "w\<lparr>sk := s\<rparr>"])
        next
          case False
          with fail ne rcv piped "1.prems"(1) have
            "w' = w\<lparr>sk := s\<rparr>" "r = NET_RECV_FILE_IO \<or> r = NET_RECV_FILE_UNSUPPORTED"
            by (auto simp: unf split: if_splits)
          moreover have "\<not> rx_calm w"
            using False fail(1) by (auto simp: rx_calm_def rx_quiet_def dest!: spec [of _ e])
          ultimately show ?thesis
            using fail fr nd by (auto intro!: receives_into_stop [of 0 w 0])
        qed
      next
        case (data n es)
        let ?buf = "take n (rx_data (sk w))"
        show ?thesis
        proof (cases "?buf = []")
          case True
          with data ne have "rx_data (sk w) = []" "n = 0" by (auto simp: CHUNK_SIZE_def)
          with data ne rcv fr piped "1.prems" show ?thesis
            by (auto simp: unf intro!: receives_into_stop [of 0 w 0])
        next
          case False
          obtain ok g where dr: "net_pipe_drain fd ?buf (fs w) = (ok, g)" by fastforce
          from net_pipe_drain_effect [OF dr "1.prems"(2)] obtain k where
            k: "k \<le> length ?buf" "appending g fd p (c @ take k ?buf)" "ok \<longrightarrow> k = length ?buf"
              "only_touches p fd (fs w) g" "fs_quiet (fs w) \<longrightarrow> ok" by blast
          show ?thesis
          proof (cases ok)
            case bad: False
            with data ne rcv dr piped "1.prems"(1) False have
              "r = NET_RECV_FILE_IO" "w' = w\<lparr>sk := s, fs := g\<rparr>" by (auto simp: unf)
            with data k fr bad show ?thesis
              by (auto intro!: receives_into_stop [of n w k] simp: rx_calm_def)
          next
            case True
            let ?w1 = "w\<lparr>sk := s, fs := g\<rparr>"
            from True data ne rcv dr piped "1.prems"(1) False have
              rec: "net_recv_file_all_loop fd (remaining - length ?buf) (moved + length ?buf) True off
                      ?w1 = (r, w')" by (auto simp: unf)
            have nd: "appending (fs ?w1) fd p (c @ ?buf)" "\<not> splice_direct ?w1"
              using k True "1.prems"(3) data(3) by (simp_all add: min_absorb2)
            from "1.IH"(5) [OF ne refl _ rcv [symmetric] data(4) False dr [symmetric] _ rec nd] True piped
            have "receives_into fd p (c @ ?buf) (remaining - length ?buf) ?w1 (r = NET_RECV_FILE_OK)
                    (r = NET_RECV_FILE_EOF) w'" by auto
            moreover have "r \<noteq> NET_RECV_FILE_UNSUPPORTED"
              using net_recv_file_all_loop_moved [OF rec] False by auto
            ultimately show ?thesis using data k fr
              by (auto intro!: receives_into_step [of n w remaining ?w1])
          qed
        qed
      qed
    qed
  qed
qed


lemma net_recv_file_buffered_effect:
  assumes "net_recv_file_buffered fd content_size w = (r, w')" and "appending (fs w) fd p c"
    and "0 \<le> sock_fd (sk w)" "0 \<le> fd"
  shows "receives_into fd p c (unat content_size) w (r = NET_RECV_FILE_OK) (r = NET_RECV_FILE_EOF) w'"
proof (cases "content_size = 0")
  case True
  with assms show ?thesis by (auto simp: net_recv_file_buffered_def is_socket_invalid_def receives_into_done)
next
  case False
  define big where "big \<longleftrightarrow> content_size > 1024 * 1024"
  define cap where "cap = (if big then 256 * 1024 else 8192 :: nat)"
  obtain ok w1 where m: "(if big then malloc w else (True, w)) = (ok, w1)" by fastforce
  obtain bs where w1: "w1 = w\<lparr>mem := bs\<rparr>" "set bs \<subseteq> set (mem w)" "False \<notin> set (mem w) \<Longrightarrow> ok"
    using m by (auto split: if_splits elim!: malloc_effect intro: that [of "mem w"])
  then have fr: "io_frame w w1" by (simp add: io_frame_def)
  show ?thesis
  proof (cases ok)
    case bad: False
    with assms False m have "r = NET_RECV_FILE_IO" "w' = w1"
      by (auto simp: net_recv_file_buffered_def is_socket_invalid_def Let_def big_def)
    with bad w1 fr assms(2) show ?thesis
      by (auto intro!: receives_into_stop [of 0 w 0] simp: rx_calm_def)
  next
    case True
    obtain e w2 where lp: "recv_to_file_loop cap fd (unat content_size) w1 = (e, w2)" by fastforce
    with assms False m True have "w' = w2" "(r = NET_RECV_FILE_OK) = (e = RecvDone)"
      "(r = NET_RECV_FILE_EOF) = (e = RecvEof)"
      by (auto simp: net_recv_file_buffered_def is_socket_invalid_def Let_def big_def cap_def
          split: recv_loop_end.splits)
    moreover have "0 < cap" by (simp add: cap_def)
    ultimately have "receives_into fd p c (unat content_size) w1 (r = NET_RECV_FILE_OK)
        (r = NET_RECV_FILE_EOF) w'"
      using recv_to_file_loop_effect [OF lp, of p c] assms(2) w1(1) by simp
    then show ?thesis
      using fr w1 by (auto intro!: receives_into_step [of 0 w _ w1])
  qed
qed

text \<open>
  The entry point of the transfer layer: whichever path the kernel supports, what lies in the file is a
  prefix of what came in, the whole of the requested size on success.
\<close>

lemma net_recv_file_best_effort_effect:
  assumes "net_recv_file_best_effort fd content_size w = (r, w')" and "appending (fs w) fd p c"
    and "\<not> splice_direct w" "0 \<le> sock_fd (sk w)" "0 \<le> fd"
  shows "receives_into fd p c (unat content_size) w (r = NET_RECV_FILE_OK) (r = NET_RECV_FILE_EOF) w'"
proof -
  obtain r1 w1 where a: "net_recv_file_all fd content_size w = (r1, w1)" by fastforce
  have e: "receives_into fd p c (unat content_size) w (r1 = NET_RECV_FILE_OK)
      (r1 = NET_RECV_FILE_EOF) w1 \<and>
    (r1 = NET_RECV_FILE_UNSUPPORTED \<longrightarrow> rx_data (sk w1) = rx_data (sk w) \<and> appending (fs w1) fd p c)"
  proof (cases "content_size = 0")
    case True
    with a assms(2) show ?thesis by (auto simp: net_recv_file_all_def receives_into_done)
  next
    case False
    with a assms(4,5) have "net_recv_file_all_loop fd (unat content_size) 0 False 0 w = (r1, w1)"
      by (simp add: net_recv_file_all_def is_socket_invalid_def)
    from net_recv_file_all_loop_effect [OF this assms(2,3)] show ?thesis by simp
  qed
  show ?thesis
  proof (cases "r1 = NET_RECV_FILE_UNSUPPORTED")
    case False
    with a e assms(1) show ?thesis by (simp add: net_recv_file_best_effort_def)
  next
    case True
    with e have fr: "rx_only (sk w) (sk w1)" "only_touches p fd (fs w) (fs w1)" "io_frame w w1"
      by (auto simp: receives_into_def)
    from True a assms(1) have "net_recv_file_buffered fd content_size w1 = (r, w')"
      by (simp add: net_recv_file_best_effort_def)
    then have "receives_into fd p c (unat content_size) w1 (r = NET_RECV_FILE_OK)
        (r = NET_RECV_FILE_EOF) w'"
      using e True fr(1) assms(4,5) by (intro net_recv_file_buffered_effect) (auto simp: rx_only_def)
    with fr e True show ?thesis
      by (auto intro!: receives_into_step [of 0 w _ w1])
  qed
qed

lemma receives_into_calm:
  assumes "receives_into fd p c n w ok eof w'" and "rx_calm w" and "n \<le> length (rx_data (sk w))"
  shows "ok" "appending (fs w') fd p (c @ take n (rx_data (sk w)))"
    "rx_data (sk w') = drop n (rx_data (sk w))"
  using assms by (auto simp: receives_into_def)

end
