(* ===== verification/Protocol.thy ===== *)
theory Protocol
  imports Net_Facts
begin

text \<open>
  \<^verbatim>\<open>src/protocol.c\<close> and \<^verbatim>\<open>src/protocol.h\<close>: the 13-byte request header, the 4-byte response
  frame, the file-name and file-size prefix of a payload, and the calls that move them over a
  connection. A call that fills its output only when it returns \<^verbatim>\<open>PROTOCOL_OK\<close> has the type
  \<open>protocol_result + _\<close>: \<open>Inl\<close> of an error code, or \<open>Inr\<close> of the output.
\<close>

section \<open>Constants and types\<close>

definition HF_PROTOCOL_MAX_FILE_NAME_LEN :: nat where
  "HF_PROTOCOL_MAX_FILE_NAME_LEN = 255"

definition HF_MAX_FILE_SIZE :: u64 where
  "HF_MAX_FILE_SIZE = 100 * 1024 * 1024 * 1024"

definition HF_PROTOCOL_MAX_TEXT_MESSAGE_SIZE :: nat where
  "HF_PROTOCOL_MAX_TEXT_MESSAGE_SIZE = 256 * 1024"

definition HF_PROTOCOL_HEADER_SIZE :: nat where
  "HF_PROTOCOL_HEADER_SIZE = 13"

definition HF_PROTOCOL_RES_FRAME_SIZE :: nat where
  "HF_PROTOCOL_RES_FRAME_SIZE = 4"

definition HF_PROTOCOL_MAGIC :: u16 where "HF_PROTOCOL_MAGIC = 0x0429"
definition HF_PROTOCOL_VERSION :: byte where "HF_PROTOCOL_VERSION = 0x03"
definition HF_MSG_TYPE_SEND_FILE :: byte where "HF_MSG_TYPE_SEND_FILE = 0x01"
definition HF_MSG_TYPE_TEXT_MESSAGE :: byte where "HF_MSG_TYPE_TEXT_MESSAGE = 0x02"
definition HF_MSG_TYPE_GET_FILE :: byte where "HF_MSG_TYPE_GET_FILE = 0x03"
definition HF_MSG_FLAG_NONE :: byte where "HF_MSG_FLAG_NONE = 0x00"

lemmas protocol_consts = HF_PROTOCOL_MAX_FILE_NAME_LEN_def HF_PROTOCOL_MAX_TEXT_MESSAGE_SIZE_def
  HF_PROTOCOL_HEADER_SIZE_def HF_PROTOCOL_RES_FRAME_SIZE_def HF_PROTOCOL_MAGIC_def
  HF_PROTOCOL_VERSION_def HF_MSG_TYPE_SEND_FILE_def HF_MSG_TYPE_TEXT_MESSAGE_def
  HF_MSG_TYPE_GET_FILE_def HF_MSG_FLAG_NONE_def

record protocol_header =
  magic :: u16
  version :: byte
  msg_type :: byte
  flags :: byte
  payload_size :: u64

datatype protocol_result =
  PROTOCOL_OK | PROTOCOL_ERR_HEADER_MAGIC | PROTOCOL_ERR_HEADER_VERSION
| PROTOCOL_ERR_HEADER_MSG_TYPE | PROTOCOL_ERR_HEADER_MSG_FLAG | PROTOCOL_ERR_INVALID_ARGUMENT
| PROTOCOL_ERR_FILE_NAME_LEN | PROTOCOL_ERR_INVALID_FILE_NAME
| PROTOCOL_ERR_PAYLOAD_SIZE_MISMATCH | PROTOCOL_ERR_IO | PROTOCOL_ERR_SHORT_WRITE
| PROTOCOL_ERR_ALLOC | PROTOCOL_ERR_EOF | PROTOCOL_ERR_MSG_TOO_LARGE

text \<open>The values the enumeration has in C, which go over the wire as \<^verbatim>\<open>uint16_t\<close>.\<close>

fun result_code :: "protocol_result \<Rightarrow> u16" where
  "result_code PROTOCOL_OK = 0"
| "result_code PROTOCOL_ERR_HEADER_MAGIC = 1"
| "result_code PROTOCOL_ERR_HEADER_VERSION = 2"
| "result_code PROTOCOL_ERR_HEADER_MSG_TYPE = 3"
| "result_code PROTOCOL_ERR_HEADER_MSG_FLAG = 4"
| "result_code PROTOCOL_ERR_INVALID_ARGUMENT = 5"
| "result_code PROTOCOL_ERR_FILE_NAME_LEN = 6"
| "result_code PROTOCOL_ERR_INVALID_FILE_NAME = 7"
| "result_code PROTOCOL_ERR_PAYLOAD_SIZE_MISMATCH = 8"
| "result_code PROTOCOL_ERR_IO = 9"
| "result_code PROTOCOL_ERR_SHORT_WRITE = 10"
| "result_code PROTOCOL_ERR_ALLOC = 11"
| "result_code PROTOCOL_ERR_EOF = 12"
| "result_code PROTOCOL_ERR_MSG_TOO_LARGE = 13"

definition PROTO_PHASE_READY :: byte where "PROTO_PHASE_READY = 0"
definition PROTO_PHASE_FINAL :: byte where "PROTO_PHASE_FINAL = 1"
definition PROTO_STATUS_OK :: byte where "PROTO_STATUS_OK = 0"
definition PROTO_STATUS_REJECTED :: byte where "PROTO_STATUS_REJECTED = 1"
definition PROTO_STATUS_FAILED :: byte where "PROTO_STATUS_FAILED = 2"

lemmas frame_consts = PROTO_PHASE_READY_def PROTO_PHASE_FINAL_def PROTO_STATUS_OK_def
  PROTO_STATUS_REJECTED_def PROTO_STATUS_FAILED_def

record res_frame =
  phase :: byte
  status :: byte
  error_code :: u16

section \<open>Response frames\<close>

definition proto_res_frame_phase_valid :: "byte \<Rightarrow> bool" where
  "proto_res_frame_phase_valid ph = (ph = PROTO_PHASE_READY \<or> ph = PROTO_PHASE_FINAL)"

definition proto_res_frame_status_valid :: "byte \<Rightarrow> bool" where
  "proto_res_frame_status_valid st =
     (st = PROTO_STATUS_OK \<or> st = PROTO_STATUS_REJECTED \<or> st = PROTO_STATUS_FAILED)"

definition proto_res_frame_error_code_valid :: "u16 \<Rightarrow> bool" where
  "proto_res_frame_error_code_valid c = (c \<le> result_code PROTOCOL_ERR_MSG_TOO_LARGE)"

definition proto_res_frame_valid :: "res_frame \<Rightarrow> bool" where
  "proto_res_frame_valid frame =
     (if \<not> proto_res_frame_phase_valid (phase frame) \<or> \<not> proto_res_frame_status_valid (status frame) \<or>
         \<not> proto_res_frame_error_code_valid (error_code frame) then False
      else if (if status frame = PROTO_STATUS_OK then error_code frame \<noteq> result_code PROTOCOL_OK
               else error_code frame = result_code PROTOCOL_OK) then False
      else if phase frame = PROTO_PHASE_READY
           then status frame = PROTO_STATUS_OK \<or> status frame = PROTO_STATUS_REJECTED
      else status frame = PROTO_STATUS_OK \<or> status frame = PROTO_STATUS_FAILED)"

definition encode_res_frame :: "res_frame \<Rightarrow> protocol_result + byte list" where
  "encode_res_frame frame =
     (if \<not> proto_res_frame_valid frame then Inl PROTOCOL_ERR_INVALID_ARGUMENT
      else Inr ([phase frame, status frame] @ htons_bytes (error_code frame)))"

definition decode_res_frame :: "byte list \<Rightarrow> protocol_result + res_frame" where
  "decode_res_frame b =
     (let frame = \<lparr>phase = b ! 0, status = b ! 1, error_code = ntohs_bytes (drop 2 b)\<rparr>
      in if \<not> proto_res_frame_valid frame then Inl PROTOCOL_ERR_INVALID_ARGUMENT else Inr frame)"

definition send_res_frame :: "res_frame \<Rightarrow> sock \<Rightarrow> protocol_result \<times> sock" where
  "send_res_frame frame s =
     (if is_socket_invalid s then (PROTOCOL_ERR_INVALID_ARGUMENT, s)
      else case encode_res_frame frame of
        Inl e \<Rightarrow> (e, s)
      | Inr buf \<Rightarrow>
         (case send_all buf s of
            (n, s') \<Rightarrow>
              (if n < int HF_PROTOCOL_RES_FRAME_SIZE
               then (if n \<ge> 0 then PROTOCOL_ERR_SHORT_WRITE else PROTOCOL_ERR_IO)
               else PROTOCOL_OK, s')))"

definition recv_res_frame :: "sock \<Rightarrow> (protocol_result + res_frame) \<times> sock" where
  "recv_res_frame s =
     (if is_socket_invalid s then (Inl PROTOCOL_ERR_INVALID_ARGUMENT, s)
      else case recv_all HF_PROTOCOL_RES_FRAME_SIZE s of
        (n, buf, s') \<Rightarrow>
          (if n < int HF_PROTOCOL_RES_FRAME_SIZE
           then (if n < 0 then Inl PROTOCOL_ERR_IO else Inl PROTOCOL_ERR_EOF)
           else decode_res_frame buf, s'))"

section \<open>The prefix of a file payload\<close>

definition proto_get_file_name_len :: "string \<Rightarrow> u16 option" where
  "proto_get_file_name_len file_name =
     (if length file_name = 0 \<or> length file_name > HF_PROTOCOL_MAX_FILE_NAME_LEN then None
      else Some (of_nat (length file_name)))"

definition proto_file_name_only_size :: "u16 \<Rightarrow> u64" where
  "proto_file_name_only_size file_name_len = 2 + ucast file_name_len"

definition proto_file_transfer_prefix_size :: "u16 \<Rightarrow> u64" where
  "proto_file_transfer_prefix_size file_name_len = proto_file_name_only_size file_name_len + 8"

definition encode_file_name_only :: "string \<Rightarrow> protocol_result + byte list" where
  "encode_file_name_only file_name =
     (case proto_get_file_name_len file_name of
        None \<Rightarrow> Inl PROTOCOL_ERR_FILE_NAME_LEN
      | Some len \<Rightarrow> Inr (htons_bytes len @ take (unat len) (bytes_of_string file_name)))"

definition encode_file_prefix :: "string \<Rightarrow> u64 \<Rightarrow> protocol_result + byte list" where
  "encode_file_prefix file_name content_size =
     (case proto_get_file_name_len file_name of
        None \<Rightarrow> Inl PROTOCOL_ERR_FILE_NAME_LEN
      | Some len \<Rightarrow> Inr (htons_bytes len @ take (unat len) (bytes_of_string file_name) @
                         encode_u64_be content_size))"

definition proto_send_payload :: "byte list \<Rightarrow> sock \<Rightarrow> protocol_result \<times> sock" where
  "proto_send_payload data s =
     (if is_socket_invalid s then (PROTOCOL_ERR_INVALID_ARGUMENT, s)
      else case send_all data s of
        (n, s') \<Rightarrow>
          (if n < int (length data)
           then (if n \<ge> 0 then PROTOCOL_ERR_SHORT_WRITE else PROTOCOL_ERR_IO)
           else PROTOCOL_OK, s'))"

text \<open>The name comes back as a C string: a zero byte inside it ends it early.\<close>

definition proto_recv_file_name_only :: "world \<Rightarrow> (protocol_result + string) \<times> world" where
  "proto_recv_file_name_only w =
     (case recv_all 2 (sk w) of
        (n, net_len, s1) \<Rightarrow>
          let w1 = w\<lparr>sk := s1\<rparr> in
          if n \<noteq> 2 then (Inl (if n < 0 then PROTOCOL_ERR_IO else PROTOCOL_ERR_EOF), w1)
          else
            let file_name_len = unat (ntohs_bytes net_len) in
            if file_name_len = 0 \<or> file_name_len > HF_PROTOCOL_MAX_FILE_NAME_LEN
            then (Inl PROTOCOL_ERR_FILE_NAME_LEN, w1)
            else case malloc w1 of
              (False, w2) \<Rightarrow> (Inl PROTOCOL_ERR_ALLOC, w2)
            | (True, w2) \<Rightarrow>
               (case recv_all file_name_len (sk w2) of
                  (n, buf, s3) \<Rightarrow>
                    let w3 = w2\<lparr>sk := s3\<rparr> in
                    if n \<noteq> int file_name_len
                    then (Inl (if n < 0 then PROTOCOL_ERR_IO else PROTOCOL_ERR_EOF), w3)
                    else (Inr (cstr (string_of_bytes buf)), w3)))"

definition proto_recv_file_transfer_prefix ::
  "world \<Rightarrow> (protocol_result + string \<times> u64) \<times> world" where
  "proto_recv_file_transfer_prefix w =
     (case proto_recv_file_name_only w of
        (Inl e, w1) \<Rightarrow> (Inl e, w1)
      | (Inr file_name, w1) \<Rightarrow>
         (case recv_all 8 (sk w1) of
            (n, szbuf, s2) \<Rightarrow>
              let w2 = w1\<lparr>sk := s2\<rparr> in
              if n \<noteq> 8 then (Inl (if n < 0 then PROTOCOL_ERR_IO else PROTOCOL_ERR_EOF), w2)
              else (Inr (file_name, decode_u64_be szbuf), w2)))"

section \<open>The request header\<close>

definition init_header :: protocol_header where
  "init_header = \<lparr>magic = HF_PROTOCOL_MAGIC, version = HF_PROTOCOL_VERSION, msg_type = 0,
     flags = HF_MSG_FLAG_NONE, payload_size = 0\<rparr>"

definition encode_header :: "protocol_header \<Rightarrow> byte list" where
  "encode_header header =
     htons_bytes (magic header) @ [version header, msg_type header, flags header] @
     encode_u64_be (payload_size header)"

definition decode_header :: "byte list \<Rightarrow> protocol_result + protocol_header" where
  "decode_header b =
     (let m = ntohs_bytes b in
      if m \<noteq> HF_PROTOCOL_MAGIC then Inl PROTOCOL_ERR_HEADER_MAGIC
      else
        let v = b ! 2 in
        if v \<noteq> HF_PROTOCOL_VERSION then Inl PROTOCOL_ERR_HEADER_VERSION
        else
          let t = b ! 3 in
          if t \<noteq> HF_MSG_TYPE_TEXT_MESSAGE \<and> t \<noteq> HF_MSG_TYPE_SEND_FILE \<and> t \<noteq> HF_MSG_TYPE_GET_FILE
          then Inl PROTOCOL_ERR_HEADER_MSG_TYPE
          else
            let fl = b ! 4 in
            if fl \<noteq> HF_MSG_FLAG_NONE then Inl PROTOCOL_ERR_HEADER_MSG_FLAG
            else Inr \<lparr>magic = m, version = v, msg_type = t, flags = fl,
                      payload_size = decode_u64_be (drop 5 b)\<rparr>)"

definition recv_header :: "sock \<Rightarrow> (protocol_result + byte list) \<times> sock" where
  "recv_header s =
     (if is_socket_invalid s then (Inl PROTOCOL_ERR_INVALID_ARGUMENT, s)
      else case recv_all HF_PROTOCOL_HEADER_SIZE s of
        (n, out, s') \<Rightarrow>
          (if n < int HF_PROTOCOL_HEADER_SIZE
           then (if n < 0 then Inl PROTOCOL_ERR_IO else Inl PROTOCOL_ERR_EOF)
           else Inr out, s'))"


section \<open>Fixed-size records on the wire\<close>

text \<open>
  What the header and the response frame have in common: every valid value has one encoding, of
  \<open>len\<close> bytes, and a block of \<open>len\<close> bytes decodes only when it is the encoding of a valid value.
\<close>

locale wire_format =
  fixes enc :: "'a \<Rightarrow> byte list" and dec :: "byte list \<Rightarrow> protocol_result + 'a"
    and len :: nat and valid :: "'a \<Rightarrow> bool"
  assumes enc_length: "length (enc x) = len"
    and dec_enc: "valid x \<Longrightarrow> dec (enc x) = Inr x"
    and dec_sound: "length bs = len \<Longrightarrow> dec bs = Inr x \<Longrightarrow> valid x \<and> bs = enc x"
begin

lemma enc_inj: "valid x \<Longrightarrow> valid y \<Longrightarrow> enc x = enc y \<Longrightarrow> x = y"
  by (metis dec_enc sum.inject(2))

lemma dec_iff: "length bs = len \<Longrightarrow> dec bs = Inr x \<longleftrightarrow> valid x \<and> bs = enc x"
  using dec_enc dec_sound by blast

text \<open>A code is no beginning of another one, so a stream that starts with one determines it.\<close>

lemma enc_prefix:
  assumes "valid x" "valid y" "prefix (enc x @ xs) (enc y @ ys)"
  shows "x = y" and "prefix xs ys"
proof -
  from assms(3) obtain zs where "enc y @ ys = enc x @ (xs @ zs)" by (auto simp: prefix_def)
  then have "enc y = enc x \<and> ys = xs @ zs" using enc_length by (subst (asm) append_eq_append_conv) auto
  with enc_inj [OF assms(1,2)] show "x = y" "prefix xs ys" by simp_all
qed

lemma enc_part:
  assumes "valid x" "valid y" "take k (enc x) = enc y @ zs"
  shows "x = y"
proof -
  have "prefix (enc y @ []) (enc x @ [])" using take_is_prefix [of k "enc x"] assms(3) by (auto simp: prefix_def)
  from enc_prefix(1) [OF assms(2,1) this] show ?thesis ..
qed

text \<open>A value at the head of a stream is read whole, whatever the pieces it arrives in.\<close>

lemma recv_enc:
  assumes "rx_quiet s" and "rx_data s = enc x @ rest"
  obtains es where "recv_all len s = (int len, enc x, s\<lparr>rx_data := rest, rx_sched := es\<rparr>)"
    "set es \<subseteq> set (rx_sched s)"
proof -
  from assms(1) obtain es where "recv_all len s = (int (min len (length (rx_data s))),
      take len (rx_data s), s\<lparr>rx_data := drop len (rx_data s), rx_sched := es\<rparr>)"
    "set es \<subseteq> set (rx_sched s)" by (rule recv_all_quiet)
  then show thesis using that [of es] by (simp add: assms(2) enc_length)
qed

text \<open>A block that was read whole and decoded was the encoding of what it decoded to.\<close>

lemma recv_dec:
  assumes "recv_all len s = (n, buf, s')" and "\<not> n < int len" and "dec buf = Inr x"
  shows "valid x \<and> rx_data s = enc x @ rx_data s'"
proof -
  from assms(1) obtain k es where k: "k \<le> length (rx_data s)" "k \<le> len" "buf = take k (rx_data s)"
    "s' = s\<lparr>rx_data := drop k (rx_data s), rx_sched := es\<rparr>"
    "n = -1 \<and> \<not> rx_quiet s \<or> n = int k \<and> (k < len \<longrightarrow> k = length (rx_data s))"
    by (rule recv_allE)
  with assms(2) have "k = len" by auto
  with k have "length buf = len" by simp
  with assms(3) have "valid x" "buf = enc x" using dec_sound by auto
  moreover have "rx_data s = buf @ rx_data s'" using k by simp
  ultimately show ?thesis by simp
qed

end

lemma byte_bit_high: "8 \<le> n \<Longrightarrow> \<not> bit (b :: byte) n"
  by (auto dest: bit_imp_le_length)

lemma length2_cases: "length b = 2 \<Longrightarrow> \<exists>x y. b = [x, y]"
  by (auto simp: numeral_eq_Suc length_Suc_conv)

lemma htons_ntohs_bytes: "length b = 2 \<Longrightarrow> htons_bytes (ntohs_bytes b) = b"
  by (drule length2_cases)
    (auto simp: htons_bytes_def ntohs_bytes_def bit_simps byte_bit_high
      intro!: bit_word_eqI)

lemma length8_cases: "length b = 8 \<Longrightarrow> \<exists>x0 x1 x2 x3 x4 x5 x6 x7. b = [x0,x1,x2,x3,x4,x5,x6,x7]"
  by (auto simp: numeral_eq_Suc length_Suc_conv)

lemma encode_decode_u64_be: "length b = 8 \<Longrightarrow> encode_u64_be (decode_u64_be b) = b"
  by (drule length8_cases)
    (auto simp: encode_u64_be_def decode_u64_be_def ucast_and_0xFF bit_simps byte_bit_high
      intro!: bit_word_eqI)


text \<open>The two formats of the protocol.\<close>

definition header_valid :: "protocol_header \<Rightarrow> bool" where
  "header_valid h \<longleftrightarrow> magic h = HF_PROTOCOL_MAGIC \<and> version h = HF_PROTOCOL_VERSION \<and>
     msg_type h \<in> {HF_MSG_TYPE_SEND_FILE, HF_MSG_TYPE_TEXT_MESSAGE, HF_MSG_TYPE_GET_FILE} \<and>
     flags h = HF_MSG_FLAG_NONE"

definition res_frame_bytes :: "res_frame \<Rightarrow> byte list" where
  "res_frame_bytes frame = [phase frame, status frame] @ htons_bytes (error_code frame)"

lemma ntohs_bytes_Cons: "ntohs_bytes (x # y # b) = push_bit 8 (ucast x) OR ucast y"
  by (simp add: ntohs_bytes_def)

lemma htons_bytes_Cons: "htons_bytes v = [ucast (drop_bit 8 v), ucast v]"
  by (simp add: htons_bytes_def)

interpretation hdr: wire_format encode_header decode_header HF_PROTOCOL_HEADER_SIZE header_valid
proof
  show "length (encode_header x) = HF_PROTOCOL_HEADER_SIZE" for x
    by (simp add: encode_header_def HF_PROTOCOL_HEADER_SIZE_def)
  show "decode_header (encode_header x) = Inr x" if "header_valid x" for x
    using that ntohs_htons_append [of "magic x" "[]"] decode_encode_u64_be_append [of "payload_size x" "[]"]
    by (auto simp: decode_header_def encode_header_def header_valid_def htons_bytes_Cons
        ntohs_bytes_Cons Let_def)
  show "header_valid x \<and> bs = encode_header x"
    if len: "length bs = HF_PROTOCOL_HEADER_SIZE" and dec: "decode_header bs = Inr x" for bs x
  proof -
    obtain b0 b1 b2 b3 b4 r where bs: "bs = b0 # b1 # b2 # b3 # b4 # r" and r: "length r = 8"
      using len by (auto simp: HF_PROTOCOL_HEADER_SIZE_def numeral_eq_Suc length_Suc_conv)
    show ?thesis
      using dec r htons_ntohs_bytes [of "[b0, b1]"]
      by (auto simp: bs decode_header_def header_valid_def encode_header_def encode_decode_u64_be
          ntohs_bytes_Cons Let_def split: if_splits)
  qed
qed

interpretation frm: wire_format res_frame_bytes decode_res_frame HF_PROTOCOL_RES_FRAME_SIZE
  proto_res_frame_valid
proof
  show "length (res_frame_bytes x) = HF_PROTOCOL_RES_FRAME_SIZE" for x
    by (simp add: res_frame_bytes_def HF_PROTOCOL_RES_FRAME_SIZE_def)
  show "decode_res_frame (res_frame_bytes x) = Inr x" if "proto_res_frame_valid x" for x
    using that ntohs_htons_append [of "error_code x" "[]"]
    by (cases x) (simp add: decode_res_frame_def res_frame_bytes_def Let_def)
  show "proto_res_frame_valid x \<and> bs = res_frame_bytes x"
    if len: "length bs = HF_PROTOCOL_RES_FRAME_SIZE" and dec: "decode_res_frame bs = Inr x" for bs x
  proof -
    obtain b0 b1 b2 b3 where bs: "bs = [b0, b1, b2, b3]"
      using len by (auto simp: HF_PROTOCOL_RES_FRAME_SIZE_def numeral_eq_Suc length_Suc_conv)
    show ?thesis
      using dec htons_ntohs_bytes [of "[b2, b3]"]
      by (auto simp: bs decode_res_frame_def res_frame_bytes_def Let_def split: if_splits)
  qed
qed

section \<open>What the calls do\<close>

lemma encode_res_frame_bytes:
  "proto_res_frame_valid frame \<Longrightarrow> encode_res_frame frame = Inr (res_frame_bytes frame)"
  by (simp add: encode_res_frame_def res_frame_bytes_def)

lemma recv_header_quiet:
  assumes "rx_quiet s" "0 \<le> sock_fd s" "rx_data s = encode_header h @ rest"
  obtains es where "recv_header s = (Inr (encode_header h), s\<lparr>rx_data := rest, rx_sched := es\<rparr>)"
    "set es \<subseteq> set (rx_sched s)"
proof -
  from assms(1,3) obtain es where "recv_all HF_PROTOCOL_HEADER_SIZE s =
      (int HF_PROTOCOL_HEADER_SIZE, encode_header h, s\<lparr>rx_data := rest, rx_sched := es\<rparr>)"
    "set es \<subseteq> set (rx_sched s)" by (rule hdr.recv_enc)
  with assms(2) that show thesis by (simp add: recv_header_def is_socket_invalid_def)
qed

lemma recv_res_frame_quiet:
  assumes "rx_quiet s" "0 \<le> sock_fd s" "proto_res_frame_valid f" "rx_data s = res_frame_bytes f @ rest"
  obtains es where "recv_res_frame s = (Inr f, s\<lparr>rx_data := rest, rx_sched := es\<rparr>)"
    "set es \<subseteq> set (rx_sched s)"
proof -
  from assms(1,4) obtain es where "recv_all HF_PROTOCOL_RES_FRAME_SIZE s =
      (int HF_PROTOCOL_RES_FRAME_SIZE, res_frame_bytes f, s\<lparr>rx_data := rest, rx_sched := es\<rparr>)"
    "set es \<subseteq> set (rx_sched s)" by (rule frm.recv_enc)
  with assms(2,3) that show thesis
    by (simp add: recv_res_frame_def is_socket_invalid_def frm.dec_enc)
qed

lemma recv_res_frame_sound:
  assumes "recv_res_frame s = (Inr f, s')"
  shows "proto_res_frame_valid f \<and> rx_data s = res_frame_bytes f @ rx_data s'"
proof -
  obtain n buf s1 where r: "recv_all HF_PROTOCOL_RES_FRAME_SIZE s = (n, buf, s1)"
    by (metis prod_cases3)
  with assms have "\<not> n < int HF_PROTOCOL_RES_FRAME_SIZE" "decode_res_frame buf = Inr f" "s' = s1"
    by (auto simp: recv_res_frame_def split: if_splits)
  with frm.recv_dec [OF r] show ?thesis by simp
qed

text \<open>Sending: on success the frame is on the wire, and without failing calls it succeeds.\<close>

lemma send_res_frame_effect:
  assumes "send_res_frame f s = (r, s')" and "proto_res_frame_valid f" and "0 \<le> sock_fd s"
  shows "tx_only s s'" and "r = PROTOCOL_OK \<Longrightarrow> tx_data s' = tx_data s @ res_frame_bytes f"
    and "tx_quiet s \<Longrightarrow> r = PROTOCOL_OK"
    and "\<exists>k. tx_data s' = tx_data s @ take k (res_frame_bytes f)"
proof -
  obtain n s1 where sa: "send_all (res_frame_bytes f) s = (n, s1)" by fastforce
  with assms have r: "s' = s1" "r = (if n < 4 then (if n \<ge> 0 then PROTOCOL_ERR_SHORT_WRITE
      else PROTOCOL_ERR_IO) else PROTOCOL_OK)"
    by (auto simp: send_res_frame_def encode_res_frame_bytes is_socket_invalid_def
        HF_PROTOCOL_RES_FRAME_SIZE_def)
  have len: "length (res_frame_bytes f) = 4" by (simp add: res_frame_bytes_def)
  from sa obtain k es where "k \<le> length (res_frame_bytes f)"
    "s1 = s\<lparr>tx_data := tx_data s @ take k (res_frame_bytes f), tx_sched := es\<rparr>"
    "set es \<subseteq> set (tx_sched s)" "n = -1 \<or> n = int k"
    "tx_quiet s \<longrightarrow> n = int (length (res_frame_bytes f))" by (rule send_allE)
  with r len show "tx_only s s'" "r = PROTOCOL_OK \<Longrightarrow> tx_data s' = tx_data s @ res_frame_bytes f"
    "tx_quiet s \<Longrightarrow> r = PROTOCOL_OK"
    "\<exists>k. tx_data s' = tx_data s @ take k (res_frame_bytes f)"
    by (auto simp: tx_only_def split: if_splits intro: exI [of _ k])
qed

lemma proto_send_payload_effect:
  assumes "proto_send_payload data s = (r, s')" and "0 \<le> sock_fd s"
  shows "tx_only s s'" and "r = PROTOCOL_OK \<Longrightarrow> tx_data s' = tx_data s @ data"
    and "tx_quiet s \<Longrightarrow> r = PROTOCOL_OK"
    and "\<exists>k. tx_data s' = tx_data s @ take k data"
proof -
  obtain n s1 where sa: "send_all data s = (n, s1)" by fastforce
  with assms have r: "s' = s1" "r = (if n < int (length data) then (if n \<ge> 0 then PROTOCOL_ERR_SHORT_WRITE
      else PROTOCOL_ERR_IO) else PROTOCOL_OK)"
    by (auto simp: proto_send_payload_def is_socket_invalid_def)
  from sa obtain k es where "k \<le> length data"
    "s1 = s\<lparr>tx_data := tx_data s @ take k data, tx_sched := es\<rparr>"
    "set es \<subseteq> set (tx_sched s)" "n = -1 \<or> n = int k"
    "tx_quiet s \<longrightarrow> n = int (length data)" by (rule send_allE)
  with r show "tx_only s s'" "r = PROTOCOL_OK \<Longrightarrow> tx_data s' = tx_data s @ data"
    "tx_quiet s \<Longrightarrow> r = PROTOCOL_OK"
    "\<exists>k. tx_data s' = tx_data s @ take k data"
    by (auto simp: tx_only_def split: if_splits intro: exI [of _ k])
qed


section \<open>The prefix of a file payload on the wire\<close>

text \<open>Receiving leaves the file system and all but the receive side of the connection alone.\<close>

definition rx_step :: "world \<Rightarrow> world \<Rightarrow> bool" where
  "rx_step w w' \<longleftrightarrow> fs w' = fs w \<and> rx_only (sk w) (sk w') \<and> io_frame w w'"

lemma rx_step_refl [simp, intro]: "rx_step w w"
  by (simp add: rx_step_def)

lemma rx_step_trans [trans]: "rx_step w w' \<Longrightarrow> rx_step w' w'' \<Longrightarrow> rx_step w w''"
  by (auto simp: rx_step_def intro: rx_only_trans io_frame_trans)

lemma rx_step_calm: "rx_step w w' \<Longrightarrow> rx_calm w \<Longrightarrow> rx_calm w'"
  by (auto simp: rx_step_def rx_calm_def rx_only_def io_frame_def rx_quiet_def)

lemma recv_all_step:
  assumes "recv_all n (sk w) = (rc, out, s')"
  shows "rx_step w (w\<lparr>sk := s'\<rparr>)"
    and "rc = int n \<Longrightarrow> length out = n \<and> rx_data (sk w) = out @ rx_data s'"
    and "rx_calm w \<Longrightarrow> n \<le> length (rx_data (sk w)) \<Longrightarrow> rc = int n"
  using assms
  by (auto elim!: recv_allE simp: rx_step_def rx_only_def io_frame_def rx_calm_def)

lemma malloc_step:
  assumes "malloc w = (b, w')"
  shows "rx_step w w'" and "sk w' = sk w" and "rx_calm w \<Longrightarrow> b"
  using assms by (auto elim!: malloc_effect simp: rx_step_def rx_only_def io_frame_def rx_calm_def)

text \<open>
  A name that is accepted was on the wire behind its length, between 1 and 255 bytes; the
  conditions under which the call succeeds.
\<close>

lemma proto_recv_file_name_only_effect:
  assumes "proto_recv_file_name_only w = (r, w')"
  shows "rx_step w w'"
    and "r = Inr name \<Longrightarrow> \<exists>raw. 0 < length raw \<and> length raw \<le> 255 \<and>
           name = cstr (string_of_bytes raw) \<and>
           rx_data (sk w) = htons_bytes (of_nat (length raw)) @ raw @ rx_data (sk w')"
    and "rx_calm w \<Longrightarrow> rx_data (sk w) = htons_bytes (of_nat (length raw)) @ raw @ rest \<Longrightarrow>
           0 < length raw \<Longrightarrow> length raw \<le> 255 \<Longrightarrow>
           r = Inr (cstr (string_of_bytes raw)) \<and> rx_data (sk w') = rest"
proof -
  obtain n nl s1 where r1: "recv_all 2 (sk w) = (n, nl, s1)" by (metis prod_cases3)
  obtain ok w2 where m: "malloc (w\<lparr>sk := s1\<rparr>) = (ok, w2)" by fastforce
  let ?l = "unat (ntohs_bytes nl)"
  obtain n' buf s3 where r3: "recv_all ?l (sk w2) = (n', buf, s3)" by (metis prod_cases3)
  note e1 = recv_all_step [OF r1] and e2 = malloc_step [OF m] and e3 = recv_all_step [OF r3]
  have split: "r = (if n \<noteq> 2 then Inl (if n < 0 then PROTOCOL_ERR_IO else PROTOCOL_ERR_EOF)
      else if ?l = 0 \<or> ?l > 255 then Inl PROTOCOL_ERR_FILE_NAME_LEN
      else if \<not> ok then Inl PROTOCOL_ERR_ALLOC
      else if n' \<noteq> int ?l then Inl (if n' < 0 then PROTOCOL_ERR_IO else PROTOCOL_ERR_EOF)
      else Inr (cstr (string_of_bytes buf)))"
    "w' = (if n \<noteq> 2 \<or> ?l = 0 \<or> ?l > 255 then w\<lparr>sk := s1\<rparr>
      else if \<not> ok then w2 else w2\<lparr>sk := s3\<rparr>)"
    using assms by (auto simp: proto_recv_file_name_only_def r1 m r3 Let_def
        HF_PROTOCOL_MAX_FILE_NAME_LEN_def split: bool.splits if_splits cong: if_cong)
  have "rx_step w w2" by (rule rx_step_trans [OF e1(1) e2(1)])
  moreover from this have "rx_step w (w2\<lparr>sk := s3\<rparr>)" by (rule rx_step_trans [OF _ e3(1)])
  ultimately show "rx_step w w'" by (simp add: split(2) e1(1))
  show "\<exists>raw. 0 < length raw \<and> length raw \<le> 255 \<and> name = cstr (string_of_bytes raw) \<and>
      rx_data (sk w) = htons_bytes (of_nat (length raw)) @ raw @ rx_data (sk w')" if "r = Inr name"
  proof -
    from that split have c: "n = 2" "0 < ?l" "?l \<le> 255" ok "n' = int ?l" "w' = w2\<lparr>sk := s3\<rparr>"
      "name = cstr (string_of_bytes buf)" by (auto split: if_splits)
    have "length nl = 2" "rx_data (sk w) = nl @ rx_data s1" using e1(2) c(1) by auto
    moreover have "length buf = ?l" "rx_data s1 = buf @ rx_data s3" using e2(2) e3(2) c(5) by auto
    ultimately show ?thesis using c htons_ntohs_bytes [of nl] by (intro exI [of _ buf]) auto
  qed
  assume calm: "rx_calm w" and wire: "rx_data (sk w) = htons_bytes (of_nat (length raw)) @ raw @ rest"
    and l: "0 < length raw" "length raw \<le> 255"
  have n: "n = 2" using e1(3) calm wire by simp
  then have nl: "nl = htons_bytes (of_nat (length raw))" "rx_data s1 = raw @ rest"
    using e1(2) wire by (auto simp: append_eq_append_conv)
  have len: "?l = length raw"
    using ntohs_htons_append [of "of_nat (length raw)" "[]"] l nl(1) by (simp add: unat_of_nat)
  have calm1: "rx_calm (w\<lparr>sk := s1\<rparr>)" by (rule rx_step_calm [OF e1(1) calm])
  have calm2: "rx_calm w2" by (rule rx_step_calm [OF e2(1) calm1])
  have ok by (rule e2(3) [OF calm1])
  moreover have n': "n' = int ?l" using e3(3) calm2 nl(2) e2(2) len by simp
  moreover have "length buf = length raw \<and> raw @ rest = buf @ rx_data s3"
    using e3(2) [OF n'] nl(2) e2(2) len by simp
  then have "buf = raw" "rx_data s3 = rest" by (metis append_eq_append_conv)+
  ultimately show "r = Inr (cstr (string_of_bytes raw)) \<and> rx_data (sk w') = rest"
    using split n len l by simp
qed

lemma proto_recv_file_transfer_prefix_effect:
  assumes "proto_recv_file_transfer_prefix w = (r, w')"
  shows "rx_step w w'"
    and "r = Inr (name, content_size) \<Longrightarrow> \<exists>raw. 0 < length raw \<and> length raw \<le> 255 \<and>
           name = cstr (string_of_bytes raw) \<and>
           rx_data (sk w) = htons_bytes (of_nat (length raw)) @ raw @ encode_u64_be content_size @
             rx_data (sk w')"
    and "rx_calm w \<Longrightarrow> rx_data (sk w) = htons_bytes (of_nat (length raw)) @ raw @ encode_u64_be sz @ rest \<Longrightarrow>
           0 < length raw \<Longrightarrow> length raw \<le> 255 \<Longrightarrow>
           r = Inr (cstr (string_of_bytes raw), sz) \<and> rx_data (sk w') = rest"
proof -
  obtain x w1 where p: "proto_recv_file_name_only w = (x, w1)" by fastforce
  obtain n szbuf s2 where r2: "recv_all 8 (sk w1) = (n, szbuf, s2)" by (metis prod_cases3)
  note e1 = proto_recv_file_name_only_effect [OF p] and e2 = recv_all_step [OF r2]
  have split: "(r, w') = (case x of Inl e \<Rightarrow> (Inl e, w1) | Inr nm \<Rightarrow>
      if n \<noteq> 8 then (Inl (if n < 0 then PROTOCOL_ERR_IO else PROTOCOL_ERR_EOF), w1\<lparr>sk := s2\<rparr>)
      else (Inr (nm, decode_u64_be szbuf), w1\<lparr>sk := s2\<rparr>))"
    using assms by (cases x) (simp_all add: proto_recv_file_transfer_prefix_def p r2 Let_def cong: if_cong)
  have "rx_step w (w1\<lparr>sk := s2\<rparr>)" by (rule rx_step_trans [OF e1(1) e2(1)])
  then show "rx_step w w'" using split e1(1) by (auto split: sum.splits if_splits)
  show "\<exists>raw. 0 < length raw \<and> length raw \<le> 255 \<and> name = cstr (string_of_bytes raw) \<and>
      rx_data (sk w) = htons_bytes (of_nat (length raw)) @ raw @ encode_u64_be content_size @
        rx_data (sk w')" if "r = Inr (name, content_size)"
  proof -
    from that split have c: "x = Inr name" "n = 8" "content_size = decode_u64_be szbuf"
      "w' = w1\<lparr>sk := s2\<rparr>" by (auto split: sum.splits if_splits)
    have "length szbuf = 8" "rx_data (sk w1) = szbuf @ rx_data s2" using e2(2) c(2) by auto
    with c e1(2) [OF c(1)] show ?thesis by (auto simp: encode_decode_u64_be)
  qed
  assume a: "rx_calm w"
    "rx_data (sk w) = htons_bytes (of_nat (length raw)) @ raw @ encode_u64_be sz @ rest"
    "0 < length raw" "length raw \<le> 255"
  then have x: "x = Inr (cstr (string_of_bytes raw))" "rx_data (sk w1) = encode_u64_be sz @ rest"
    using e1(3) [of raw "encode_u64_be sz @ rest"] by auto
  moreover have "n = 8" using e2(3) x(2) rx_step_calm [OF e1(1) a(1)] by simp
  moreover from this have "szbuf = encode_u64_be sz" "rx_data s2 = rest"
    using e2(2) x(2) by (auto simp: append_eq_append_conv)
  ultimately show "r = Inr (cstr (string_of_bytes raw), sz) \<and> rx_data (sk w') = rest"
    using split decode_encode_u64_be_append [of sz "[]"] by simp
qed

text \<open>What the sender of a file puts in front of the content.\<close>

lemma encode_file_prefix_bytes:
  assumes "0 < length name" "length name \<le> 255"
  shows "encode_file_prefix name sz =
    Inr (htons_bytes (of_nat (length name)) @ bytes_of_string name @ encode_u64_be sz)"
    and "encode_file_name_only name = Inr (htons_bytes (of_nat (length name)) @ bytes_of_string name)"
  using assms by (simp_all add: encode_file_prefix_def encode_file_name_only_def
      proto_get_file_name_len_def HF_PROTOCOL_MAX_FILE_NAME_LEN_def unat_of_nat)


section \<open>Steps and requests\<close>

text \<open>Sending leaves the file system and all but the transmit side of the connection alone.\<close>

definition tx_step :: "world \<Rightarrow> world \<Rightarrow> bool" where
  "tx_step w w' \<longleftrightarrow> fs w' = fs w \<and> tx_only (sk w) (sk w') \<and> io_frame w w'"

lemma tx_step_refl [simp, intro]: "tx_step w w"
  by (simp add: tx_step_def)

abbreviation frame_of :: "byte \<Rightarrow> byte \<Rightarrow> protocol_result \<Rightarrow> res_frame" where
  "frame_of ph st code \<equiv> \<lparr>phase = ph, status = st, error_code = result_code code\<rparr>"

lemma result_code_bound: "result_code c \<le> 13" "result_code c = 0 \<longleftrightarrow> c = PROTOCOL_OK"
  by (cases c; simp)+

text \<open>The frames the handlers send are all valid, so none is lost to the encoder's check.\<close>

lemma frame_of_valid [simp]:
  "proto_res_frame_valid (frame_of PROTO_PHASE_READY PROTO_STATUS_OK PROTOCOL_OK)"
  "proto_res_frame_valid (frame_of PROTO_PHASE_FINAL PROTO_STATUS_OK PROTOCOL_OK)"
  "code \<noteq> PROTOCOL_OK \<Longrightarrow> proto_res_frame_valid (frame_of PROTO_PHASE_READY PROTO_STATUS_REJECTED code)"
  "code \<noteq> PROTOCOL_OK \<Longrightarrow> proto_res_frame_valid (frame_of PROTO_PHASE_FINAL PROTO_STATUS_FAILED code)"
  using result_code_bound
  by (auto simp: proto_res_frame_valid_def proto_res_frame_phase_valid_def frame_consts
      proto_res_frame_status_valid_def proto_res_frame_error_code_valid_def)

lemma tx_step_trans [trans]: "tx_step w w' \<Longrightarrow> tx_step w' w'' \<Longrightarrow> tx_step w w''"
  by (auto simp: tx_step_def intro: tx_only_trans io_frame_trans)

lemma rx_step_sock_fd: "rx_step w w' \<Longrightarrow> sock_fd (sk w') = sock_fd (sk w)"
  by (simp add: rx_step_def rx_only_def)

lemma rx_step_tx_quiet: "rx_step w w' \<Longrightarrow> tx_quiet (sk w') = tx_quiet (sk w)"
  by (simp add: rx_step_def rx_only_def tx_quiet_def)

lemma tx_step_rx_calm: "tx_step w w' \<Longrightarrow> rx_calm w \<Longrightarrow> rx_calm w'"
  by (auto simp: tx_step_def rx_calm_def tx_only_def io_frame_def rx_quiet_def)

lemma tx_step_tx_quiet: "tx_step w w' \<Longrightarrow> tx_quiet (sk w) \<Longrightarrow> tx_quiet (sk w')"
  by (auto simp: tx_step_def tx_only_def tx_quiet_def)

lemma prefix_size_word:
  assumes "length name \<le> 255"
  shows "proto_file_transfer_prefix_size (of_nat (length name)) = of_nat (10 + length name)"
    and "proto_file_name_only_size (of_nat (length name)) = of_nat (2 + length name)"
proof -
  have "(ucast (of_nat (length name) :: u16) :: u64) = of_nat (length name)"
    using assms by (simp add: word_eq_iff_unsigned unsigned_ucast_eq unsigned_of_nat take_bit_nat_eq_self)
  then show "proto_file_transfer_prefix_size (of_nat (length name)) = of_nat (10 + length name)"
    and "proto_file_name_only_size (of_nat (length name)) = of_nat (2 + length name)"
    by (simp_all add: proto_file_transfer_prefix_size_def proto_file_name_only_size_def)
qed

lemma tx_step_D:
  assumes "tx_step w w'"
  shows "fs w' = fs w" "rx_data (sk w') = rx_data (sk w)" "sock_fd (sk w') = sock_fd (sk w)"
    "pid w' = pid w" "splice_direct w' = splice_direct w" "store w' = store w"
  using assms by (auto simp: tx_step_def tx_only_def io_frame_def)

lemma rx_step_D:
  assumes "rx_step w w'"
  shows "fs w' = fs w" "tx_data (sk w') = tx_data (sk w)" "sock_fd (sk w') = sock_fd (sk w)"
    "pid w' = pid w" "splice_direct w' = splice_direct w" "store w' = store w"
  using assms by (auto simp: rx_step_def rx_only_def io_frame_def)

definition dl_step :: "int \<Rightarrow> world \<Rightarrow> world \<Rightarrow> bool" where
  "dl_step fd w w' \<longleftrightarrow> tx_only (sk w) (sk w') \<and> only_reads fd (fs w) (fs w') \<and> io_frame w w'"

lemma dl_step_trans [trans]: "dl_step fd w w' \<Longrightarrow> dl_step fd w' w'' \<Longrightarrow> dl_step fd w w''"
  by (auto simp: dl_step_def intro: tx_only_trans only_reads_trans io_frame_trans)

lemma tx_step_dl_step: "tx_step w w' \<Longrightarrow> dl_step fd w w'"
  by (auto simp: tx_step_def dl_step_def)

lemma dl_step_quiet: "dl_step fd w w' \<Longrightarrow> tx_quiet (sk w) \<Longrightarrow> tx_quiet (sk w')"
  by (auto simp: dl_step_def tx_only_def tx_quiet_def)

lemma dl_step_sock_fd: "dl_step fd w w' \<Longrightarrow> sock_fd (sk w') = sock_fd (sk w)"
  by (simp add: dl_step_def tx_only_def)

definition download_bytes :: "string \<Rightarrow> byte list \<Rightarrow> byte list" where
  "download_bytes name c =
     res_frame_bytes (frame_of PROTO_PHASE_READY PROTO_STATUS_OK PROTOCOL_OK) @
     htons_bytes (of_nat (length name)) @ bytes_of_string name @ encode_u64_be (of_nat (length c)) @ c @
     res_frame_bytes (frame_of PROTO_PHASE_FINAL PROTO_STATUS_OK PROTOCOL_OK)"

lemma unat_of_nat_small: "k < 2 ^ 64 \<Longrightarrow> unat (of_nat k :: u64) = k"
  by (simp add: unat_of_nat)

definition send_file_header :: "string \<Rightarrow> byte list \<Rightarrow> protocol_header" where
  "send_file_header name body =
     init_header\<lparr>msg_type := HF_MSG_TYPE_SEND_FILE, payload_size := of_nat (10 + length name + length body)\<rparr>"

definition send_file_prefix :: "string \<Rightarrow> byte list \<Rightarrow> byte list" where
  "send_file_prefix name body =
     htons_bytes (of_nat (length name)) @ bytes_of_string name @ encode_u64_be (of_nat (length body))"

lemma send_file_header_valid: "header_valid (send_file_header name body)"
  by (simp add: header_valid_def send_file_header_def init_header_def)

definition get_file_header :: "string \<Rightarrow> protocol_header" where
  "get_file_header name =
     init_header\<lparr>msg_type := HF_MSG_TYPE_GET_FILE, payload_size := of_nat (2 + length name)\<rparr>"

definition text_header :: "string \<Rightarrow> protocol_header" where
  "text_header message =
     init_header\<lparr>msg_type := HF_MSG_TYPE_TEXT_MESSAGE, payload_size := of_nat (length message)\<rparr>"

lemma request_header_valid: "header_valid (get_file_header name)" "header_valid (text_header message)"
  by (simp_all add: header_valid_def get_file_header_def text_header_def init_header_def)

lemma proto_recv_name_not_ok:
  "proto_recv_file_name_only w = (x, w') \<Longrightarrow> x = Inl e \<Longrightarrow> e \<noteq> PROTOCOL_OK"
  by (auto simp: proto_recv_file_name_only_def Let_def split: prod.splits if_splits bool.splits)

lemma proto_recv_prefix_not_ok:
  "proto_recv_file_transfer_prefix w = (x, w') \<Longrightarrow> x = Inl e \<Longrightarrow> e \<noteq> PROTOCOL_OK"
  using proto_recv_name_not_ok
  by (fastforce simp: proto_recv_file_transfer_prefix_def Let_def split: prod.splits if_splits sum.splits)


text \<open>The prefix of a file payload determines the name, the size and what follows.\<close>

lemma file_name_inject:
  assumes "htons_bytes (of_nat (length raw)) @ raw @ rest = htons_bytes (of_nat (length raw')) @ raw' @ rest'"
    and "length raw \<le> 255" "length raw' \<le> 255"
  shows "raw = raw' \<and> rest = rest'"
proof -
  have l: "length (htons_bytes h) = 2" for h by (simp add: htons_bytes_def)
  have "htons_bytes (of_nat (length raw)) = htons_bytes (of_nat (length raw'))"
    and tl: "raw @ rest = raw' @ rest'"
    using assms(1) l by (metis append_eq_append_conv)+
  then have "(of_nat (length raw) :: u16) = of_nat (length raw')"
    by (metis append_Nil2 ntohs_htons_append)
  from arg_cong [OF this, of unat] have "length raw = length raw'"
    using assms(2,3) by (simp add: unat_of_nat)
  with tl show ?thesis by simp
qed

lemma file_prefix_inject:
  assumes "htons_bytes (of_nat (length raw)) @ raw @ encode_u64_be sz @ rest =
      htons_bytes (of_nat (length raw')) @ raw' @ encode_u64_be sz' @ rest'"
    and "length raw \<le> 255" "length raw' \<le> 255"
  shows "raw = raw' \<and> sz = sz' \<and> rest = rest'"
proof -
  from file_name_inject [OF assms] have "raw = raw'" "encode_u64_be sz @ rest = encode_u64_be sz' @ rest'" by auto
  moreover from this have "sz = sz'" by (metis decode_encode_u64_be_append)
  ultimately show ?thesis by simp
qed


section \<open>Properties of the wire formats\<close>

text \<open>
C20: A block of 13 bytes decodes to a request header exactly when it is the encoding of that header
and the header is one this version of the protocol accepts (magic, version, message type, flags): the
codec is a bijection between accepted headers and accepted blocks.
\<close>
theorem header_codec:
  "length bs = HF_PROTOCOL_HEADER_SIZE \<Longrightarrow>
     decode_header bs = Inr h \<longleftrightarrow> header_valid h \<and> bs = encode_header h"
  by (rule hdr.dec_iff)

theorem header_codec_witness:
  "decode_header [4, 0x29, 3, 1, 0, 0, 0, 0, 0, 0, 0, 1, 0] =
     Inr (init_header\<lparr>msg_type := HF_MSG_TYPE_SEND_FILE, payload_size := 256\<rparr>)"
proof -
  let ?h = "init_header\<lparr>msg_type := HF_MSG_TYPE_SEND_FILE, payload_size := 256\<rparr>"
  have "encode_header ?h = [4, 0x29, 3, 1, 0, 0, 0, 0, 0, 0, 0, 1, 0]"
    by (simp add: encode_header_def init_header_def protocol_consts htons_bytes_def encode_u64_be_def)
  then show ?thesis
    using header_codec [of "[4, 0x29, 3, 1, 0, 0, 0, 0, 0, 0, 0, 1, 0]" ?h]
    by (simp add: header_valid_def init_header_def protocol_consts)
qed

text \<open>
C21: A response frame that the encoder accepts is read back by \<^verbatim>\<open>recv_res_frame\<close> from any stream that
starts with it, in whatever pieces it arrives, and the rest of the stream is left unread; conversely
a frame that was read stood encoded at the head of the stream and passes the validity rules
(an OK status carries code 0 and only an OK status does).
\<close>
theorem res_frame_roundtrip:
  assumes "encode_res_frame f = Inr b" and "rx_quiet s" and "0 \<le> sock_fd s"
  shows "rx_data s = b @ rest \<longleftrightarrow> fst (recv_res_frame s) = Inr f \<and> rx_data (snd (recv_res_frame s)) = rest"
proof -
  have v: "proto_res_frame_valid f" and b: "b = res_frame_bytes f"
    using assms(1) by (auto simp: encode_res_frame_def res_frame_bytes_def split: if_splits)
  show ?thesis
  proof
    assume "rx_data s = b @ rest"
    with assms(2,3) v show "fst (recv_res_frame s) = Inr f \<and> rx_data (snd (recv_res_frame s)) = rest"
      unfolding b by (auto elim: recv_res_frame_quiet)
  next
    assume "fst (recv_res_frame s) = Inr f \<and> rx_data (snd (recv_res_frame s)) = rest"
    then show "rx_data s = b @ rest"
      using recv_res_frame_sound [of s f "snd (recv_res_frame s)"] b by (auto simp: prod_eq_iff)
  qed
qed

theorem res_frame_roundtrip_witness:
  "let s = \<lparr>sock_fd = 3, rx_data = [1, 2, 0, 9, 77], rx_sched = [RxUpTo 0, RxFail EINTR, RxUpTo 1],
            tx_data = [], tx_sched = []\<rparr>;
       f = \<lparr>phase = PROTO_PHASE_FINAL, status = PROTO_STATUS_FAILED,
            error_code = result_code PROTOCOL_ERR_IO\<rparr>
   in fst (recv_res_frame s) = Inr f \<and> rx_data (snd (recv_res_frame s)) = [77]"
  using res_frame_roundtrip
    [of "\<lparr>phase = PROTO_PHASE_FINAL, status = PROTO_STATUS_FAILED,
           error_code = result_code PROTOCOL_ERR_IO\<rparr>" "[1, 2, 0, 9]"
        "\<lparr>sock_fd = 3, rx_data = [1, 2, 0, 9, 77], rx_sched = [RxUpTo 0, RxFail EINTR, RxUpTo 1],
            tx_data = [], tx_sched = []\<rparr>" "[77]"]
  by (simp add: encode_res_frame_def proto_res_frame_valid_def proto_res_frame_phase_valid_def
      proto_res_frame_status_valid_def proto_res_frame_error_code_valid_def frame_consts htons_bytes_def
      rx_quiet_def)

end
