(* ===== verification/Transfer_Io.thy ===== *)
theory Transfer_Io
  imports Protocol
begin

text \<open>
  \<^verbatim>\<open>src/transfer_io.c\<close>: a body of known size is received into a temporary file beside its
  destination and renamed into place; on any failure the temporary file is closed and removed.
  The two entry points differ in the routine that receives the body, so their common text is
  \<open>transfer_recv_with\<close>, with that routine as an argument; \<open>body_receiver\<close> is the contract the
  two routines meet and from which the facts about both entry points follow.
\<close>

section \<open>Definitions\<close>

definition STACK_BUF_SIZE :: nat where "STACK_BUF_SIZE = 8192"
definition HEAP_BUF_SIZE :: nat where "HEAP_BUF_SIZE = 256 * 1024"
definition HEAP_THRESHOLD :: u64 where "HEAP_THRESHOLD = 1 * 1024 * 1024"

definition transfer_recv_socket_http_file_buffered ::
  "int \<Rightarrow> u64 \<Rightarrow> world \<Rightarrow> protocol_result \<times> world" where
  "transfer_recv_socket_http_file_buffered out content_size w =
     (let big = content_size > HEAP_THRESHOLD;
          (ok, w1) = (if big then malloc w else (True, w));
          buf_cap = (if big then HEAP_BUF_SIZE else STACK_BUF_SIZE)
      in if \<not> ok then (PROTOCOL_ERR_ALLOC, w1)
         else case recv_to_file_loop buf_cap out (unat content_size) w1 of
           (r, w') \<Rightarrow>
             (case r of RecvDone \<Rightarrow> PROTOCOL_OK | RecvEof \<Rightarrow> PROTOCOL_ERR_EOF
              | RecvSockError \<Rightarrow> PROTOCOL_ERR_IO | RecvWriteError \<Rightarrow> PROTOCOL_ERR_IO, w'))"

text \<open>The attempts at an unused temporary name.\<close>

function transfer_open_loop ::
  "nat \<Rightarrow> string \<Rightarrow> int \<Rightarrow> nat \<Rightarrow> fsys \<Rightarrow> (protocol_result + string \<times> int) \<times> fsys" where
  "transfer_open_loop tmp_path_cap full_path process_id attempt f =
     (if attempt < 3 then
        case fs_build_temp_path tmp_path_cap full_path process_id (int attempt) of
          None \<Rightarrow> (Inl PROTOCOL_ERR_INVALID_ARGUMENT, f)
        | Some tmp_path \<Rightarrow>
           (case fs_open_temp_file tmp_path f of
              (Inr out_fd, f') \<Rightarrow> (Inr (tmp_path, out_fd), f')
            | (Inl e, f') \<Rightarrow>
                if e = EEXIST
                then transfer_open_loop tmp_path_cap full_path process_id (Suc attempt) f'
                else (Inl PROTOCOL_ERR_IO, f'))
      else (Inl PROTOCOL_ERR_IO, f))"
  by pat_completeness auto
termination
  by (relation "measure (\<lambda>(cap, full, i, attempt, f). 3 - attempt)") auto

declare transfer_open_loop.simps [simp del]

definition transfer_prepare_output ::
  "string \<Rightarrow> string \<Rightarrow> nat \<Rightarrow> nat \<Rightarrow> world \<Rightarrow> (protocol_result + string \<times> string \<times> int) \<times> world" where
  "transfer_prepare_output base_dir file_name full_path_cap tmp_path_cap w =
     (if full_path_cap = 0 \<or> tmp_path_cap = 0 then (Inl PROTOCOL_ERR_INVALID_ARGUMENT, w)
      else case fs_join_relative_path full_path_cap base_dir (Some file_name) of
        None \<Rightarrow> (Inl PROTOCOL_ERR_INVALID_ARGUMENT, w)
      | Some full_path \<Rightarrow>
         (case transfer_open_loop tmp_path_cap full_path (pid w) 0 (fs w) of
            (Inl e, f') \<Rightarrow> (Inl e, w\<lparr>fs := f'\<rparr>)
          | (Inr (tmp_path, out_fd), f') \<Rightarrow> (Inr (full_path, tmp_path, out_fd), w\<lparr>fs := f'\<rparr>)))"

text \<open>The result, the value left in \<^verbatim>\<open>*out_fd\<close>, and the file system.\<close>

definition transfer_finalize_output ::
  "int \<Rightarrow> string \<Rightarrow> string \<Rightarrow> nat \<Rightarrow> fsys \<Rightarrow> (protocol_result + string) \<times> int \<times> fsys" where
  "transfer_finalize_output out_fd tmp_path full_path full_path_cap f =
     (if full_path_cap = 0 then (Inl PROTOCOL_ERR_INVALID_ARGUMENT, out_fd, f)
      else if length full_path + 1 > full_path_cap then (Inl PROTOCOL_ERR_INVALID_ARGUMENT, out_fd, f)
      else
        case (if out_fd \<noteq> -1 then fs_close out_fd f else (True, f)) of
          (False, f1) \<Rightarrow> (Inl PROTOCOL_ERR_IO, -1, f1)
        | (True, f1) \<Rightarrow>
           (case fs_commit_temp_file tmp_path full_path f1 of
              (False, f2) \<Rightarrow> (Inl PROTOCOL_ERR_IO, -1, f2)
            | (True, f2) \<Rightarrow> (Inr full_path, -1, f2)))"

text \<open>
  Both entry points: \<open>receive\<close> is the call that moves the body. The code after the label
  \<^verbatim>\<open>CLEANUP\<close> is \<open>transfer_cleanup\<close>.
\<close>

definition transfer_cleanup ::
  "(protocol_result + string) \<Rightarrow> int \<Rightarrow> string \<Rightarrow> fsys \<Rightarrow> fsys" where
  "transfer_cleanup result out tmp_path f =
     (let f1 = (if out \<noteq> -1 then snd (fs_close out f) else f)
      in case result of
           Inl e \<Rightarrow> if tmp_path \<noteq> [] then fs_remove_ignore_error tmp_path f1 else f1
         | Inr p \<Rightarrow> f1)"

definition transfer_recv_with ::
  "(int \<Rightarrow> u64 \<Rightarrow> world \<Rightarrow> protocol_result \<times> world) \<Rightarrow> string \<Rightarrow> string \<Rightarrow> u64 \<Rightarrow> nat \<Rightarrow> world \<Rightarrow>
   (protocol_result + string) \<times> world" where
  "transfer_recv_with receive base_dir file_name content_size full_path_cap w =
     (if full_path_cap = 0 then (Inl PROTOCOL_ERR_INVALID_ARGUMENT, w)
      else case transfer_prepare_output base_dir file_name 4096 4096 w of
        (Inl e, w1) \<Rightarrow> (Inl e, w1)
      | (Inr (full_path, tmp_path, out), w1) \<Rightarrow>
         (case receive out content_size w1 of
            (r, w2) \<Rightarrow>
              (let (result, out', f3) =
                     (if r \<noteq> PROTOCOL_OK then (Inl r, out, fs w2)
                      else transfer_finalize_output out tmp_path full_path full_path_cap (fs w2))
               in (result, w2\<lparr>fs := transfer_cleanup result out' tmp_path f3\<rparr>))))"

fun transfer_recv_code :: "net_recv_file_result \<Rightarrow> protocol_result" where
  "transfer_recv_code NET_RECV_FILE_OK = PROTOCOL_OK"
| "transfer_recv_code NET_RECV_FILE_EOF = PROTOCOL_ERR_EOF"
| "transfer_recv_code NET_RECV_FILE_IO = PROTOCOL_ERR_IO"
| "transfer_recv_code NET_RECV_FILE_INVALID_ARGUMENT = PROTOCOL_ERR_INVALID_ARGUMENT"
| "transfer_recv_code NET_RECV_FILE_UNSUPPORTED = PROTOCOL_ERR_IO"

definition transfer_recv_body :: "int \<Rightarrow> u64 \<Rightarrow> world \<Rightarrow> protocol_result \<times> world" where
  "transfer_recv_body out content_size w =
     (case net_recv_file_best_effort out content_size w of (r, w') \<Rightarrow> (transfer_recv_code r, w'))"

definition transfer_recv_socket_file ::
  "string \<Rightarrow> string \<Rightarrow> u64 \<Rightarrow> nat \<Rightarrow> world \<Rightarrow> (protocol_result + string) \<times> world" where
  "transfer_recv_socket_file = transfer_recv_with transfer_recv_body"

definition transfer_recv_socket_http_file ::
  "string \<Rightarrow> string \<Rightarrow> u64 \<Rightarrow> nat \<Rightarrow> world \<Rightarrow> (protocol_result + string) \<times> world" where
  "transfer_recv_socket_http_file = transfer_recv_with transfer_recv_socket_http_file_buffered"


section \<open>The temporary file\<close>

text \<open>\<open>tmp\<close> is a name beside \<open>full\<close> that was free in \<open>f\<close>; in \<open>f'\<close> it is an empty file open on \<open>fd\<close>.\<close>

definition temp_opened ::
  "string \<Rightarrow> int \<Rightarrow> fsys \<Rightarrow> string \<Rightarrow> int \<Rightarrow> fsys \<Rightarrow> bool" where
  "temp_opened full i f tmp fd f' \<longleftrightarrow>
     (\<exists>a < 3. fs_build_temp_path 4096 full i (int a) = Some tmp) \<and>
     nodes f (canon tmp) = None \<and> fd = int (next_fd f) \<and> appending f' fd (canon tmp) [] \<and>
     (\<forall>q. q \<noteq> canon tmp \<longrightarrow> nodes f' q = nodes f q) \<and> (\<forall>d. d \<noteq> fd \<longrightarrow> fds f' d = fds f d) \<and>
     next_fd f' = Suc (next_fd f) \<and> set (fs_sched f') \<subseteq> set (fs_sched f)"

lemma temp_opened_retry:
  "fs_untouched f g \<Longrightarrow> temp_opened full i g tmp fd f' \<Longrightarrow> temp_opened full i f tmp fd f'"
  by (auto simp: fs_untouched_def temp_opened_def)

lemma transfer_open_loop_effect:
  assumes "transfer_open_loop 4096 full i a f = (r, f')"
  shows "case r of Inl e \<Rightarrow> fs_untouched f f' | Inr (tmp, fd) \<Rightarrow> temp_opened full i f tmp fd f'"
  using assms
proof (induction "4096 :: nat" full i a f rule: transfer_open_loop.induct)
  case (1 full i a f)
  note unf = transfer_open_loop.simps [of 4096 full i a f]
  show ?case
  proof (cases "a < 3")
    case False
    with "1.prems" show ?thesis by (auto simp: unf)
  next
    case less: True
    show ?thesis
    proof (cases "fs_build_temp_path 4096 full i (int a)")
      case None
      with "1.prems" less show ?thesis by (auto simp: unf)
    next
      case (Some tmp)
      obtain x g where op: "fs_open_temp_file tmp f = (x, g)" by fastforce
      from op show ?thesis
      proof (cases rule: fs_open_temp_file_cases)
        case (fail e)
        then have g: "fs_untouched f g" by (simp add: fs_untouched_def)
        show ?thesis
        proof (cases "e = EEXIST")
          case True
          with "1.prems" less Some op fail have "transfer_open_loop 4096 full i (Suc a) g = (r, f')"
            by (simp add: unf)
          from "1.hyps" [OF less Some op [symmetric] fail(1) True this] g show ?thesis
            by (auto simp: fs_untouched_def split: sum.splits intro: temp_opened_retry [OF g])
        next
          case False
          with "1.prems" less Some op fail g show ?thesis by (auto simp: unf)
        qed
      next
        case (ok fd)
        with "1.prems" less Some op have "r = Inr (tmp, fd)" "f' = g" by (auto simp: unf)
        with fs_open_temp_file_ok [OF op [unfolded ok(1)]] Some less show ?thesis
          by (auto simp: temp_opened_def)
      qed
    qed
  qed
qed

text \<open>With no failing call the first name is taken when it is free.\<close>

lemma transfer_open_loop_quiet:
  assumes "fs_quiet f" and "fs_build_temp_path 4096 full i 0 = Some tmp" and "nodes f (canon tmp) = None"
  obtains fd f' where "transfer_open_loop 4096 full i 0 f = (Inr (tmp, fd), f')"
proof -
  obtain x g where op: "fs_open_temp_file tmp f = (x, g)" by fastforce
  with assms obtain fd where "x = Inr fd" by (auto elim!: fs_open_temp_file_cases)
  with op assms(2) that show thesis by (simp add: transfer_open_loop.simps)
qed


section \<open>Outcomes\<close>

text \<open>
  \<open>delivered\<close>: the destination holds \<open>c\<close> and nothing else in the file system differs, no
  temporary file and no open descriptor included. \<open>abandoned\<close>: nothing differs, except that a
  temporary file whose removal failed may be left behind.
\<close>

definition delivered :: "string \<Rightarrow> byte list \<Rightarrow> fsys \<Rightarrow> fsys \<Rightarrow> bool" where
  "delivered full c f f' \<longleftrightarrow>
     (\<exists>m. nodes f' (canon full) = Some (FileN c m)) \<and>
     (\<forall>q. q \<noteq> canon full \<longrightarrow> nodes f' q = nodes f q) \<and>
     fds f' = fds f \<and> fs_ok f' \<and> set (fs_sched f') \<subseteq> set (fs_sched f)"

definition abandoned :: "string \<Rightarrow> int \<Rightarrow> fsys \<Rightarrow> fsys \<Rightarrow> bool" where
  "abandoned full i f f' \<longleftrightarrow>
     (nodes f' = nodes f \<or>
      \<not> fs_quiet f \<and>
      (\<exists>a < 3. \<exists>tmp. fs_build_temp_path 4096 full i (int a) = Some tmp \<and> nodes f (canon tmp) = None \<and>
         (\<forall>q. q \<noteq> canon tmp \<longrightarrow> nodes f' q = nodes f q))) \<and>
     fds f' = fds f \<and> fs_ok f' \<and> set (fs_sched f') \<subseteq> set (fs_sched f)"

lemma fs_untouched_abandoned: "fs_untouched f f' \<Longrightarrow> fs_ok f \<Longrightarrow> abandoned full i f f'"
  by (simp add: fs_untouched_def abandoned_def fs_ok_def)

text \<open>The temporary file while the body comes in.\<close>

definition temp_filling ::
  "string \<Rightarrow> int \<Rightarrow> fsys \<Rightarrow> string \<Rightarrow> int \<Rightarrow> byte list \<Rightarrow> fsys \<Rightarrow> bool" where
  "temp_filling full i f tmp fd c g \<longleftrightarrow>
     (\<exists>a < 3. fs_build_temp_path 4096 full i (int a) = Some tmp) \<and>
     nodes f (canon tmp) = None \<and> 0 \<le> fd \<and> fds f fd = None \<and> appending g fd (canon tmp) c \<and>
     (\<forall>q. q \<noteq> canon tmp \<longrightarrow> nodes g q = nodes f q) \<and> (\<forall>d. d \<noteq> fd \<longrightarrow> fds g d = fds f d) \<and>
     (\<forall>k \<ge> next_fd g. int k \<noteq> fd \<and> fds f (int k) = None) \<and> set (fs_sched g) \<subseteq> set (fs_sched f)"

lemma temp_opened_filling:
  assumes "temp_opened full i f tmp fd f1" "fs_ok f" "only_touches (canon tmp) fd f1 g"
    and "appending g fd (canon tmp) c"
  shows "temp_filling full i f tmp fd c g"
  using assms by (auto simp: temp_opened_def temp_filling_def only_touches_def fs_ok_def)

lemma transfer_cleanup_abandoned:
  assumes "temp_filling full i f tmp fd c g" and "tmp \<noteq> []"
    and "nodes g' = nodes g" "fds g' = fds g \<and> out = fd \<or> fds g' = (fds g)(fd := None) \<and> out = -1"
    and "next_fd g' = next_fd g" "set (fs_sched g') \<subseteq> set (fs_sched g)"
  shows "abandoned full i f (transfer_cleanup (Inl e) out tmp g')"
proof -
  define h where "h = (if out \<noteq> -1 then snd (fs_close out g') else g')"
  have h: "nodes h = nodes g" "fds h = (fds g)(fd := None)" "next_fd h = next_fd g"
    "set (fs_sched h) \<subseteq> set (fs_sched f)"
    using assms fs_close_effect [of out g' "fst (fs_close out g')" "snd (fs_close out g')"]
    by (auto simp: h_def temp_filling_def)
  define r where "r = fs_remove_ignore_error tmp h"
  have r: "transfer_cleanup (Inl e) out tmp g' = r"
    using assms(2) by (simp add: transfer_cleanup_def h_def r_def Let_def)
  note rm = fs_remove_effect [where p = tmp and f = h, folded r_def]
  have off: "\<forall>q. q \<noteq> canon tmp \<longrightarrow> nodes r q = nodes f q"
    using rm(4) h(1) assms(1) by (auto simp: temp_filling_def)
  have fds: "fds r = fds f"
    using rm(1) h(2) assms(1) by (auto simp: temp_filling_def)
  have "nodes r = nodes f" if "fs_quiet f"
  proof (rule ext)
    fix q
    have "nodes r (canon tmp) = None" using rm(6) fs_quiet_subset [OF that h(4)] by blast
    with off assms(1) show "nodes r q = nodes f q" by (cases "q = canon tmp") (auto simp: temp_filling_def)
  qed
  then show ?thesis
    using assms(1) off fds rm(2,3) h(3,4)
    by (auto simp: r abandoned_def temp_filling_def fs_ok_def)
qed

lemma transfer_finalize_delivered:
  assumes "temp_filling full i f tmp fd c g" and "tmp \<noteq> []"
    and "transfer_finalize_output fd tmp full cap g = (result, out, g')"
  shows "case result of
      Inl e \<Rightarrow> abandoned full i f (transfer_cleanup result out tmp g')
    | Inr p \<Rightarrow> p = full \<and> delivered full c f (transfer_cleanup result out tmp g')"
    and "fs_quiet f \<Longrightarrow> length full < cap \<Longrightarrow> \<forall>m. nodes f (canon full) \<noteq> Some (DirN m) \<Longrightarrow> result = Inr full"
proof -
  from assms(1) have fd: "fd \<noteq> -1" by (auto simp: temp_filling_def)
  have other: "canon tmp \<noteq> canon full"
    using assms(1) temp_path_other by (auto simp: temp_filling_def)
  obtain ok1 g1 where cl: "fs_close fd g = (ok1, g1)" by fastforce
  obtain ok2 g2 where cm: "fs_commit_temp_file tmp full g1 = (ok2, g2)" by fastforce
  note c1 = fs_close_effect [OF cl] and c2 = fs_commit_effect [OF cm]
  have res: "(result, out, g') =
      (if cap = 0 \<or> length full + 1 > cap then (Inl PROTOCOL_ERR_INVALID_ARGUMENT, fd, g)
       else if \<not> ok1 then (Inl PROTOCOL_ERR_IO, -1, g1)
       else if \<not> ok2 then (Inl PROTOCOL_ERR_IO, -1, g2) else (Inr full, -1, g2))"
    using assms(3) fd by (auto simp: transfer_finalize_output_def cl cm split: if_splits bool.splits)
  note ab = transfer_cleanup_abandoned [OF assms(1,2)]
  show "case result of Inl e \<Rightarrow> abandoned full i f (transfer_cleanup result out tmp g')
    | Inr p \<Rightarrow> p = full \<and> delivered full c f (transfer_cleanup result out tmp g')"
  proof (cases result)
    case (Inl e)
    then have "abandoned full i f (transfer_cleanup (Inl e) out tmp g')"
      using res c1 c2 by (intro ab) (auto split: if_splits)
    with Inl show ?thesis by simp
  next
    case (Inr p)
    with res have "p = full" "out = -1" "g' = g2" ok2 by (auto split: if_splits)
    with Inr c1 c2 other assms(1) show ?thesis
      by (auto simp: transfer_cleanup_def delivered_def temp_filling_def appending_def fs_ok_def fun_eq_iff)
  qed
  assume q: "fs_quiet f" "length full < cap" "\<forall>m. nodes f (canon full) \<noteq> Some (DirN m)"
  with assms(1) have "fs_quiet g" by (auto simp: temp_filling_def intro: fs_quiet_subset)
  moreover from this have "fs_quiet g1" using c1(4) fs_quiet_subset by blast
  ultimately show "result = Inr full"
    using res q c1 c2 assms(1) other by (auto simp: temp_filling_def appending_def)
qed

lemma temp_path_not_Nil: "fs_build_temp_path cap full i a = Some tmp \<Longrightarrow> tmp \<noteq> []"
  by (auto simp: fs_build_temp_path_def snprintf_checked_def split: if_splits)


section \<open>Receiving into place\<close>

lemma transfer_prepare_effect:
  assumes "transfer_prepare_output base name 4096 4096 w = (r, w1)"
  shows "case r of
      Inl e \<Rightarrow> sk w1 = sk w \<and> io_frame w w1 \<and> fs_untouched (fs w) (fs w1)
    | Inr (full, tmp, out) \<Rightarrow> fs_join_relative_path 4096 base (Some name) = Some full \<and>
        sk w1 = sk w \<and> io_frame w w1 \<and> temp_opened full (pid w) (fs w) tmp out (fs w1)"
    and "fs_join_relative_path 4096 base (Some name) = None \<Longrightarrow> w1 = w"
  using assms transfer_open_loop_effect [where f = "fs w" and i = "pid w" and a = 0]
  by (fastforce simp: transfer_prepare_output_def io_frame_def split: option.splits prod.splits sum.splits)+

text \<open>
  What an entry point promises. A name that does not resolve below the base directory is refused
  with nothing read or written; otherwise the transfer is either delivered in full or abandoned.
\<close>

definition transfer_done ::
  "string \<Rightarrow> string \<Rightarrow> u64 \<Rightarrow> world \<Rightarrow> (protocol_result + string) \<Rightarrow> world \<Rightarrow> bool" where
  "transfer_done base name n w r w' \<longleftrightarrow>
     (case fs_join_relative_path 4096 base (Some name) of
        None \<Rightarrow> w' = w \<and> (\<exists>e. r = Inl e)
      | Some full \<Rightarrow>
         (case r of
            Inl e \<Rightarrow> abandoned full (pid w) (fs w) (fs w')
          | Inr p \<Rightarrow> p = full \<and> unat n \<le> length (rx_data (sk w)) \<and>
              delivered full (take (unat n) (rx_data (sk w))) (fs w) (fs w') \<and>
              rx_data (sk w') = drop (unat n) (rx_data (sk w)))) \<and>
     rx_only (sk w) (sk w') \<and> io_frame w w'"

text \<open>
  The contract of a routine that receives a body: whatever it returns, the file holds a prefix of
  what came in, all of the requested size when it returns \<^verbatim>\<open>PROTOCOL_OK\<close>.
\<close>

locale body_receiver =
  fixes receive :: "int \<Rightarrow> u64 \<Rightarrow> world \<Rightarrow> protocol_result \<times> world"
  assumes receive_into: "receive fd n w = (r, w') \<Longrightarrow> appending (fs w) fd p c \<Longrightarrow>
      \<not> splice_direct w \<Longrightarrow> 0 \<le> sock_fd (sk w) \<Longrightarrow> 0 \<le> fd \<Longrightarrow>
      receives_into fd p c (unat n) w (r = PROTOCOL_OK) (r = PROTOCOL_ERR_EOF) w'"
begin

lemma receive_filling:
  assumes "temp_opened full i (fs w) tmp fd (fs w1)" "sk w1 = sk w \<and> io_frame w w1" "fs_ok (fs w)"
    and "\<not> splice_direct w" "0 \<le> sock_fd (sk w)" and "receive fd n w1 = (r, w2)"
  obtains j k where "k \<le> j" "j \<le> length (rx_data (sk w))" "j \<le> unat n"
    "temp_filling full i (fs w) tmp fd (take k (rx_data (sk w))) (fs w2)"
    "rx_data (sk w2) = drop j (rx_data (sk w))" "rx_only (sk w) (sk w2)" "io_frame w w2"
    "r = PROTOCOL_OK \<Longrightarrow> k = unat n" "rx_calm w \<Longrightarrow> r = PROTOCOL_OK \<or> j < unat n \<and> j = length (rx_data (sk w))"
proof -
  have eq: "sk w1 = sk w" "splice_direct w1 = splice_direct w" "io_frame w w1"
    using assms(2) by (auto simp: io_frame_def)
  from assms(1) have t: "appending (fs w1) fd (canon tmp) []" "0 \<le> fd" "set (fs_sched (fs w1)) \<subseteq> set (fs_sched (fs w))"
    by (auto simp: temp_opened_def)
  have "receives_into fd (canon tmp) [] (unat n) w1 (r = PROTOCOL_OK) (r = PROTOCOL_ERR_EOF) w2"
    by (rule receive_into [OF assms(6) t(1)]) (use assms eq t in auto)
  then obtain j k where jk: "j \<le> length (rx_data (sk w1))" "k \<le> j" "j \<le> unat n"
      "appending (fs w2) fd (canon tmp) (take k (rx_data (sk w1)))"
      "rx_data (sk w2) = drop j (rx_data (sk w1))" "r = PROTOCOL_OK \<longrightarrow> k = unat n"
      "r = PROTOCOL_ERR_EOF \<longrightarrow> k = length (rx_data (sk w1)) \<and> j < unat n"
    and fr: "rx_only (sk w1) (sk w2)" "only_touches (canon tmp) fd (fs w1) (fs w2)" "io_frame w1 w2"
      "rx_calm w1 \<longrightarrow> r = PROTOCOL_OK \<or> r = PROTOCOL_ERR_EOF"
    by (auto simp: receives_into_def)
  have "rx_calm w \<Longrightarrow> rx_calm w1"
    using eq t(3) by (auto simp: rx_calm_def io_frame_def intro: fs_quiet_subset)
  moreover have "temp_filling full i (fs w) tmp fd (take k (rx_data (sk w1))) (fs w2)"
    by (rule temp_opened_filling [OF assms(1,3) fr(2) jk(4)])
  ultimately show thesis
    using jk fr eq by (intro that [of k j]) (auto intro: io_frame_trans)
qed

lemma transfer_outcome:
  assumes run: "transfer_recv_with receive base name n cap w = (r, w')"
    and "fs_ok (fs w)" "\<not> splice_direct w" "0 \<le> sock_fd (sk w)"
  shows "transfer_done base name n w r w'"
proof -
  obtain x w1 where prep: "transfer_prepare_output base name 4096 4096 w = (x, w1)" by fastforce
  note pe = transfer_prepare_effect [OF prep]
  show ?thesis
  proof (cases "cap = 0 \<or> (\<exists>e. x = Inl e)")
    case True
    have w1: "fs_untouched (fs w) (fs w1)" "sk w1 = sk w" "io_frame w w1" if "x = Inl e" for e
      using that pe(1) by auto
    show ?thesis
      using True run prep pe(2) w1 assms(2)
      by (auto simp: transfer_done_def transfer_recv_with_def fs_untouched_abandoned split: option.splits if_splits)
  next
    case False
    then obtain full tmp fd where x: "x = Inr (full, tmp, fd)" and cap: "cap \<noteq> 0"
      by (cases x) auto
    with pe(1) have j: "fs_join_relative_path 4096 base (Some name) = Some full"
      and w1: "sk w1 = sk w \<and> io_frame w w1" and op: "temp_opened full (pid w) (fs w) tmp fd (fs w1)" by auto
    then have tmp: "tmp \<noteq> []" by (auto simp: temp_opened_def dest: temp_path_not_Nil)
    obtain res w2 where rc: "receive fd n w1 = (res, w2)" by fastforce
    from op w1 assms(2-4) rc obtain l k where kl: "k \<le> l" "l \<le> length (rx_data (sk w))" "l \<le> unat n"
      "temp_filling full (pid w) (fs w) tmp fd (take k (rx_data (sk w))) (fs w2)"
      "rx_data (sk w2) = drop l (rx_data (sk w))" "rx_only (sk w) (sk w2)" "io_frame w w2"
      "res = PROTOCOL_OK \<Longrightarrow> k = unat n" by (rule receive_filling) blast
    obtain rs out g where fin: "transfer_finalize_output fd tmp full cap (fs w2) = (rs, out, g)"
      by (metis prod_cases3)
    note fd = transfer_finalize_delivered(1) [OF kl(4) tmp fin]
    have fr: "rx_only (sk w) (sk (w2\<lparr>fs := g'\<rparr>))" "io_frame w (w2\<lparr>fs := g'\<rparr>)" for g'
      using kl(6,7) by (auto simp: io_frame_def)
    show ?thesis
    proof (cases "res = PROTOCOL_OK")
      case True
      with run prep x cap rc fin have "r = rs" "w' = w2\<lparr>fs := transfer_cleanup rs out tmp g\<rparr>"
        by (auto simp: transfer_recv_with_def)
      moreover have "k = unat n" "l = unat n" using kl True by auto
      ultimately show ?thesis using fd j kl(2,5) fr by (auto simp: transfer_done_def split: sum.splits)
    next
      case bad: False
      with run prep x cap rc have "r = Inl res"
        "w' = w2\<lparr>fs := transfer_cleanup (Inl res) fd tmp (fs w2)\<rparr>"
        by (auto simp: transfer_recv_with_def)
      then show ?thesis
        using j fr transfer_cleanup_abandoned [OF kl(4) tmp]
        by (auto simp: transfer_done_def)
    qed
  qed
qed

end


context body_receiver
begin

text \<open>With no failing call, room for the path and a free temporary name, a whole body arrives.\<close>

lemma transfer_succeeds:
  assumes run: "transfer_recv_with receive base name n cap w = (r, w')"
    and ok: "fs_ok (fs w)" "\<not> splice_direct w" "0 \<le> sock_fd (sk w)"
    and calm: "rx_calm w" "unat n \<le> length (rx_data (sk w))"
    and path: "fs_join_relative_path 4096 base (Some name) = Some full" "length full < cap"
      "\<forall>m. nodes (fs w) (canon full) \<noteq> Some (DirN m)"
    and free: "fs_build_temp_path 4096 full (pid w) 0 = Some tmp" "nodes (fs w) (canon tmp) = None"
  shows "r = Inr full"
proof -
  have q: "fs_quiet (fs w)" using calm by (simp add: rx_calm_def)
  with free obtain fd g where "transfer_open_loop 4096 full (pid w) 0 (fs w) = (Inr (tmp, fd), g)"
    by (auto elim: transfer_open_loop_quiet)
  with path have prep: "transfer_prepare_output base name 4096 4096 w =
      (Inr (full, tmp, fd), w\<lparr>fs := g\<rparr>)"
    by (simp add: transfer_prepare_output_def)
  then have op: "temp_opened full (pid w) (fs w) tmp fd (fs (w\<lparr>fs := g\<rparr>))"
    and fr: "sk (w\<lparr>fs := g\<rparr>) = sk w \<and> io_frame w (w\<lparr>fs := g\<rparr>)"
    using transfer_prepare_effect(1) [OF prep] by auto
  have tmp: "tmp \<noteq> []" by (rule temp_path_not_Nil [OF free(1)])
  obtain res w2 where rc: "receive fd n (w\<lparr>fs := g\<rparr>) = (res, w2)" by fastforce
  from op fr ok rc obtain l k where kl: "k \<le> l" "l \<le> length (rx_data (sk w))"
    "temp_filling full (pid w) (fs w) tmp fd (take k (rx_data (sk w))) (fs w2)"
    "rx_calm w \<Longrightarrow> res = PROTOCOL_OK \<or> l < unat n \<and> l = length (rx_data (sk w))"
    by (rule receive_filling) blast
  then have res: "res = PROTOCOL_OK" using calm by auto
  obtain rs out h where fin: "transfer_finalize_output fd tmp full cap (fs w2) = (rs, out, h)"
    by (metis prod_cases3)
  have "rs = Inr full"
    by (rule transfer_finalize_delivered(2) [OF kl(3) tmp fin q path(2,3)])
  with run prep rc res fin path(2) show ?thesis by (auto simp: transfer_recv_with_def)
qed

end

interpretation sock_body: body_receiver transfer_recv_body
proof
  fix fd n w r w' p c
  assume "transfer_recv_body fd n w = (r, w')" and app: "appending (fs w) fd p c"
    and c: "\<not> splice_direct w" "0 \<le> sock_fd (sk w)" "0 \<le> fd"
  then obtain x where x: "net_recv_file_best_effort fd n w = (x, w')" "r = transfer_recv_code x"
    by (auto simp: transfer_recv_body_def split: prod.splits)
  have "(r = PROTOCOL_OK) = (x = NET_RECV_FILE_OK)" "(r = PROTOCOL_ERR_EOF) = (x = NET_RECV_FILE_EOF)"
    using x(2) by (cases x; simp)+
  with net_recv_file_best_effort_effect [OF x(1) app c]
  show "receives_into fd p c (unat n) w (r = PROTOCOL_OK) (r = PROTOCOL_ERR_EOF) w'" by simp
qed

interpretation http_body: body_receiver transfer_recv_socket_http_file_buffered
proof
  fix fd n w r w' p c
  assume run: "transfer_recv_socket_http_file_buffered fd n w = (r, w')"
    and app: "appending (fs w) fd p c"
  define big where "big \<longleftrightarrow> n > HEAP_THRESHOLD"
  define cap where "cap = (if big then HEAP_BUF_SIZE else STACK_BUF_SIZE)"
  obtain ok w1 where m: "(if big then malloc w else (True, w)) = (ok, w1)" by fastforce
  obtain bs where w1: "w1 = w\<lparr>mem := bs\<rparr>" "set bs \<subseteq> set (mem w)" "False \<notin> set (mem w) \<Longrightarrow> ok"
    using m by (auto split: if_splits elim!: malloc_effect intro: that [of "mem w"])
  then have fr: "io_frame w w1" by (simp add: io_frame_def)
  show "receives_into fd p c (unat n) w (r = PROTOCOL_OK) (r = PROTOCOL_ERR_EOF) w'"
  proof (cases ok)
    case bad: False
    with run m have "r = PROTOCOL_ERR_ALLOC" "w' = w1"
      by (auto simp: transfer_recv_socket_http_file_buffered_def Let_def big_def)
    with bad w1 fr app show ?thesis
      by (auto intro!: receives_into_stop [of 0 w 0] simp: rx_calm_def)
  next
    case True
    obtain e w2 where lp: "recv_to_file_loop cap fd (unat n) w1 = (e, w2)" by fastforce
    with run m True have "w' = w2" "(r = PROTOCOL_OK) = (e = RecvDone)"
      "(r = PROTOCOL_ERR_EOF) = (e = RecvEof)"
      by (auto simp: transfer_recv_socket_http_file_buffered_def Let_def big_def cap_def
          split: recv_loop_end.splits)
    moreover have "0 < cap" by (simp add: cap_def HEAP_BUF_SIZE_def STACK_BUF_SIZE_def)
    ultimately have "receives_into fd p c (unat n) w1 (r = PROTOCOL_OK) (r = PROTOCOL_ERR_EOF) w'"
      using recv_to_file_loop_effect [OF lp, of p c] app w1(1) by simp
    then show ?thesis using fr w1 by (auto intro!: receives_into_step [of 0 w _ w1])
  qed
qed

lemmas transfer_recv_socket_file_done =
  sock_body.transfer_outcome [folded transfer_recv_socket_file_def]
lemmas transfer_recv_socket_http_file_done =
  http_body.transfer_outcome [folded transfer_recv_socket_http_file_def]
lemmas transfer_recv_socket_file_succeeds =
  sock_body.transfer_succeeds [folded transfer_recv_socket_file_def]
lemmas transfer_recv_socket_http_file_succeeds =
  http_body.transfer_succeeds [folded transfer_recv_socket_http_file_def]

text \<open>An error result is never the OK code.\<close>

lemma transfer_open_loop_not_ok:
  "transfer_open_loop cap full i a f = (Inl e, f') \<Longrightarrow> e \<noteq> PROTOCOL_OK"
proof (induction cap full i a f rule: transfer_open_loop.induct)
  case (1 cap full i a f)
  then show ?case
    by (subst (asm) transfer_open_loop.simps)
      (auto split: if_splits option.splits prod.splits sum.splits)
qed

lemma transfer_recv_with_not_ok:
  "transfer_recv_with receive base name n cap w = (Inl e, w') \<Longrightarrow> e \<noteq> PROTOCOL_OK"
  using transfer_open_loop_not_ok
  by (fastforce simp: transfer_recv_with_def transfer_prepare_output_def transfer_finalize_output_def
      split: if_splits option.splits prod.splits sum.splits bool.splits)

text \<open>Whatever the peer sends as a name, the only entry a delivery can change lies below the base.\<close>

lemma transfer_done_confined:
  assumes "transfer_done base name n w r w'" and "base \<noteq> []" "name \<noteq> []"
    and "nodes (fs w') q \<noteq> nodes (fs w) q"
  shows "prefix (canon base) q"
proof (cases "fs_join_relative_path 4096 base (Some name)")
  case None
  with assms show ?thesis by (simp add: transfer_done_def)
next
  case (Some full)
  with assms(2,3) obtain cs where cs: "cs \<noteq> []" "\<forall>c \<in> set cs. normal_comp c" "canon full = canon base @ cs"
    by (auto elim: fs_join_relative_path_confined)
  show ?thesis
  proof (cases r)
    case (Inl e)
    with assms(1,4) Some obtain a tmp where "fs_build_temp_path 4096 full (pid w) (int a) = Some tmp"
      "q = canon tmp" by (auto simp: transfer_done_def abandoned_def)
    with temp_path_below cs show ?thesis by blast
  next
    case (Inr p)
    with assms(1,4) Some have "q = canon full" by (auto simp: transfer_done_def delivered_def)
    with cs show ?thesis by simp
  qed
qed

end
