(* ===== verification/App_Service.thy ===== *)
theory App_Service
  imports Transfer_Io
begin

text \<open>
  \<^verbatim>\<open>src/app_service.c\<close>: the operations the native protocol and the HTTP front end share: storing
  a message, receiving a file below the receive directory, opening a file of that directory for
  download.
\<close>

datatype app_upload_kind = APP_UPLOAD_PROTOCOL | APP_UPLOAD_HTTP

record app_download =
  dl_fd :: int
  dl_info :: fs_path_info

text \<open>\<^verbatim>\<open>message_store_set\<close> on the global store: its \<^verbatim>\<open>malloc\<close> comes after the guards.\<close>

definition global_store_set :: "string \<Rightarrow> world \<Rightarrow> int \<times> world" where
  "global_store_set message w =
     (let (alloc, w1) = (if ms_initialized (store w) then malloc w else (False, w));
          (rc, st) = message_store_set alloc message (store w1)
      in (rc, w1\<lparr>store := st\<rparr>))"

definition app_submit_message :: "string \<Rightarrow> world \<Rightarrow> protocol_result \<times> world" where
  "app_submit_message message w =
     (if length message > HF_PROTOCOL_MAX_TEXT_MESSAGE_SIZE then (PROTOCOL_ERR_MSG_TOO_LARGE, w)
      else case global_store_set message w of
        (rc, w') \<Rightarrow> (if rc \<noteq> 0 then PROTOCOL_ERR_IO else PROTOCOL_OK, w'))"

definition app_receive_file ::
  "string \<Rightarrow> string \<Rightarrow> u64 \<Rightarrow> app_upload_kind \<Rightarrow> nat \<Rightarrow> world \<Rightarrow> (protocol_result + string) \<times> world" where
  "app_receive_file base_dir target_path content_size upload_kind saved_path_cap w =
     (if saved_path_cap = 0 then (Inl PROTOCOL_ERR_INVALID_ARGUMENT, w)
      else case upload_kind of
        APP_UPLOAD_PROTOCOL \<Rightarrow>
          transfer_recv_socket_file base_dir target_path content_size saved_path_cap w
      | APP_UPLOAD_HTTP \<Rightarrow>
          transfer_recv_socket_http_file base_dir target_path content_size saved_path_cap w)"

definition app_prepare_download ::
  "string \<Rightarrow> string \<Rightarrow> fsys \<Rightarrow> (protocol_result + app_download) \<times> fsys" where
  "app_prepare_download base_dir target_path f =
     (case fs_join_relative_path 4096 base_dir (Some target_path) of
        None \<Rightarrow> (Inl PROTOCOL_ERR_INVALID_ARGUMENT, f)
      | Some full_path \<Rightarrow>
         (case fs_open full_path [O_RDONLY, O_NOFOLLOW] f of
            (Inl e, f1) \<Rightarrow> (Inl PROTOCOL_ERR_IO, f1)
          | (Inr fd, f1) \<Rightarrow>
             (case posix_fstat fd f1 of
                (Inl e, f2) \<Rightarrow> (Inl PROTOCOL_ERR_IO, snd (fs_close fd f2))
              | (Inr (FileN c m), f2) \<Rightarrow>
                  (Inr \<lparr>dl_fd = fd, dl_info = \<lparr>info_kind = FS_PATH_KIND_FILE,
                          info_size = of_nat (length c), info_mtime = m\<rparr>\<rparr>, f2)
              | (Inr n, f2) \<Rightarrow> (Inl PROTOCOL_ERR_INVALID_ARGUMENT, snd (fs_close fd f2)))))"

definition app_download_cleanup :: "int \<Rightarrow> fsys \<Rightarrow> fsys" where
  "app_download_cleanup fd f = (if fd \<noteq> -1 then snd (fs_close fd f) else f)"

section \<open>Messages\<close>

lemma app_submit_message_effect:
  assumes "app_submit_message message w = (r, w')"
  shows "sk w' = sk w" "fs w' = fs w" "pid w' = pid w" "splice_direct w' = splice_direct w"
    "set (mem w') \<subseteq> set (mem w)"
    and "r = PROTOCOL_OK \<Longrightarrow> length message \<le> HF_PROTOCOL_MAX_TEXT_MESSAGE_SIZE \<and>
      ms_initialized (store w) \<and>
      store w' = (store w)\<lparr>ms_message := Some (ms_trimmed message), ms_version := ms_version (store w) + 1\<rparr>"
    and "r \<noteq> PROTOCOL_OK \<Longrightarrow> store w' = store w"
    and "ms_initialized (store w) \<Longrightarrow> False \<notin> set (mem w) \<Longrightarrow>
      length message \<le> HF_PROTOCOL_MAX_TEXT_MESSAGE_SIZE \<Longrightarrow> r = PROTOCOL_OK"
  using assms
  by (auto simp: app_submit_message_def global_store_set_def message_store_set_def Let_def
      elim!: malloc_effect split: if_splits prod.splits)

section \<open>Receiving\<close>

lemma app_receive_file_done:
  assumes "app_receive_file base target n kind cap w = (r, w')"
    and "fs_ok (fs w)" "\<not> splice_direct w" "0 \<le> sock_fd (sk w)" "cap \<noteq> 0"
  shows "transfer_done base target n w r w'"
  using assms transfer_recv_socket_file_done transfer_recv_socket_http_file_done
  by (cases kind) (auto simp: app_receive_file_def)

section \<open>Downloads\<close>

text \<open>A regular file was opened for reading, and nothing else happened.\<close>

definition download_opened ::
  "string \<Rightarrow> byte list \<Rightarrow> fsys \<Rightarrow> app_download \<Rightarrow> fsys \<Rightarrow> bool" where
  "download_opened full c f dl f' \<longleftrightarrow>
     reading f' (dl_fd dl) (canon full) 0 c \<and> info_size (dl_info dl) = of_nat (length c) \<and>
     dl_fd dl = int (next_fd f) \<and> nodes f' = nodes f \<and>
     (\<forall>d. d \<noteq> dl_fd dl \<longrightarrow> fds f' d = fds f d) \<and> next_fd f' = Suc (next_fd f) \<and>
     set (fs_sched f') \<subseteq> set (fs_sched f)"

text \<open>No file is larger than a 64-bit size can say.\<close>

definition fs_sizes_ok :: "fsys \<Rightarrow> bool" where
  "fs_sizes_ok f \<longleftrightarrow> (\<forall>p c m. nodes f p = Some (FileN c m) \<longrightarrow> length c < 2 ^ 64)"

text \<open>Opening for reading without following links, on every kind of entry.\<close>

lemma open_nofollow_cases:
  assumes "fs_open full [O_RDONLY, O_NOFOLLOW] f = (r, f')"
  obtains (fail) e where "r = Inl e" "nodes f' = nodes f" "fds f' = fds f" "next_fd f' = next_fd f"
      "set (fs_sched f') \<subseteq> set (fs_sched f)"
      "fs_quiet f \<Longrightarrow> nodes f (canon full) = None \<or> (\<exists>t m. nodes f (canon full) = Some (SymlinkN t m))"
  | (ok) fd n where "r = Inr fd" "fd = int (next_fd f)" "nodes f (canon full) = Some n" "\<not> is_symlink n"
      "nodes f' = nodes f" "fds f' = (fds f)(fd \<mapsto> \<lparr>of_path = canon full, of_pos = 0\<rparr>)"
      "next_fd f' = Suc (next_fd f)" "set (fs_sched f') \<subseteq> set (fs_sched f)"
proof -
  obtain ev g where pop: "fs_pop f = (ev, g)" by fastforce
  then obtain es where g: "g = f\<lparr>fs_sched := es\<rparr>" "set es \<subseteq> set (fs_sched f)" by (rule fs_popE)
  have q: "\<not> fs_quiet f \<or> (\<forall>e. ev \<noteq> FsFail e)" using fs_quiet_no_fail [OF _ pop] by auto
  show thesis
    using assms fail ok g q pop
    by (auto simp: fs_open_def posix_open_def open_node_def new_fd_def Let_def
        split: fs_event.splits option.splits node.splits)
qed

lemma posix_fstat_effect:
  assumes "posix_fstat fd f = (r, f')"
  shows "nodes f' = nodes f" "fds f' = fds f" "next_fd f' = next_fd f"
    "set (fs_sched f') \<subseteq> set (fs_sched f)"
    and "fds f fd = Some o' \<Longrightarrow> r = Inr n \<Longrightarrow> nodes f (of_path o') = Some n"
    and "fs_quiet f \<Longrightarrow> fds f fd = Some o' \<Longrightarrow> nodes f (of_path o') = Some n \<Longrightarrow> r = Inr n"
  using assms fs_quiet_no_fail [of f]
  by (auto simp: posix_fstat_def elim!: fs_popE split: prod.splits fs_event.splits option.splits)

lemma app_prepare_download_effect:
  assumes "app_prepare_download base target f = (r, f')" and "fs_ok f"
  shows "r = Inl e \<Longrightarrow> nodes f' = nodes f \<and> fds f' = fds f \<and> fs_ok f' \<and>
      set (fs_sched f') \<subseteq> set (fs_sched f)"
    and "r = Inr dl \<Longrightarrow> \<exists>full c. fs_join_relative_path 4096 base (Some target) = Some full \<and>
      (\<exists>m. nodes f (canon full) = Some (FileN c m)) \<and> download_opened full c f dl f'"
    and "fs_quiet f \<Longrightarrow> fs_join_relative_path 4096 base (Some target) = Some full \<Longrightarrow>
      nodes f (canon full) = Some (FileN c m) \<Longrightarrow> \<exists>dl. r = Inr dl"
proof -
  have "(\<forall>e. r = Inl e \<longrightarrow> nodes f' = nodes f \<and> fds f' = fds f \<and> fs_ok f' \<and>
      set (fs_sched f') \<subseteq> set (fs_sched f)) \<and>
    (\<forall>dl. r = Inr dl \<longrightarrow> (\<exists>full c. fs_join_relative_path 4096 base (Some target) = Some full \<and>
      (\<exists>m. nodes f (canon full) = Some (FileN c m)) \<and> download_opened full c f dl f')) \<and>
    (fs_quiet f \<longrightarrow> fs_join_relative_path 4096 base (Some target) = Some full \<longrightarrow>
      nodes f (canon full) = Some (FileN c m) \<longrightarrow> (\<exists>dl. r = Inr dl))"
  proof (cases "fs_join_relative_path 4096 base (Some target)")
    case None
    with assms show ?thesis by (auto simp: app_prepare_download_def)
  next
    case (Some full')
    obtain x g where op: "fs_open full' [O_RDONLY, O_NOFOLLOW] f = (x, g)" by fastforce
    from op show ?thesis
    proof (cases rule: open_nofollow_cases)
      case (fail e)
      with assms Some op have "r = Inl PROTOCOL_ERR_IO" "f' = g"
        by (auto simp: app_prepare_download_def)
      with fail assms(2) Some show ?thesis by (auto simp: fs_ok_def)
    next
      case (ok fd n)
      obtain y h where st: "posix_fstat fd g = (y, h)" by fastforce
      note fe = posix_fstat_effect [OF st]
      define k where "k = snd (fs_close fd h)"
      note ce = fs_close_effect [of fd h "fst (fs_close fd h)" k, unfolded k_def, simplified, folded k_def]
      have closed: "nodes k = nodes f \<and> fds k = fds f \<and> fs_ok k \<and> set (fs_sched k) \<subseteq> set (fs_sched f)"
        using ce fe ok assms(2) by (auto simp: fs_ok_def fun_eq_iff)
      show ?thesis
      proof (cases y)
        case (Inl e)
        with assms Some op ok st have "r = Inl PROTOCOL_ERR_IO" "f' = k"
          by (auto simp: app_prepare_download_def k_def)
        moreover have "\<not> fs_quiet f"
          using fe(6) [of "\<lparr>of_path = canon full', of_pos = 0\<rparr>" n] Inl ok fs_quiet_subset [of f g] by auto
        ultimately show ?thesis using closed by simp
      next
        case (Inr n')
        then have n: "n' = n" using fe(5) [of "\<lparr>of_path = canon full', of_pos = 0\<rparr>" n'] ok by simp
        show ?thesis
        proof (cases "is_file n")
          case True
          then obtain c' m' where c: "n = FileN c' m'" by (auto simp: is_file_def)
          with assms Some op ok st Inr n have r: "f' = h" "r = Inr \<lparr>dl_fd = fd, dl_info =
              \<lparr>info_kind = FS_PATH_KIND_FILE, info_size = of_nat (length c'), info_mtime = m'\<rparr>\<rparr>"
            by (auto simp: app_prepare_download_def)
          then have "\<forall>dl. r = Inr dl \<longrightarrow> download_opened full' c' f dl f'"
            using ok fe c by (auto simp: download_opened_def reading_def)
          with r Some ok c show ?thesis by auto
        next
          case False
          with assms Some op ok st Inr n have "r = Inl PROTOCOL_ERR_INVALID_ARGUMENT" "f' = k"
            by (auto simp: app_prepare_download_def k_def split: node.splits)
          with closed Some ok False show ?thesis by auto
        qed
      qed
    qed
  qed
  then show "r = Inl e \<Longrightarrow> nodes f' = nodes f \<and> fds f' = fds f \<and> fs_ok f' \<and>
      set (fs_sched f') \<subseteq> set (fs_sched f)"
    "r = Inr dl \<Longrightarrow> \<exists>full c. fs_join_relative_path 4096 base (Some target) = Some full \<and>
      (\<exists>m. nodes f (canon full) = Some (FileN c m)) \<and> download_opened full c f dl f'"
    "fs_quiet f \<Longrightarrow> fs_join_relative_path 4096 base (Some target) = Some full \<Longrightarrow>
      nodes f (canon full) = Some (FileN c m) \<Longrightarrow> \<exists>dl. r = Inr dl"
    by blast+
qed

end
