(* ===== verification/Cli.thy ===== *)
theory Cli
  imports Protocol
begin

text \<open>
  \<^verbatim>\<open>src/cli.h\<close> and \<^verbatim>\<open>src/cli.c\<close>: the options of the program. Pointers that may be
  \<^verbatim>\<open>NULL\<close> are options.
\<close>

datatype parse_result = PARSE_OK | PARSE_HELP | PARSE_ERR

datatype mode = server_mode | client_mode | status_mode | stop_mode

record opt =
  opt_mode :: mode
  opt_path :: "string option"
  opt_remote_path :: "string option"
  opt_output_path :: "string option"
  opt_message :: "string option"
  opt_ip :: string
  opt_port :: u16
  opt_msg_type :: byte

record client_opt =
  co_path :: "string option"
  co_remote_path :: "string option"
  co_output_path :: "string option"
  co_message :: "string option"
  co_ip :: string
  co_port :: u16
  co_msg_type :: byte

record server_opt =
  so_path :: string
  so_port :: u16
  so_pid :: int

end
