(* ===== verification/Server.thy ===== *)
theory Server
  imports App_Service Cli
begin

text \<open>
  \<^verbatim>\<open>src/server.c\<close>, the side of one connection: telling the protocols apart, reading the request
  header, and the three request handlers, each with every response it sends. The listener and the
  accounting of connections are in \<^verbatim>\<open>Conn_Tracker\<close>.
\<close>

section \<open>Definitions\<close>

datatype server_conn_kind =
  SERVER_CONN_KIND_INVALID | SERVER_CONN_KIND_HTTP | SERVER_CONN_KIND_PROTOCOL

definition server_detect_connection_kind :: "sock \<Rightarrow> server_conn_kind \<times> sock" where
  "server_detect_connection_kind s =
     (case recv_peek 8 s of
        (Inl e, s') \<Rightarrow> (SERVER_CONN_KIND_INVALID, s')
      | (Inr buf, s') \<Rightarrow>
          (if length buf < 2 then SERVER_CONN_KIND_INVALID
           else if buf ! 0 = ucast (drop_bit 8 HF_PROTOCOL_MAGIC) \<and>
                   buf ! 1 = ucast (HF_PROTOCOL_MAGIC AND 0xFF) then SERVER_CONN_KIND_PROTOCOL
           else if byte_of_char (CHR ''A'') \<le> buf ! 0 \<and> buf ! 0 \<le> byte_of_char (CHR ''Z'')
                then SERVER_CONN_KIND_HTTP
           else SERVER_CONN_KIND_PROTOCOL, s'))"

definition server_send_response ::
  "byte \<Rightarrow> byte \<Rightarrow> protocol_result \<Rightarrow> world \<Rightarrow> protocol_result \<times> world" where
  "server_send_response ph st code w =
     (case send_res_frame \<lparr>phase = ph, status = st, error_code = result_code code\<rparr> (sk w) of
        (r, s') \<Rightarrow> (r, w\<lparr>sk := s'\<rparr>))"

text \<open>The part of the text handler before the label \<^verbatim>\<open>SEND_RESPONSE\<close>: status and result.\<close>

definition server_take_text_message ::
  "protocol_header \<Rightarrow> world \<Rightarrow> (byte \<times> protocol_result) \<times> world" where
  "server_take_text_message proto_header w =
     (if payload_size proto_header > of_nat HF_PROTOCOL_MAX_TEXT_MESSAGE_SIZE
      then ((PROTO_STATUS_FAILED, PROTOCOL_ERR_MSG_TOO_LARGE), w)
      else
        let message_len = unat (payload_size proto_header) in
        case malloc w of
          (False, w1) \<Rightarrow> ((PROTO_STATUS_FAILED, PROTOCOL_ERR_ALLOC), w1)
        | (True, w1) \<Rightarrow>
           (case (if message_len > 0 then recv_all message_len (sk w1) else (0, [], sk w1)) of
              (n, message, s2) \<Rightarrow>
                let w2 = w1\<lparr>sk := s2\<rparr> in
                if n \<noteq> int message_len
                then ((PROTO_STATUS_FAILED, if n < 0 then PROTOCOL_ERR_IO else PROTOCOL_ERR_EOF), w2)
                else case app_submit_message (cstr (string_of_bytes message)) w2 of
                  (result, w3) \<Rightarrow>
                    if result \<noteq> PROTOCOL_OK then ((PROTO_STATUS_FAILED, result), w3)
                    else ((PROTO_STATUS_OK, PROTOCOL_OK), w3)))"

definition server_handle_text_message :: "protocol_header \<Rightarrow> world \<Rightarrow> int \<times> world" where
  "server_handle_text_message proto_header w =
     (case server_take_text_message proto_header w of
        ((st, result), w1) \<Rightarrow>
          (if result = PROTOCOL_OK then 0 else 1,
           snd (server_send_response PROTO_PHASE_FINAL st result w1)))"

text \<open>The upload handler from the READY response to the FINAL one.\<close>

definition server_store_upload ::
  "server_opt \<Rightarrow> string \<Rightarrow> u64 \<Rightarrow> world \<Rightarrow> protocol_result \<times> world" where
  "server_store_upload ser_opt file_name content_size w =
     (case server_send_response PROTO_PHASE_READY PROTO_STATUS_OK PROTOCOL_OK w of
        (result, w1) \<Rightarrow>
          if result \<noteq> PROTOCOL_OK then (result, w1)
          else (case app_receive_file (so_path ser_opt) file_name content_size
                      APP_UPLOAD_PROTOCOL 4096 w1 of
            (Inl e, w2) \<Rightarrow>
              (e, snd (server_send_response PROTO_PHASE_FINAL PROTO_STATUS_FAILED e w2))
          | (Inr saved_path, w2) \<Rightarrow>
              server_send_response PROTO_PHASE_FINAL PROTO_STATUS_OK PROTOCOL_OK w2))"

definition server_handle_file_transfer ::
  "server_opt \<Rightarrow> protocol_header \<Rightarrow> world \<Rightarrow> protocol_result \<times> world" where
  "server_handle_file_transfer ser_opt proto_header w =
     (if payload_size proto_header < proto_file_transfer_prefix_size 1
      then (PROTOCOL_ERR_INVALID_ARGUMENT,
            snd (server_send_response PROTO_PHASE_READY PROTO_STATUS_REJECTED
                   PROTOCOL_ERR_INVALID_ARGUMENT w))
      else case proto_recv_file_transfer_prefix w of
        (Inl e, w1) \<Rightarrow> (e, w1)
      | (Inr (file_name, content_size), w1) \<Rightarrow>
          if \<not> fs_validate_file_name file_name
          then (PROTOCOL_ERR_INVALID_FILE_NAME,
                snd (server_send_response PROTO_PHASE_READY PROTO_STATUS_REJECTED
                       PROTOCOL_ERR_INVALID_FILE_NAME w1))
          else
            let prefix_size = proto_file_transfer_prefix_size (of_nat (length file_name)) in
            if payload_size proto_header \<noteq> prefix_size + content_size
            then (PROTOCOL_ERR_PAYLOAD_SIZE_MISMATCH,
                  snd (server_send_response PROTO_PHASE_READY PROTO_STATUS_REJECTED
                         PROTOCOL_ERR_PAYLOAD_SIZE_MISMATCH w1))
            else server_store_upload ser_opt file_name content_size w1)"

text \<open>
  The blocks of the download handler after the file is open, up to the label \<^verbatim>\<open>CLEANUP\<close>.
\<close>

definition server_send_download ::
  "string \<Rightarrow> app_download \<Rightarrow> world \<Rightarrow> protocol_result \<times> world" where
  "server_send_download file_name download w =
     (case encode_res_frame \<lparr>phase = PROTO_PHASE_READY, status = PROTO_STATUS_OK,
              error_code = result_code PROTOCOL_OK\<rparr> of
        Inl e \<Rightarrow> (e, w)
      | Inr frame_buf \<Rightarrow>
         (case encode_file_prefix file_name (info_size (dl_info download)) of
            Inl e \<Rightarrow> (e, snd (server_send_response PROTO_PHASE_FINAL PROTO_STATUS_FAILED e w))
          | Inr prefix_buf \<Rightarrow>
             (case proto_send_payload (frame_buf @ prefix_buf) (sk w) of
                (result, s1) \<Rightarrow>
                  let w1 = w\<lparr>sk := s1\<rparr> in
                  if result \<noteq> PROTOCOL_OK then (result, w1)
                  else case net_send_file_best_effort (dl_fd download) (info_size (dl_info download)) w1 of
                    (send_res, w2) \<Rightarrow>
                      if send_res \<noteq> NET_SEND_FILE_OK
                      then (PROTOCOL_ERR_IO,
                            snd (server_send_response PROTO_PHASE_FINAL PROTO_STATUS_FAILED
                                   PROTOCOL_ERR_IO w2))
                      else server_send_response PROTO_PHASE_FINAL PROTO_STATUS_OK PROTOCOL_OK w2)))"

definition server_reject_get :: "protocol_result \<Rightarrow> world \<Rightarrow> protocol_result \<times> world" where
  "server_reject_get result w =
     (result, snd (server_send_response PROTO_PHASE_READY PROTO_STATUS_REJECTED result w))"

definition server_handle_get_file ::
  "server_opt \<Rightarrow> protocol_header \<Rightarrow> world \<Rightarrow> protocol_result \<times> world" where
  "server_handle_get_file ser_opt proto_header w =
     (if payload_size proto_header < proto_file_name_only_size 1
      then server_reject_get PROTOCOL_ERR_INVALID_ARGUMENT w
      else case proto_recv_file_name_only w of
        (Inl e, w1) \<Rightarrow> server_reject_get e w1
      | (Inr file_name, w1) \<Rightarrow>
          if \<not> fs_validate_file_name file_name
          then server_reject_get PROTOCOL_ERR_INVALID_FILE_NAME w1
          else if payload_size proto_header \<noteq> proto_file_name_only_size (of_nat (length file_name))
          then server_reject_get PROTOCOL_ERR_PAYLOAD_SIZE_MISMATCH w1
          else (case app_prepare_download (so_path ser_opt) file_name (fs w1) of
            (Inl e, f2) \<Rightarrow>
              server_reject_get (if e = PROTOCOL_ERR_IO then PROTOCOL_ERR_INVALID_ARGUMENT else e)
                (w1\<lparr>fs := f2\<rparr>)
          | (Inr download, f2) \<Rightarrow>
             (case server_send_download file_name download (w1\<lparr>fs := f2\<rparr>) of
                (result, w3) \<Rightarrow>
                  (result, w3\<lparr>fs := app_download_cleanup (dl_fd download) (fs w3)\<rparr>))))"

definition handle_protocol_connection :: "server_opt \<Rightarrow> world \<Rightarrow> int \<times> world" where
  "handle_protocol_connection ser_opt w =
     (case recv_header (sk w) of
        (Inl e, s1) \<Rightarrow> (1, w\<lparr>sk := s1\<rparr>)
      | (Inr header_buf, s1) \<Rightarrow>
          let w1 = w\<lparr>sk := s1\<rparr> in
          (case decode_header header_buf of
            Inl e \<Rightarrow> (1, w1)
          | Inr proto_header \<Rightarrow>
              if msg_type proto_header = HF_MSG_TYPE_TEXT_MESSAGE
              then server_handle_text_message proto_header w1
              else if msg_type proto_header = HF_MSG_TYPE_SEND_FILE
              then (case server_handle_file_transfer ser_opt proto_header w1 of
                      (r, w2) \<Rightarrow> (if r = PROTOCOL_OK then 0 else 1, w2))
              else if msg_type proto_header = HF_MSG_TYPE_GET_FILE
              then (case server_handle_get_file ser_opt proto_header w1 of
                      (r, w2) \<Rightarrow> (if r = PROTOCOL_OK then 0 else 1, w2))
              else (1, w1)))"

text \<open>
  The thread of one connection: \<open>http\<close> stands for \<^verbatim>\<open>handle_http_connection\<close>, whose result is
  not used.
\<close>

definition server_connection_thread_main ::
  "(server_opt \<Rightarrow> world \<Rightarrow> world) \<Rightarrow> server_opt \<Rightarrow> world \<Rightarrow> world" where
  "server_connection_thread_main http opt w =
     (case server_detect_connection_kind (sk w) of
        (kind, s1) \<Rightarrow>
          let w1 = w\<lparr>sk := s1\<rparr> in
          (case kind of
            SERVER_CONN_KIND_HTTP \<Rightarrow> http opt w1
          | SERVER_CONN_KIND_PROTOCOL \<Rightarrow> snd (handle_protocol_connection opt w1)
          | SERVER_CONN_KIND_INVALID \<Rightarrow> w1))"


section \<open>Responses\<close>

lemma server_send_response_effect:
  assumes "server_send_response ph st code w = (r, w')"
    and "proto_res_frame_valid (frame_of ph st code)" "0 \<le> sock_fd (sk w)"
  shows "tx_step w w'"
    and "r = PROTOCOL_OK \<Longrightarrow> tx_data (sk w') = tx_data (sk w) @ res_frame_bytes (frame_of ph st code)"
    and "tx_quiet (sk w) \<Longrightarrow> r = PROTOCOL_OK"
    and "\<exists>k. tx_data (sk w') = tx_data (sk w) @ take k (res_frame_bytes (frame_of ph st code))"
proof -
  obtain s1 where s: "send_res_frame (frame_of ph st code) (sk w) = (r, s1)" and w': "w' = w\<lparr>sk := s1\<rparr>"
    using assms(1) by (auto simp: server_send_response_def split: prod.splits)
  note e = send_res_frame_effect [OF s assms(2,3)]
  show "tx_step w w'" using e(1) by (auto simp: w' tx_step_def io_frame_def tx_only_def)
  show "r = PROTOCOL_OK \<Longrightarrow> tx_data (sk w') = tx_data (sk w) @ res_frame_bytes (frame_of ph st code)"
    using e(2) by (simp add: w')
  show "tx_quiet (sk w) \<Longrightarrow> r = PROTOCOL_OK" by (rule e(3))
  show "\<exists>k. tx_data (sk w') = tx_data (sk w) @ take k (res_frame_bytes (frame_of ph st code))"
    using e(4) by (simp add: w')
qed

text \<open>A frame sent without looking at the result.\<close>

lemma server_notify:
  assumes "proto_res_frame_valid (frame_of ph st code)" "0 \<le> sock_fd (sk w)"
  shows "tx_step w (snd (server_send_response ph st code w))"
    and "tx_quiet (sk w) \<Longrightarrow> tx_data (sk (snd (server_send_response ph st code w))) =
           tx_data (sk w) @ res_frame_bytes (frame_of ph st code)"
    and "\<exists>k. tx_data (sk (snd (server_send_response ph st code w))) =
           tx_data (sk w) @ take k (res_frame_bytes (frame_of ph st code))"
proof -
  obtain r w' where s: "server_send_response ph st code w = (r, w')" by fastforce
  note e = server_send_response_effect [OF s assms]
  show "tx_step w (snd (server_send_response ph st code w))" using e(1) s by simp
  show "tx_data (sk (snd (server_send_response ph st code w))) =
      tx_data (sk w) @ res_frame_bytes (frame_of ph st code)" if "tx_quiet (sk w)"
    using e(2,3) that s by simp
  show "\<exists>k. tx_data (sk (snd (server_send_response ph st code w))) =
      tx_data (sk w) @ take k (res_frame_bytes (frame_of ph st code))" using e(4) s by simp
qed

section \<open>Text messages\<close>

text \<open>
  What taking a text message does to the world: the store changes exactly when the result is OK, and
  then it holds the payload, cut at its first zero byte and trimmed.
\<close>

lemma server_take_text_message_effect:
  assumes "server_take_text_message h w = ((st, r), w')"
  shows "fs w' = fs w" "rx_only (sk w) (sk w')" "pid w' = pid w"
    and "st = (if r = PROTOCOL_OK then PROTO_STATUS_OK else PROTO_STATUS_FAILED)"
    and "r \<noteq> PROTOCOL_OK \<Longrightarrow> store w' = store w"
    and "r = PROTOCOL_OK \<Longrightarrow> \<exists>body. rx_data (sk w) = body @ rx_data (sk w') \<and>
      length body = unat (payload_size h) \<and> length body \<le> HF_PROTOCOL_MAX_TEXT_MESSAGE_SIZE \<and>
      ms_initialized (store w) \<and>
      store w' = (store w)\<lparr>ms_message := Some (ms_trimmed (cstr (string_of_bytes body))),
                          ms_version := ms_version (store w) + 1\<rparr>"
    and "rx_calm w \<Longrightarrow> ms_initialized (store w) \<Longrightarrow>
      unat (payload_size h) \<le> HF_PROTOCOL_MAX_TEXT_MESSAGE_SIZE \<Longrightarrow>
      unat (payload_size h) \<le> length (rx_data (sk w)) \<Longrightarrow> r = PROTOCOL_OK"
proof -
  let ?n = "unat (payload_size h)"
  have lt: "payload_size h > of_nat HF_PROTOCOL_MAX_TEXT_MESSAGE_SIZE \<longleftrightarrow>
      ?n > HF_PROTOCOL_MAX_TEXT_MESSAGE_SIZE"
    by (simp add: word_less_nat_alt HF_PROTOCOL_MAX_TEXT_MESSAGE_SIZE_def)
  obtain ok w1 where m: "malloc w = (ok, w1)" by fastforce
  obtain n body s2 where r2: "recv_all ?n (sk w1) = (n, body, s2)" by (metis prod_cases3)
  have r2': "(if ?n > 0 then recv_all ?n (sk w1) else (0, [], sk w1)) = (n, body, s2)"
    using r2 by (cases "?n = 0") (auto simp: recv_all_def recv_all_loop.simps [of 0])
  obtain x w3 where sub: "app_submit_message (cstr (string_of_bytes body)) (w1\<lparr>sk := s2\<rparr>) = (x, w3)"
    by fastforce
  note e1 = malloc_step [OF m] and e2 = recv_all_step [OF r2] and e3 = app_submit_message_effect [OF sub]
  have eq: "((st, r), w') =
      (if ?n > HF_PROTOCOL_MAX_TEXT_MESSAGE_SIZE then ((PROTO_STATUS_FAILED, PROTOCOL_ERR_MSG_TOO_LARGE), w)
       else if \<not> ok then ((PROTO_STATUS_FAILED, PROTOCOL_ERR_ALLOC), w1)
       else if n \<noteq> int ?n then ((PROTO_STATUS_FAILED,
         if n < 0 then PROTOCOL_ERR_IO else PROTOCOL_ERR_EOF), w1\<lparr>sk := s2\<rparr>)
       else if x \<noteq> PROTOCOL_OK then ((PROTO_STATUS_FAILED, x), w3)
       else ((PROTO_STATUS_OK, PROTOCOL_OK), w3))"
    unfolding assms [symmetric] by (cases ok)
      (simp_all add: server_take_text_message_def lt m r2' sub Let_def cong: if_cong split del: if_split)
  have s12: "rx_step w (w1\<lparr>sk := s2\<rparr>)" by (rule rx_step_trans [OF e1(1) e2(1)])
  then have w12: "fs w1 = fs w" "store w1 = store w" "pid w1 = pid w" "rx_only (sk w) s2"
    "set (mem w1) \<subseteq> set (mem w)"
    by (auto simp: rx_step_def io_frame_def)
  show "fs w' = fs w" "rx_only (sk w) (sk w')" "pid w' = pid w"
    "st = (if r = PROTOCOL_OK then PROTO_STATUS_OK else PROTO_STATUS_FAILED)"
    "r \<noteq> PROTOCOL_OK \<Longrightarrow> store w' = store w"
    using eq w12 e1(2) e3(1-3,7) by (auto split: if_splits)
  show "\<exists>body. rx_data (sk w) = body @ rx_data (sk w') \<and> length body = ?n \<and>
      length body \<le> HF_PROTOCOL_MAX_TEXT_MESSAGE_SIZE \<and> ms_initialized (store w) \<and>
      store w' = (store w)\<lparr>ms_message := Some (ms_trimmed (cstr (string_of_bytes body))),
                          ms_version := ms_version (store w) + 1\<rparr>" if "r = PROTOCOL_OK"
  proof -
    from that eq have c: "\<not> ?n > HF_PROTOCOL_MAX_TEXT_MESSAGE_SIZE" "n = int ?n" "x = PROTOCOL_OK" "w' = w3"
      by (auto split: if_splits)
    with e2(2) e3(1,6) e1(2) w12 show ?thesis by (intro exI [of _ body]) auto
  qed
  assume a: "rx_calm w" "ms_initialized (store w)" "?n \<le> HF_PROTOCOL_MAX_TEXT_MESSAGE_SIZE"
    "?n \<le> length (rx_data (sk w))"
  have ok by (rule e1(3) [OF a(1)])
  have n: "n = int ?n" using e2(3) rx_step_calm [OF e1(1) a(1)] a(4) e1(2) by simp
  with e2(2) have "length body = ?n" by simp
  then have len: "length (cstr (string_of_bytes body)) \<le> HF_PROTOCOL_MAX_TEXT_MESSAGE_SIZE"
    using length_cstr_le [of "string_of_bytes body"] a(3) by simp
  have "x = PROTOCOL_OK"
    by (rule e3(8)) (use a w12 len in \<open>auto simp: rx_calm_def\<close>)
  with eq a(3) \<open>ok\<close> n show "r = PROTOCOL_OK" by simp
qed


section \<open>Uploads\<close>

text \<open>
  The two ways an upload can leave the file system. \<open>upload_delivered\<close>: a valid request stood on the
  stream and its body is now the content of the file it names. \<open>upload_refused\<close>: nothing has changed
  (up to a temporary file that could not be removed).
\<close>

definition upload_delivered :: "string \<Rightarrow> protocol_header \<Rightarrow> world \<Rightarrow> world \<Rightarrow> bool" where
  "upload_delivered base h w w' \<longleftrightarrow>
     (\<exists>raw sz body full.
        let name = cstr (string_of_bytes raw) in
        0 < length raw \<and> length raw \<le> 255 \<and> fs_validate_file_name name \<and>
        payload_size h = of_nat (10 + length name) + sz \<and> length body = unat sz \<and>
        rx_data (sk w) = htons_bytes (of_nat (length raw)) @ raw @ encode_u64_be sz @ body @ rx_data (sk w') \<and>
        fs_join_relative_path 4096 base (Some name) = Some full \<and> delivered full body (fs w) (fs w'))"

definition body_refused :: "string \<Rightarrow> string \<Rightarrow> world \<Rightarrow> world \<Rightarrow> bool" where
  "body_refused base name w w' \<longleftrightarrow> fs w' = fs w \<or>
     (\<exists>full. fs_join_relative_path 4096 base (Some name) = Some full \<and>
        abandoned full (pid w) (fs w) (fs w'))"

definition upload_refused :: "string \<Rightarrow> world \<Rightarrow> world \<Rightarrow> bool" where
  "upload_refused base w w' \<longleftrightarrow>
     fs w' = fs w \<or> (\<exists>name. fs_validate_file_name name \<and> body_refused base name w w')"

lemma app_receive_file_not_ok:
  "app_receive_file base target n kind cap w = (Inl e, w') \<Longrightarrow> e \<noteq> PROTOCOL_OK"
  using transfer_recv_with_not_ok
  by (auto simp: app_receive_file_def transfer_recv_socket_file_def transfer_recv_socket_http_file_def
      split: if_splits app_upload_kind.splits)


text \<open>The body of an accepted upload is in place, and consumed from the stream.\<close>

definition body_delivered :: "string \<Rightarrow> string \<Rightarrow> u64 \<Rightarrow> world \<Rightarrow> world \<Rightarrow> bool" where
  "body_delivered base name sz w w' \<longleftrightarrow>
     (\<exists>full. fs_join_relative_path 4096 base (Some name) = Some full \<and>
        unat sz \<le> length (rx_data (sk w)) \<and>
        delivered full (take (unat sz) (rx_data (sk w))) (fs w) (fs w') \<and>
        rx_data (sk w') = drop (unat sz) (rx_data (sk w)))"

lemma server_store_upload_effect:
  assumes run: "server_store_upload opt name sz w = (r, w')"
    and ok: "fs_ok (fs w)" "\<not> splice_direct w" "0 \<le> sock_fd (sk w)"
  shows "r = PROTOCOL_OK \<Longrightarrow> body_delivered (so_path opt) name sz w w'"
    and "body_delivered (so_path opt) name sz w w' \<or> body_refused (so_path opt) name w w'"
    and "store w' = store w"
proof -
  obtain r1 w1 where s1: "server_send_response PROTO_PHASE_READY PROTO_STATUS_OK PROTOCOL_OK w = (r1, w1)"
    by fastforce
  note t1 = tx_step_D [OF server_send_response_effect(1) [OF s1 frame_of_valid(1) ok(3)]]
  obtain x w2 where rcv: "app_receive_file (so_path opt) name sz APP_UPLOAD_PROTOCOL 4096 w1 = (x, w2)"
    by fastforce
  have dn: "transfer_done (so_path opt) name sz w1 x w2"
    by (rule app_receive_file_done [OF rcv]) (use ok t1 in auto)
  then have fd2: "0 \<le> sock_fd (sk w2)" "store w2 = store w"
    using ok(3) t1 by (auto simp: transfer_done_def rx_only_def io_frame_def)
  have "(r = PROTOCOL_OK \<longrightarrow> body_delivered (so_path opt) name sz w w') \<and>
    (body_delivered (so_path opt) name sz w w' \<or> body_refused (so_path opt) name w w') \<and> store w' = store w"
  proof (cases "r1 = PROTOCOL_OK")
    case False
    with run s1 t1 show ?thesis by (auto simp: server_store_upload_def body_refused_def)
  next
    case True
    show ?thesis
    proof (cases x)
      case (Inl e)
      then have e: "e \<noteq> PROTOCOL_OK" using rcv app_receive_file_not_ok by blast
      with Inl True run s1 rcv have
        "r = e" "w' = snd (server_send_response PROTO_PHASE_FINAL PROTO_STATUS_FAILED e w2)"
        by (auto simp: server_store_upload_def)
      moreover note t2 = tx_step_D [OF server_notify(1) [OF frame_of_valid(4) [OF e] fd2(1)]]
      ultimately show ?thesis
        using dn Inl e t1 t2 fd2 by (auto simp: transfer_done_def body_refused_def split: option.splits)
    next
      case (Inr p)
      with True run s1 rcv have
        s3: "server_send_response PROTO_PHASE_FINAL PROTO_STATUS_OK PROTOCOL_OK w2 = (r, w')"
        by (auto simp: server_store_upload_def)
      note t3 = tx_step_D [OF server_send_response_effect(1) [OF s3 frame_of_valid(2) fd2(1)]]
      have "body_delivered (so_path opt) name sz w w'"
        using dn Inr t1 t3 by (auto simp: transfer_done_def body_delivered_def split: option.splits)
      with t3 fd2 show ?thesis by simp
    qed
  qed
  then show "r = PROTOCOL_OK \<Longrightarrow> body_delivered (so_path opt) name sz w w'"
    "body_delivered (so_path opt) name sz w w' \<or> body_refused (so_path opt) name w w'" "store w' = store w" by blast+
qed

text \<open>The destination and its temporary name are usable.\<close>

definition upload_ready :: "string \<Rightarrow> string \<Rightarrow> world \<Rightarrow> bool" where
  "upload_ready base name w \<longleftrightarrow>
     fs_ok (fs w) \<and> \<not> splice_direct w \<and> 0 \<le> sock_fd (sk w) \<and>
     (case fs_join_relative_path 4096 base (Some name) of
        None \<Rightarrow> False
      | Some full \<Rightarrow>
          (case nodes (fs w) (canon full) of Some n \<Rightarrow> \<not> is_dir n | None \<Rightarrow> True) \<and>
          (case fs_build_temp_path 4096 full (pid w) 0 of
             None \<Rightarrow> False | Some tmp \<Rightarrow> nodes (fs w) (canon tmp) = None))"

lemma server_store_upload_succeeds:
  assumes run: "server_store_upload opt name sz w = (r, w')"
    and rdy: "upload_ready (so_path opt) name w"
    and calm: "rx_calm w" "tx_quiet (sk w)" "unat sz \<le> length (rx_data (sk w))"
  shows "r = PROTOCOL_OK"
    and "tx_data (sk w') = tx_data (sk w) @
      res_frame_bytes (frame_of PROTO_PHASE_READY PROTO_STATUS_OK PROTOCOL_OK) @
      res_frame_bytes (frame_of PROTO_PHASE_FINAL PROTO_STATUS_OK PROTOCOL_OK)"
proof -
  from rdy obtain full tmp where
    ok: "fs_ok (fs w)" "\<not> splice_direct w" "0 \<le> sock_fd (sk w)" and
    full: "fs_join_relative_path 4096 (so_path opt) (Some name) = Some full"
      "\<forall>m. nodes (fs w) (canon full) \<noteq> Some (DirN m)" and
    tmp: "fs_build_temp_path 4096 full (pid w) 0 = Some tmp" "nodes (fs w) (canon tmp) = None"
    by (auto simp: upload_ready_def is_dir_def split: option.splits)
  have len: "length full < 4096"
    using full(1) by (auto simp: fs_join_relative_path_def snprintf_checked_def fs_join_path_def Let_def
        split: if_splits)
  obtain r1 w1 where s1: "server_send_response PROTO_PHASE_READY PROTO_STATUS_OK PROTOCOL_OK w = (r1, w1)"
    by fastforce
  note e1 = server_send_response_effect [OF s1 frame_of_valid(1) ok(3)]
  note t1 = tx_step_D [OF e1(1)]
  obtain x w2 where rcv: "app_receive_file (so_path opt) name sz APP_UPLOAD_PROTOCOL 4096 w1 = (x, w2)"
    by fastforce
  then have rcv': "transfer_recv_socket_file (so_path opt) name sz 4096 w1 = (x, w2)"
    by (simp add: app_receive_file_def)
  have x: "x = Inr full"
    by (rule transfer_recv_socket_file_succeeds [OF rcv'])
      (use ok full tmp len t1 calm tx_step_rx_calm [OF e1(1)] in auto)
  have dn: "transfer_done (so_path opt) name sz w1 x w2"
    by (rule app_receive_file_done [OF rcv]) (use ok t1 in auto)
  then have w2: "0 \<le> sock_fd (sk w2)" "tx_data (sk w2) = tx_data (sk w1)" "tx_quiet (sk w2)"
    using ok(3) t1 calm(2) tx_step_tx_quiet [OF e1(1)]
    by (auto simp: transfer_done_def rx_only_def tx_quiet_def)
  have r1: "r1 = PROTOCOL_OK" by (rule e1(3) [OF calm(2)])
  with run s1 rcv x have
    s3: "server_send_response PROTO_PHASE_FINAL PROTO_STATUS_OK PROTOCOL_OK w2 = (r, w')"
    by (auto simp: server_store_upload_def)
  note e3 = server_send_response_effect [OF s3 frame_of_valid(2) w2(1)]
  show "r = PROTOCOL_OK" by (rule e3(3) [OF w2(3)])
  then show "tx_data (sk w') = tx_data (sk w) @
      res_frame_bytes (frame_of PROTO_PHASE_READY PROTO_STATUS_OK PROTOCOL_OK) @
      res_frame_bytes (frame_of PROTO_PHASE_FINAL PROTO_STATUS_OK PROTOCOL_OK)"
    using e3(2) e1(2) [OF r1] w2(2) by simp
qed


lemma server_handle_file_transfer_cases:
  assumes "server_handle_file_transfer opt h w = (r, w')" and fd: "0 \<le> sock_fd (sk w)"
  obtains
    (reject) w1 where "rx_step w w1" "tx_step w1 w'" "r \<noteq> PROTOCOL_OK"
      "tx_quiet (sk w) \<longrightarrow> w' = w1 \<or>
         tx_data (sk w') = tx_data (sk w) @ res_frame_bytes (frame_of PROTO_PHASE_READY PROTO_STATUS_REJECTED r)"
      "\<exists>k. tx_data (sk w') = tx_data (sk w) @
         take k (res_frame_bytes (frame_of PROTO_PHASE_READY PROTO_STATUS_REJECTED r))"
  | (accept) raw sz w1 where "rx_step w w1" "0 < length raw" "length raw \<le> 255"
      "fs_validate_file_name (cstr (string_of_bytes raw))"
      "payload_size h = of_nat (10 + length (cstr (string_of_bytes raw))) + sz"
      "rx_data (sk w) = htons_bytes (of_nat (length raw)) @ raw @ encode_u64_be sz @ rx_data (sk w1)"
      "server_store_upload opt (cstr (string_of_bytes raw)) sz w1 = (r, w')"
proof (cases "payload_size h < proto_file_transfer_prefix_size 1")
  case True
  with assms(1) have "r = PROTOCOL_ERR_INVALID_ARGUMENT" "w' = snd (server_send_response
      PROTO_PHASE_READY PROTO_STATUS_REJECTED PROTOCOL_ERR_INVALID_ARGUMENT w)"
    by (auto simp: server_handle_file_transfer_def)
  with server_notify [OF frame_of_valid(3) fd] show thesis
    by (intro reject [of w]) (auto simp del: result_code.simps)
next
  case False
  obtain x w1 where p: "proto_recv_file_transfer_prefix w = (x, w1)" by fastforce
  note e = proto_recv_file_transfer_prefix_effect [OF p]
  have fd1: "0 \<le> sock_fd (sk w1)" and tq: "tx_quiet (sk w1) = tx_quiet (sk w)"
    and td: "tx_data (sk w1) = tx_data (sk w)"
    using fd rx_step_sock_fd [OF e(1)] rx_step_tx_quiet [OF e(1)] e(1) by (auto simp: rx_step_def rx_only_def)
  show thesis
  proof (cases x)
    case (Inl err)
    with assms(1) False p have "r = err" "w' = w1" by (auto simp: server_handle_file_transfer_def)
    moreover have "err \<noteq> PROTOCOL_OK" using p Inl by (rule proto_recv_prefix_not_ok)
    ultimately show thesis using e(1) td by (intro reject [of w1]) (auto intro: exI [of _ 0])
  next
    case (Inr nm)
    then obtain name sz where x: "x = Inr (name, sz)" by (cases nm) auto
    from e(2) [OF x] obtain raw where raw: "0 < length raw" "length raw \<le> 255"
      "name = cstr (string_of_bytes raw)"
      "rx_data (sk w) = htons_bytes (of_nat (length raw)) @ raw @ encode_u64_be sz @ rx_data (sk w1)" by blast
    have ps: "proto_file_transfer_prefix_size (of_nat (length name)) = of_nat (10 + length name)"
      using raw length_cstr_le [of "string_of_bytes raw"] by (intro prefix_size_word(1)) simp
    let ?code = "if \<not> fs_validate_file_name name then PROTOCOL_ERR_INVALID_FILE_NAME
      else PROTOCOL_ERR_PAYLOAD_SIZE_MISMATCH"
    show thesis
    proof (cases "fs_validate_file_name name \<and> payload_size h = of_nat (10 + length name) + sz")
      case True
      with assms(1) False p x ps have "server_store_upload opt name sz w1 = (r, w')"
        by (auto simp: server_handle_file_transfer_def)
      with True raw e(1) show thesis by (intro accept [of w1 raw sz]) auto
    next
      case rej: False
      with assms(1) False p x ps have "r = ?code"
        "w' = snd (server_send_response PROTO_PHASE_READY PROTO_STATUS_REJECTED ?code w1)"
        by (auto simp: server_handle_file_transfer_def split: if_splits)
      with server_notify [OF frame_of_valid(3) fd1, of ?code] e(1) tq td show thesis
        by (intro reject [of w1]) auto
    qed
  qed
qed

lemma server_handle_file_transfer_effect:
  assumes run: "server_handle_file_transfer opt h w = (r, w')"
    and ok: "fs_ok (fs w)" "\<not> splice_direct w" "0 \<le> sock_fd (sk w)"
  shows "r = PROTOCOL_OK \<Longrightarrow> upload_delivered (so_path opt) h w w'"
    and "upload_delivered (so_path opt) h w w' \<or> upload_refused (so_path opt) w w'"
    and "store w' = store w"
proof -
  have "(r = PROTOCOL_OK \<longrightarrow> upload_delivered (so_path opt) h w w') \<and>
    (upload_delivered (so_path opt) h w w' \<or> upload_refused (so_path opt) w w') \<and> store w' = store w"
    using run ok(3)
  proof (cases rule: server_handle_file_transfer_cases)
    case (reject w1)
    then show ?thesis
      using rx_step_D [of w w1] tx_step_D [of w1 w'] by (auto simp: upload_refused_def)
  next
    case (accept raw sz w1)
    note d = rx_step_D [OF accept(1)]
    have ok1: "fs_ok (fs w1)" "\<not> splice_direct w1" "0 \<le> sock_fd (sk w1)" using ok d by auto
    note su = server_store_upload_effect [OF accept(7) ok1]
    have "upload_delivered (so_path opt) h w w'"
      if "body_delivered (so_path opt) (cstr (string_of_bytes raw)) sz w1 w'"
    proof -
      from that obtain full where "fs_join_relative_path 4096 (so_path opt) (Some (cstr (string_of_bytes raw))) = Some full"
        "unat sz \<le> length (rx_data (sk w1))"
        "delivered full (take (unat sz) (rx_data (sk w1))) (fs w1) (fs w')"
        "rx_data (sk w') = drop (unat sz) (rx_data (sk w1))" by (auto simp: body_delivered_def)
      with accept(2-6) d show ?thesis
        unfolding upload_delivered_def Let_def
        by (intro exI [of _ raw] exI [of _ sz] exI [of _ "take (unat sz) (rx_data (sk w1))"] exI [of _ full]) simp
    qed
    with su d accept(4) show ?thesis by (auto simp: upload_refused_def body_refused_def)
  qed
  then show "r = PROTOCOL_OK \<Longrightarrow> upload_delivered (so_path opt) h w w'"
    "upload_delivered (so_path opt) h w w' \<or> upload_refused (so_path opt) w w'" "store w' = store w" by blast+
qed


section \<open>Downloads\<close>

text \<open>Sending a file reads it and writes the connection.\<close>

lemma server_send_download_effect:
  assumes run: "server_send_download name dl w = (r, w')"
    and rd: "reading (fs w) (dl_fd dl) p 0 c" "info_size (dl_info dl) = of_nat (length c)"
      "length c < 2 ^ 64" "0 \<le> dl_fd dl"
    and nm: "0 < length name" "length name \<le> 255" and fd: "0 \<le> sock_fd (sk w)"
  shows "dl_step (dl_fd dl) w w'"
    and "r = PROTOCOL_OK \<Longrightarrow> tx_data (sk w') = tx_data (sk w) @ download_bytes name c"
    and "tx_quiet (sk w) \<Longrightarrow> r = PROTOCOL_OK"
    and "(\<exists>k. tx_data (sk w') = tx_data (sk w) @ take k (download_bytes name c)) \<or>
      (\<exists>k \<le> length c. \<exists>j. tx_data (sk w') = tx_data (sk w) @
         res_frame_bytes (frame_of PROTO_PHASE_READY PROTO_STATUS_OK PROTOCOL_OK) @
         htons_bytes (of_nat (length name)) @ bytes_of_string name @ encode_u64_be (of_nat (length c)) @ take k c @
         take j (res_frame_bytes (frame_of PROTO_PHASE_FINAL PROTO_STATUS_FAILED PROTOCOL_ERR_IO)))"
proof -
  let ?sz = "of_nat (length c) :: u64" and ?fd = "dl_fd dl"
  let ?ready = "res_frame_bytes (frame_of PROTO_PHASE_READY PROTO_STATUS_OK PROTOCOL_OK)"
  let ?pre = "htons_bytes (of_nat (length name)) @ bytes_of_string name @ encode_u64_be ?sz"
  have sz: "unat ?sz = length c" using rd(3) by (simp add: unat_of_nat)
  obtain r1 s1 where s1: "proto_send_payload (?ready @ ?pre) (sk w) = (r1, s1)" by fastforce
  let ?w1 = "w\<lparr>sk := s1\<rparr>"
  obtain r2 w2 where s2: "net_send_file_best_effort ?fd ?sz ?w1 = (r2, w2)" by fastforce
  obtain r3 w3 where s3: "server_send_response PROTO_PHASE_FINAL PROTO_STATUS_OK PROTOCOL_OK w2 = (r3, w3)"
    by fastforce
  have eq: "(r, w') = (if r1 \<noteq> PROTOCOL_OK then (r1, ?w1)
      else if r2 \<noteq> NET_SEND_FILE_OK then (PROTOCOL_ERR_IO,
        snd (server_send_response PROTO_PHASE_FINAL PROTO_STATUS_FAILED PROTOCOL_ERR_IO w2))
      else (r3, w3))"
    unfolding run [symmetric]
    using s1 s2 s3 rd(2) encode_file_prefix_bytes(1) [OF nm, of ?sz]
      encode_res_frame_bytes [OF frame_of_valid(1)]
    by (simp add: server_send_download_def Let_def cong: if_cong del: result_code.simps)
  note e1 = proto_send_payload_effect [OF s1 fd]
  have d1: "dl_step ?fd w ?w1" using e1(1) by (auto simp: dl_step_def io_frame_def tx_only_def)
  have rd1: "reading (fs ?w1) ?fd p 0 c" using rd(1) by simp
  have sf: "sends_from c 0 (length c) ?fd ?w1 (r2 = NET_SEND_FILE_OK) w2"
    using net_send_file_best_effort_effect [OF s2 rd1] sz by simp
  then have d2: "dl_step ?fd ?w1 w2" by (auto simp: sends_from_def dl_step_def)
  have fd2: "0 \<le> sock_fd (sk w2)" using dl_step_sock_fd [OF d1] dl_step_sock_fd [OF d2] fd by simp
  note e3 = server_send_response_effect [OF s3 frame_of_valid(2) fd2]
  have d2': "dl_step ?fd w w2" by (rule dl_step_trans [OF d1 d2])
  have "dl_step ?fd w w3" by (rule dl_step_trans [OF d2' tx_step_dl_step [OF e3(1)]])
  moreover have "dl_step ?fd w (snd (server_send_response PROTO_PHASE_FINAL PROTO_STATUS_FAILED
      PROTOCOL_ERR_IO w2))"
    by (rule dl_step_trans [OF d2' tx_step_dl_step [OF server_notify(1) [OF frame_of_valid(4) fd2]]]) simp
  ultimately show "dl_step ?fd w w'" using eq d1 by (simp split: if_splits)
  show "tx_data (sk w') = tx_data (sk w) @ download_bytes name c" if "r = PROTOCOL_OK"
  proof -
    from that eq have "r1 = PROTOCOL_OK" "r2 = NET_SEND_FILE_OK" "r3 = PROTOCOL_OK" "w' = w3"
      by (auto split: if_splits)
    with e1(2) sf e3(2) show ?thesis by (auto simp: sends_from_def download_bytes_def)
  qed
  show "r = PROTOCOL_OK" if q: "tx_quiet (sk w)"
  proof -
    have "r2 = NET_SEND_FILE_OK"
      by (rule net_send_file_best_effort_quiet [OF _ rd1 _ _ rd(4) s2])
        (use dl_step_quiet [OF d1 q] sz fd dl_step_sock_fd [OF d1] in \<open>auto simp: is_socket_invalid_def\<close>)
    then show ?thesis using eq e1(3) [OF q] e3(3) [OF dl_step_quiet [OF d2' q]] by auto
  qed
  let ?failed = "res_frame_bytes (frame_of PROTO_PHASE_FINAL PROTO_STATUS_FAILED PROTOCOL_ERR_IO)"
    and ?final = "res_frame_bytes (frame_of PROTO_PHASE_FINAL PROTO_STATUS_OK PROTOCOL_OK)"
  have all: "download_bytes name c = (?ready @ ?pre) @ c @ ?final" by (simp add: download_bytes_def)
  consider "r1 \<noteq> PROTOCOL_OK" "w' = ?w1"
    | "r1 = PROTOCOL_OK" "r2 \<noteq> NET_SEND_FILE_OK"
      "w' = snd (server_send_response PROTO_PHASE_FINAL PROTO_STATUS_FAILED PROTOCOL_ERR_IO w2)"
    | "r1 = PROTOCOL_OK" "r2 = NET_SEND_FILE_OK" "w' = w3"
    using eq by (auto split: if_splits)
  then show "(\<exists>k. tx_data (sk w') = tx_data (sk w) @ take k (download_bytes name c)) \<or>
      (\<exists>k \<le> length c. \<exists>j. tx_data (sk w') = tx_data (sk w) @ ?ready @
         htons_bytes (of_nat (length name)) @ bytes_of_string name @ encode_u64_be (of_nat (length c)) @
         take k c @ take j ?failed)"
  proof cases
    case 1
    obtain k where k: "tx_data s1 = tx_data (sk w) @ take k (?ready @ ?pre)" using e1(4) by blast
    let ?k = "min k (length (?ready @ ?pre))"
    have "take ?k (download_bytes name c) = take k (?ready @ ?pre)" unfolding all by (simp add: min_def)
    then have "tx_data (sk w') = tx_data (sk w) @ take ?k (download_bytes name c)" using 1 k by simp
    then show ?thesis by blast
  next
    case 2
    obtain k where k: "k \<le> length c" "tx_data (sk w2) = tx_data s1 @ take k c"
      using sf by (auto simp: sends_from_def)
    obtain j where "tx_data (sk w') = tx_data (sk w2) @ take j ?failed"
      using server_notify(3) [OF frame_of_valid(4) fd2, of PROTOCOL_ERR_IO] 2(3) by (auto simp del: result_code.simps)
    with e1(2) [OF 2(1)] k show ?thesis by auto
  next
    case 3
    obtain j where "tx_data (sk w') = tx_data (sk w2) @ take j ?final" using e3(4) 3(3) by blast
    moreover have "tx_data (sk w2) = tx_data s1 @ c" using sf 3(2) by (auto simp: sends_from_def)
    moreover have "take (length ((?ready @ ?pre) @ c) + j) (download_bytes name c) = (?ready @ ?pre) @ c @ take j ?final"
      unfolding all by simp
    ultimately have "tx_data (sk w') = tx_data (sk w) @ take (length ((?ready @ ?pre) @ c) + j) (download_bytes name c)"
      using e1(2) [OF 3(1)] by simp
    then show ?thesis by blast
  qed
qed

text \<open>What a completed download has sent, and in answer to what.\<close>

definition download_sent :: "string \<Rightarrow> protocol_header \<Rightarrow> world \<Rightarrow> world \<Rightarrow> bool" where
  "download_sent base h w w' \<longleftrightarrow>
     (\<exists>raw full c m.
        let name = cstr (string_of_bytes raw) in
        0 < length raw \<and> length raw \<le> 255 \<and> fs_validate_file_name name \<and>
        payload_size h = of_nat (2 + length name) \<and>
        rx_data (sk w) = htons_bytes (of_nat (length raw)) @ raw @ rx_data (sk w') \<and>
        fs_join_relative_path 4096 base (Some name) = Some full \<and>
        nodes (fs w) (canon full) = Some (FileN c m) \<and>
        tx_data (sk w') = tx_data (sk w) @ download_bytes name c)"

lemma fs_close_same:
  assumes "only_reads fd f1 f2" "fds f fd = None" "\<forall>d. d \<noteq> fd \<longrightarrow> fds f1 d = fds f d" "nodes f1 = nodes f"
    "fd \<noteq> -1"
  shows "nodes (app_download_cleanup fd f2) = nodes f" "fds (app_download_cleanup fd f2) = fds f"
  using assms fs_close_effect [of fd f2 "fst (fs_close fd f2)" "snd (fs_close fd f2)"]
  by (auto simp: app_download_cleanup_def only_reads_def fun_eq_iff)


lemma server_reject_get_effect:
  assumes "server_reject_get code w = (r, w')" "code \<noteq> PROTOCOL_OK" "0 \<le> sock_fd (sk w)"
  shows "tx_step w w'" "r = code"
    and "tx_quiet (sk w) \<Longrightarrow> tx_data (sk w') = tx_data (sk w) @
      res_frame_bytes (frame_of PROTO_PHASE_READY PROTO_STATUS_REJECTED code)"
    and "\<exists>k. tx_data (sk w') = tx_data (sk w) @
      take k (res_frame_bytes (frame_of PROTO_PHASE_READY PROTO_STATUS_REJECTED code))"
  using assms server_notify [OF frame_of_valid(3)] by (auto simp: server_reject_get_def)

lemma app_prepare_download_not_ok:
  "app_prepare_download base target f = (Inl e, f') \<Longrightarrow> e \<noteq> PROTOCOL_OK"
  by (auto simp: app_prepare_download_def split: option.splits prod.splits sum.splits node.splits)

text \<open>The request parsed: rejected with one frame, or accepted with the file open.\<close>

lemma server_handle_get_file_cases:
  assumes "server_handle_get_file opt h w = (r, w')" and fd: "0 \<le> sock_fd (sk w)" and ok: "fs_ok (fs w)"
  obtains
    (reject) w1 where "rx_only (sk w) (sk w1)" "io_frame w w1" "nodes (fs w1) = nodes (fs w)"
      "fds (fs w1) = fds (fs w)" "tx_step w1 w'" "r \<noteq> PROTOCOL_OK"
      "tx_quiet (sk w) \<longrightarrow> tx_data (sk w') = tx_data (sk w) @
         res_frame_bytes (frame_of PROTO_PHASE_READY PROTO_STATUS_REJECTED r)"
      "\<exists>k. tx_data (sk w') = tx_data (sk w) @
         take k (res_frame_bytes (frame_of PROTO_PHASE_READY PROTO_STATUS_REJECTED r))"
  | (accept) raw dl w1 f2 full c m w3 where "rx_step w w1" "0 < length raw" "length raw \<le> 255"
      "fs_validate_file_name (cstr (string_of_bytes raw))"
      "payload_size h = of_nat (2 + length (cstr (string_of_bytes raw)))"
      "rx_data (sk w) = htons_bytes (of_nat (length raw)) @ raw @ rx_data (sk w1)"
      "fs_join_relative_path 4096 (so_path opt) (Some (cstr (string_of_bytes raw))) = Some full"
      "nodes (fs w) (canon full) = Some (FileN c m)" "download_opened full c (fs w) dl f2"
      "server_send_download (cstr (string_of_bytes raw)) dl (w1\<lparr>fs := f2\<rparr>) = (r, w3)"
      "w' = w3\<lparr>fs := app_download_cleanup (dl_fd dl) (fs w3)\<rparr>"
proof -
  obtain x w1 where p: "proto_recv_file_name_only w = (x, w1)" by fastforce
  note e = proto_recv_file_name_only_effect [OF p] and d = rx_step_D [OF proto_recv_file_name_only_effect(1) [OF p]]
  have rej: thesis if "server_reject_get code w2 = (r, w')" "code \<noteq> PROTOCOL_OK" "rx_only (sk w) (sk w2)"
      "io_frame w w2" "nodes (fs w2) = nodes (fs w)" "fds (fs w2) = fds (fs w)" for code w2
  proof -
    have "0 \<le> sock_fd (sk w2)" "tx_quiet (sk w2) = tx_quiet (sk w)" "tx_data (sk w2) = tx_data (sk w)"
      using that(3) fd by (auto simp: rx_only_def tx_quiet_def)
    with server_reject_get_effect [OF that(1,2)] that show thesis by (intro reject [of w2]) auto
  qed
  have w1: "rx_only (sk w) (sk w1)" "io_frame w w1" using e(1) by (auto simp: rx_step_def)
  show thesis
  proof (cases "payload_size h < proto_file_name_only_size 1")
    case True
    with assms(1) show thesis by (intro rej [of PROTOCOL_ERR_INVALID_ARGUMENT w])
        (auto simp: server_handle_get_file_def)
  next
    case big: False
    show thesis
    proof (cases x)
      case (Inl err)
      with assms(1) big p w1 d proto_recv_name_not_ok [OF p Inl] show thesis
        by (intro rej [of err w1]) (auto simp: server_handle_get_file_def)
    next
      case (Inr name)
      from e(2) [OF Inr] obtain raw where raw: "0 < length raw" "length raw \<le> 255"
        "name = cstr (string_of_bytes raw)"
        "rx_data (sk w) = htons_bytes (of_nat (length raw)) @ raw @ rx_data (sk w1)" by blast
      have ps: "proto_file_name_only_size (of_nat (length name)) = of_nat (2 + length name)"
        using raw length_cstr_le [of "string_of_bytes raw"] by (intro prefix_size_word(2)) simp
      obtain y f2 where dn: "app_prepare_download (so_path opt) name (fs w1) = (y, f2)" by fastforce
      have red: "(if \<not> fs_validate_file_name name then server_reject_get PROTOCOL_ERR_INVALID_FILE_NAME w1
        else if payload_size h \<noteq> of_nat (2 + length name)
        then server_reject_get PROTOCOL_ERR_PAYLOAD_SIZE_MISMATCH w1
        else case y of
          Inl e \<Rightarrow> server_reject_get (if e = PROTOCOL_ERR_IO then PROTOCOL_ERR_INVALID_ARGUMENT else e)
                     (w1\<lparr>fs := f2\<rparr>)
        | Inr dl \<Rightarrow> (case server_send_download name dl (w1\<lparr>fs := f2\<rparr>) of (result, w3) \<Rightarrow>
            (result, w3\<lparr>fs := app_download_cleanup (dl_fd dl) (fs w3)\<rparr>))) = (r, w')"
        unfolding assms(1) [symmetric] using big ps p Inr dn
        by (simp add: server_handle_get_file_def split del: if_split cong: if_cong)
      have ok1: "fs_ok (fs w1)" using ok d(1) by simp
      note de = app_prepare_download_effect [OF dn ok1]
      consider "\<not> fs_validate_file_name name"
        | "fs_validate_file_name name" "payload_size h \<noteq> of_nat (2 + length name)"
        | err where "fs_validate_file_name name" "payload_size h = of_nat (2 + length name)" "y = Inl err"
        | dl where "fs_validate_file_name name" "payload_size h = of_nat (2 + length name)" "y = Inr dl"
        by (cases y) auto
      then show thesis
      proof cases
        case 1
        with red w1 d show thesis by (intro rej [of PROTOCOL_ERR_INVALID_FILE_NAME w1]) auto
      next
        case 2
        with red w1 d show thesis by (intro rej [of PROTOCOL_ERR_PAYLOAD_SIZE_MISMATCH w1]) auto
      next
        case 3
        with red w1 d de(1) app_prepare_download_not_ok [OF dn [unfolded 3(3)]] show thesis
          by (intro rej [of "if err = PROTOCOL_ERR_IO then PROTOCOL_ERR_INVALID_ARGUMENT else err" "w1\<lparr>fs := f2\<rparr>"])
            (auto simp: io_frame_def)
      next
        case 4
        obtain r3 w3 where sd: "server_send_download name dl (w1\<lparr>fs := f2\<rparr>) = (r3, w3)" by fastforce
        with 4 red have "r = r3" "w' = w3\<lparr>fs := app_download_cleanup (dl_fd dl) (fs w3)\<rparr>" by auto
        with 4 de(2) [OF 4(3)] raw e(1) d sd show thesis by (auto intro: accept)
      qed
    qed
  qed
qed


lemma cstr_name_bounds:
  assumes "length raw \<le> 255" "fs_validate_file_name (cstr (string_of_bytes raw))"
  shows "0 < length (cstr (string_of_bytes raw))" "length (cstr (string_of_bytes raw)) \<le> 255"
  using assms length_cstr_le [of "string_of_bytes raw"]
  by (auto simp: fs_validate_file_name_def split: if_splits)

text \<open>A download never changes the file system, leaves no descriptor open, and when it reports OK
  it has sent the file the request names, whole.\<close>

lemma server_handle_get_file_effect:
  assumes run: "server_handle_get_file opt h w = (r, w')"
    and ok: "fs_ok (fs w)" "fs_sizes_ok (fs w)" "0 \<le> sock_fd (sk w)"
  shows "nodes (fs w') = nodes (fs w) \<and> fds (fs w') = fds (fs w) \<and> store w' = store w"
    and "r = PROTOCOL_OK \<Longrightarrow> download_sent (so_path opt) h w w'"
proof -
  have "(nodes (fs w') = nodes (fs w) \<and> fds (fs w') = fds (fs w) \<and> store w' = store w) \<and>
    (r = PROTOCOL_OK \<longrightarrow> download_sent (so_path opt) h w w')"
    using run ok(3,1)
  proof (cases rule: server_handle_get_file_cases)
    case (reject w1)
    then show ?thesis using tx_step_D [OF reject(5)] by (auto simp: io_frame_def)
  next
    case (accept raw dl w1 f2 full c m w3)
    note nb = cstr_name_bounds [OF accept(3,4)] and d = rx_step_D [OF accept(1)]
    from accept(9) have dl: "reading (fs (w1\<lparr>fs := f2\<rparr>)) (dl_fd dl) (canon full) 0 c"
      "info_size (dl_info dl) = of_nat (length c)" "0 \<le> dl_fd dl" "dl_fd dl = int (next_fd (fs w))"
      by (auto simp: download_opened_def)
    have len: "length c < 2 ^ 64" using ok(2) accept(8) by (auto simp: fs_sizes_ok_def)
    have fd: "0 \<le> sock_fd (sk (w1\<lparr>fs := f2\<rparr>))" using ok(3) d by simp
    note sd = server_send_download_effect [OF accept(10) dl(1,2) len dl(3) nb fd]
    have st: "only_reads (dl_fd dl) f2 (fs w3)" "tx_only (sk w1) (sk w3)" "store w3 = store w"
      using sd(1) d by (auto simp: dl_step_def io_frame_def)
    have none: "fds (fs w) (dl_fd dl) = None" using ok(1) dl(4) by (simp add: fs_ok_def)
    have same: "nodes (fs w') = nodes (fs w)" "fds (fs w') = fds (fs w)" "store w' = store w"
      using fs_close_same [OF st(1) none, of] accept(9,11) dl(3) st(3) by (auto simp: download_opened_def)
    have "download_sent (so_path opt) h w w'" if "r = PROTOCOL_OK"
      using accept(2-8,11) sd(2) [OF that] d st(2) unfolding download_sent_def Let_def
      by (intro exI [of _ raw] exI [of _ full] exI [of _ c] exI [of _ m]) (simp add: tx_only_def)
    with same show ?thesis by blast
  qed
  then show "nodes (fs w') = nodes (fs w) \<and> fds (fs w') = fds (fs w) \<and> store w' = store w"
    "r = PROTOCOL_OK \<Longrightarrow> download_sent (so_path opt) h w w'" by blast+
qed


section \<open>Whole connections\<close>

text \<open>A validated name is one component: the destination is an entry of the base directory itself.\<close>

lemma validated_name_canon:
  assumes "fs_validate_file_name name" "fs_join_relative_path cap base (Some name) = Some full" "base \<noteq> []"
  shows "canon full = canon base @ [name]" "normal_comp name"
proof -
  have n: "name \<noteq> []" "CHR ''/'' \<notin> set name"
    using assms(1) by (auto simp: fs_validate_file_name_def strchr_None_iff split: if_splits)
  have v: "fs_validate_relative_path name" "fs_join_path cap base name = Some full"
    using assms(2) n(1) by (auto simp: fs_join_relative_path_def split: if_splits)
  from v(1) obtain cs where cs: "cs \<noteq> []" "\<forall>c \<in> set cs. normal_comp c"
    "foldl push_comp [] (split_on (CHR ''/'') name) = [] @ cs" by (rule valid_relative_comps)
  then have "push_comp [] name = cs" using n(2) by (simp add: split_on_none)
  with cs(1,2) show "normal_comp name" by (auto simp: push_comp_def split: if_splits)
  moreover have "canon full = foldl push_comp (canon base) [name]"
    using fs_join_path_canon(1) [OF v(2) assms(3)] n(2) by (simp add: split_on_none)
  ultimately show "canon full = canon base @ [name]" by (simp add: push_comp_def normal_comp_def)
qed

lemma validated_temp_canon:
  assumes "fs_validate_file_name name" "fs_join_relative_path cap base (Some name) = Some full" "base \<noteq> []"
    and "fs_build_temp_path tcap full i a = Some tmp"
  shows "\<exists>c. canon tmp = canon base @ [c]"
proof -
  let ?suf = "''.tmp.'' @ show_int i @ ''.'' @ show_int a"
  have n: "CHR ''/'' \<notin> set name" "name \<noteq> []"
    using assms(1) by (auto simp: fs_validate_file_name_def strchr_None_iff split: if_splits)
  have tmp: "tmp = full @ ?suf"
    using assms(4) by (auto simp: fs_build_temp_path_def snprintf_checked_def split: if_splits)
  have "fs_join_path cap base name = Some full"
    using assms(2) n(2) by (auto simp: fs_join_relative_path_def split: if_splits)
  then have "fs_join_path (cap + length ?suf) base (name @ ?suf) = Some tmp"
    by (auto simp: fs_join_path_def snprintf_checked_def tmp Let_def split: if_splits)
  from fs_join_path_canon(1) [OF this assms(3)]
  have "canon tmp = foldl push_comp (canon base) (split_on (CHR ''/'') (name @ ?suf))" .
  moreover have "split_on (CHR ''/'') (name @ ?suf) = [name @ ?suf]"
    using n(1) show_int_no_slash by (intro split_on_none) auto
  moreover have "push_comp (canon base) (name @ ?suf) = canon base @ [name @ ?suf]"
    by (auto simp: push_comp_def append_eq_Cons_conv)
  ultimately show ?thesis by simp
qed


text \<open>At most one entry changed, an immediate entry of the base directory; no descriptor leaked.\<close>

definition fs_change_confined :: "string \<Rightarrow> fsys \<Rightarrow> fsys \<Rightarrow> bool" where
  "fs_change_confined base f f' \<longleftrightarrow> fds f' = fds f \<and>
     (\<exists>c. \<forall>p. p \<noteq> canon base @ [c] \<longrightarrow> nodes f' p = nodes f p)"

lemma fs_change_confined_same [simp, intro]:
  "nodes f' = nodes f \<Longrightarrow> fds f' = fds f \<Longrightarrow> fs_change_confined base f f'"
  by (simp add: fs_change_confined_def)

lemma upload_confined:
  assumes "upload_delivered base h w w' \<or> upload_refused base w w'" and "base \<noteq> []"
  shows "fs_change_confined base (fs w) (fs w')"
  using assms(1)
proof
  assume "upload_delivered base h w w'"
  then obtain name body full where "fs_validate_file_name name"
    "fs_join_relative_path 4096 base (Some name) = Some full" "delivered full body (fs w) (fs w')"
    by (auto simp: upload_delivered_def Let_def)
  with validated_name_canon(1) [OF this(1,2) assms(2)] show ?thesis
    by (auto simp: delivered_def fs_change_confined_def)
next
  assume "upload_refused base w w'"
  then consider "fs w' = fs w" | name full where "fs_validate_file_name name"
    "fs_join_relative_path 4096 base (Some name) = Some full" "abandoned full (pid w) (fs w) (fs w')"
    by (auto simp: upload_refused_def body_refused_def)
  then show ?thesis
  proof cases
    case 2
    then have same: "fds (fs w') = fds (fs w)" by (simp add: abandoned_def)
    show ?thesis
    proof (cases "nodes (fs w') = nodes (fs w)")
      case False
      with 2(3) obtain a tmp where t: "fs_build_temp_path 4096 full (pid w) (int a) = Some tmp"
        "\<forall>q. q \<noteq> canon tmp \<longrightarrow> nodes (fs w') q = nodes (fs w) q" by (auto simp: abandoned_def)
      from validated_temp_canon [OF 2(1,2) assms(2) t(1)] obtain c where "canon tmp = canon base @ [c]" ..
      with t(2) same show ?thesis unfolding fs_change_confined_def by (intro conjI exI [of _ c]) simp_all
    qed (use same in auto)
  qed simp
qed

lemma recv_header_step:
  assumes "recv_header (sk w) = (x, s1)"
  shows "rx_step w (w\<lparr>sk := s1\<rparr>)"
    and "x = Inr b \<Longrightarrow> length b = HF_PROTOCOL_HEADER_SIZE \<and> rx_data (sk w) = b @ rx_data s1"
proof -
  obtain n out s2 where r: "recv_all HF_PROTOCOL_HEADER_SIZE (sk w) = (n, out, s2)" by (metis prod_cases3)
  note e = recv_all_step [OF r]
  have n: "n \<le> int HF_PROTOCOL_HEADER_SIZE" using r by (rule recv_allE) auto
  show "rx_step w (w\<lparr>sk := s1\<rparr>)"
    using assms r e(1) by (auto simp: recv_header_def split: if_splits)
  show "length b = HF_PROTOCOL_HEADER_SIZE \<and> rx_data (sk w) = b @ rx_data s1" if "x = Inr b"
  proof -
    have "n = int HF_PROTOCOL_HEADER_SIZE" "b = out" "s1 = s2"
      using that assms r n by (auto simp: recv_header_def split: if_splits)
    with e(2) show ?thesis by simp
  qed
qed

lemma server_handle_text_message_effect:
  assumes "server_handle_text_message h w = (rc, w')" and "0 \<le> sock_fd (sk w)"
  obtains st r w1 where "server_take_text_message h w = ((st, r), w1)"
    "rc = (if r = PROTOCOL_OK then 0 else 1)" "tx_step w1 w'" "fs w' = fs w" "store w' = store w1"
    "tx_quiet (sk w) \<Longrightarrow> tx_data (sk w') = tx_data (sk w) @ res_frame_bytes (frame_of PROTO_PHASE_FINAL st r)"
    "\<exists>k. tx_data (sk w') = tx_data (sk w) @ take k (res_frame_bytes (frame_of PROTO_PHASE_FINAL st r))"
proof -
  obtain st r w1 where t: "server_take_text_message h w = ((st, r), w1)" by (metis surj_pair)
  note e = server_take_text_message_effect [OF t]
  have v: "proto_res_frame_valid (frame_of PROTO_PHASE_FINAL st r)"
    using e(4) frame_of_valid(2) frame_of_valid(4) [of r] by (cases "r = PROTOCOL_OK") simp_all
  have w1: "0 \<le> sock_fd (sk w1)" "tx_quiet (sk w1) = tx_quiet (sk w)" "tx_data (sk w1) = tx_data (sk w)"
    using e(2) assms(2) by (auto simp: rx_only_def tx_quiet_def)
  note n = server_notify [OF v w1(1)]
  have "w' = snd (server_send_response PROTO_PHASE_FINAL st r w1)" "rc = (if r = PROTOCOL_OK then 0 else 1)"
    using assms(1) t by (auto simp: server_handle_text_message_def)
  with that [OF t] n w1 e(1) tx_step_D [OF n(1)] show thesis by auto
qed

lemma handle_protocol_connection_cases:
  assumes "handle_protocol_connection opt w = (rc, w')" and ok: "0 \<le> sock_fd (sk w)"
  obtains
    (dead) "rc = 1" "rx_step w w'"
  | (message) h w1 where "header_valid h" "msg_type h = HF_MSG_TYPE_TEXT_MESSAGE" "rx_step w w1"
      "rx_data (sk w) = encode_header h @ rx_data (sk w1)" "server_handle_text_message h w1 = (rc, w')"
  | (upload) h w1 r where "header_valid h" "msg_type h = HF_MSG_TYPE_SEND_FILE" "rx_step w w1"
      "rx_data (sk w) = encode_header h @ rx_data (sk w1)" "server_handle_file_transfer opt h w1 = (r, w')"
      "rc = (if r = PROTOCOL_OK then 0 else 1)"
  | (download) h w1 r where "header_valid h" "msg_type h = HF_MSG_TYPE_GET_FILE" "rx_step w w1"
      "rx_data (sk w) = encode_header h @ rx_data (sk w1)" "server_handle_get_file opt h w1 = (r, w')"
      "rc = (if r = PROTOCOL_OK then 0 else 1)"
proof -
  obtain x s1 where rh: "recv_header (sk w) = (x, s1)" by fastforce
  note e = recv_header_step [OF rh]
  show thesis
  proof (cases x)
    case (Inl err)
    with assms(1) rh e(1) show thesis by (intro dead) (auto simp: handle_protocol_connection_def)
  next
    case (Inr b)
    note b = e(2) [OF Inr]
    show thesis
    proof (cases "decode_header b")
      case err: (Inl err)
      with assms(1) rh Inr e(1) show thesis by (intro dead) (auto simp: handle_protocol_connection_def)
    next
      case h: (Inr h)
      with b have hv: "header_valid h" "b = encode_header h" using hdr.dec_iff by auto
      then have rx: "rx_data (sk w) = encode_header h @ rx_data (sk (w\<lparr>sk := s1\<rparr>))" using b by simp
      have mt: "msg_type h = HF_MSG_TYPE_TEXT_MESSAGE \<or> msg_type h = HF_MSG_TYPE_SEND_FILE \<or>
          msg_type h = HF_MSG_TYPE_GET_FILE" using hv(1) by (auto simp: header_valid_def)
      have "(if msg_type h = HF_MSG_TYPE_TEXT_MESSAGE then server_handle_text_message h (w\<lparr>sk := s1\<rparr>)
        else if msg_type h = HF_MSG_TYPE_SEND_FILE
        then (case server_handle_file_transfer opt h (w\<lparr>sk := s1\<rparr>) of
                (r, w2) \<Rightarrow> (if r = PROTOCOL_OK then 0 else 1, w2))
        else (case server_handle_get_file opt h (w\<lparr>sk := s1\<rparr>) of
                (r, w2) \<Rightarrow> (if r = PROTOCOL_OK then 0 else 1, w2))) = (rc, w')"
        unfolding assms(1) [symmetric] using rh Inr h mt
        by (auto simp: handle_protocol_connection_def)
      with mt hv(1) e(1) rx show thesis
        by (auto split: if_splits prod.splits intro: message upload download)
    qed
  qed
qed


text \<open>
  Whatever bytes a peer sends and however the system calls go: outside one entry of the receive
  directory nothing in the file system changes, and the message store changes only by one accepted
  message.
\<close>

lemma handle_protocol_connection_safe:
  assumes "handle_protocol_connection opt w = (rc, w')"
    and ok: "fs_ok (fs w)" "fs_sizes_ok (fs w)" "\<not> splice_direct w" "0 \<le> sock_fd (sk w)"
      "so_path opt \<noteq> []"
  shows "fs_change_confined (so_path opt) (fs w) (fs w')"
    and "store w' = store w \<or> (\<exists>m. cstring m \<and> length m \<le> HF_PROTOCOL_MAX_TEXT_MESSAGE_SIZE \<and>
      store w' = (store w)\<lparr>ms_message := Some (ms_trimmed m), ms_version := ms_version (store w) + 1\<rparr>)"
proof -
  let ?C = "fs_change_confined (so_path opt) (fs w) (fs w')"
  let ?S = "store w' = store w \<or> (\<exists>m. cstring m \<and> length m \<le> HF_PROTOCOL_MAX_TEXT_MESSAGE_SIZE \<and>
      store w' = (store w)\<lparr>ms_message := Some (ms_trimmed m), ms_version := ms_version (store w) + 1\<rparr>)"
  have "?C \<and> ?S"
    using assms(1) ok(4)
  proof (cases rule: handle_protocol_connection_cases)
    case dead
    then show ?thesis using rx_step_D [OF dead(2)] by simp
  next
    case (message h w1)
    note d = rx_step_D [OF message(3)]
    from message(5) obtain st r w2 where t: "server_take_text_message h w1 = ((st, r), w2)"
      "fs w' = fs w1" "store w' = store w2"
      by (rule server_handle_text_message_effect) (use ok(4) d in auto)
    note e = server_take_text_message_effect [OF t(1)]
    have ?S
    proof (cases "r = PROTOCOL_OK")
      case True
      from e(6) [OF True] obtain body where "length body \<le> HF_PROTOCOL_MAX_TEXT_MESSAGE_SIZE"
        "store w2 = (store w1)\<lparr>ms_message := Some (ms_trimmed (cstr (string_of_bytes body))),
           ms_version := ms_version (store w1) + 1\<rparr>" by blast
      with t(3) d length_cstr_le [of "string_of_bytes body"] show ?thesis
        by (intro disjI2 exI [of _ "cstr (string_of_bytes body)"]) simp
    qed (use e(5) t(3) d in simp)
    with t(2) d show ?thesis by simp
  next
    case (upload h w1 r)
    note d = rx_step_D [OF upload(3)]
    have ok1: "fs_ok (fs w1)" "\<not> splice_direct w1" "0 \<le> sock_fd (sk w1)" using ok d by auto
    note e = server_handle_file_transfer_effect [OF upload(5) ok1]
    have "fs_change_confined (so_path opt) (fs w1) (fs w')" by (rule upload_confined [OF e(2) ok(5)])
    with e(3) d show ?thesis by simp
  next
    case (download h w1 r)
    note d = rx_step_D [OF download(3)]
    have ok1: "fs_ok (fs w1)" "fs_sizes_ok (fs w1)" "0 \<le> sock_fd (sk w1)" using ok d by auto
    note e = server_handle_get_file_effect [OF download(5) ok1]
    with d show ?thesis by simp
  qed
  then show ?C ?S by blast+
qed

section \<open>Requests that are carried out\<close>

lemma rx_step_fs_ready: "rx_step w w' \<Longrightarrow> upload_ready base name w' = upload_ready base name w"
  using rx_step_D [of w w'] by (simp add: upload_ready_def cong: option.case_cong)

text \<open>Reading the header of a request that is on the stream.\<close>

lemma recv_request_header:
  assumes "rx_calm w" "0 \<le> sock_fd (sk w)" "rx_data (sk w) = encode_header h @ rest" "header_valid h"
  obtains w1 where "rx_step w w1" "rx_data (sk w1) = rest"
    "handle_protocol_connection opt w =
       (if msg_type h = HF_MSG_TYPE_TEXT_MESSAGE then server_handle_text_message h w1
        else if msg_type h = HF_MSG_TYPE_SEND_FILE
        then (case server_handle_file_transfer opt h w1 of (r, w2) \<Rightarrow> (if r = PROTOCOL_OK then 0 else 1, w2))
        else (case server_handle_get_file opt h w1 of (r, w2) \<Rightarrow> (if r = PROTOCOL_OK then 0 else 1, w2)))"
proof -
  have q: "rx_quiet (sk w)" using assms(1) by (simp add: rx_calm_def)
  obtain es where rh: "recv_header (sk w) = (Inr (encode_header h), (sk w)\<lparr>rx_data := rest, rx_sched := es\<rparr>)"
    using q assms(2,3) by (rule recv_header_quiet)
  have mt: "msg_type h = HF_MSG_TYPE_TEXT_MESSAGE \<or> msg_type h = HF_MSG_TYPE_SEND_FILE \<or>
      msg_type h = HF_MSG_TYPE_GET_FILE" using assms(4) by (auto simp: header_valid_def)
  show thesis
    by (rule that [OF recv_header_step(1) [OF rh]])
      (use rh mt hdr.dec_enc [OF assms(4)] in \<open>auto simp: handle_protocol_connection_def\<close>)
qed

text \<open>An upload request with a good name reaches the body.\<close>

lemma handle_connection_upload_start:
  assumes run: "handle_protocol_connection opt w = (rc, w')"
    and wire: "rx_data (sk w) = encode_header (send_file_header name body) @ send_file_prefix name body @ rest"
    and name: "fs_validate_file_name name" "cstring name" "length name \<le> 255"
    and len: "10 + length name + length body < 2 ^ 64"
    and calm: "rx_calm w" and fd: "0 \<le> sock_fd (sk w)"
  obtains r w1 where "rx_step w w1" "rx_data (sk w1) = rest" "rc = (if r = PROTOCOL_OK then 0 else 1)"
    "server_store_upload opt name (of_nat (length body)) w1 = (r, w')"
proof -
  let ?h = "send_file_header name body"
  obtain w1 where st1: "rx_step w w1" and d1: "rx_data (sk w1) = send_file_prefix name body @ rest"
    and eq: "handle_protocol_connection opt w =
      (case server_handle_file_transfer opt ?h w1 of (r, w2) \<Rightarrow> (if r = PROTOCOL_OK then 0 else 1, w2))"
    by (rule recv_request_header [OF calm fd wire send_file_header_valid])
      (auto simp: send_file_header_def protocol_consts)
  obtain r where ft: "server_handle_file_transfer opt ?h w1 = (r, w')" and rc: "rc = (if r = PROTOCOL_OK then 0 else 1)"
    using run eq by (auto split: prod.splits)
  have nlen: "0 < length name" using name(1) by (auto simp: fs_validate_file_name_def)
  obtain x w2 where p: "proto_recv_file_transfer_prefix w1 = (x, w2)" by fastforce
  note pe = proto_recv_file_transfer_prefix_effect [OF p]
  have x: "x = Inr (name, of_nat (length body))" "rx_data (sk w2) = rest"
    using pe(3) [OF rx_step_calm [OF st1 calm], of "bytes_of_string name" "of_nat (length body)" rest] name nlen d1
    by (simp_all add: send_file_prefix_def)
  have "unat (payload_size ?h) = 10 + length name + length body"
    using len by (simp add: send_file_header_def unat_of_nat flip: of_nat_add)
  then have big: "\<not> payload_size ?h < proto_file_transfer_prefix_size 1"
    using nlen by (simp add: word_less_nat_alt proto_file_transfer_prefix_size_def proto_file_name_only_size_def)
  have su: "server_store_upload opt name (of_nat (length body)) w2 = (r, w')"
    using ft big p x(1) name(1) prefix_size_word(1) [OF name(3)]
    by (simp add: server_handle_file_transfer_def send_file_header_def)
  show thesis by (rule that [OF rx_step_trans [OF st1 pe(1)] x(2) rc su])
qed

text \<open>The server says it is ready before the body has arrived.\<close>

lemma handle_connection_upload_ready:
  assumes run: "handle_protocol_connection opt w = (rc, w')"
    and wire: "rx_data (sk w) = encode_header (send_file_header name body) @ send_file_prefix name body @ rest"
    and name: "fs_validate_file_name name" "cstring name" "length name \<le> 255"
    and len: "10 + length name + length body < 2 ^ 64"
    and calm: "rx_calm w" "tx_quiet (sk w)" and ok: "fs_ok (fs w)" "\<not> splice_direct w" "0 \<le> sock_fd (sk w)"
  shows "prefix (tx_data (sk w) @ res_frame_bytes (frame_of PROTO_PHASE_READY PROTO_STATUS_OK PROTOCOL_OK))
    (tx_data (sk w'))"
proof -
  let ?ready = "res_frame_bytes (frame_of PROTO_PHASE_READY PROTO_STATUS_OK PROTOCOL_OK)"
  obtain r w1 where st: "rx_step w w1" and su: "server_store_upload opt name (of_nat (length body)) w1 = (r, w')"
    using run wire name len calm(1) ok(3) by (rule handle_connection_upload_start)
  note d = rx_step_D [OF st]
  have fd1: "0 \<le> sock_fd (sk w1)" using ok(3) d by simp
  obtain r2 w2 where s2: "server_send_response PROTO_PHASE_READY PROTO_STATUS_OK PROTOCOL_OK w1 = (r2, w2)" by fastforce
  note e2 = server_send_response_effect [OF s2 frame_of_valid(1) fd1]
  note t2 = tx_step_D [OF e2(1)]
  have r2: "r2 = PROTOCOL_OK" using e2(3) calm(2) rx_step_tx_quiet [OF st] by simp
  obtain x w3 where rcv: "app_receive_file (so_path opt) name (of_nat (length body)) APP_UPLOAD_PROTOCOL 4096 w2 = (x, w3)"
    by fastforce
  have "transfer_done (so_path opt) name (of_nat (length body)) w2 x w3"
    by (rule app_receive_file_done [OF rcv]) (use ok d t2 in auto)
  then have w3: "tx_data (sk w3) = tx_data (sk w) @ ?ready" "0 \<le> sock_fd (sk w3)"
    using e2(2) [OF r2] d(2) fd1 t2 by (auto simp: transfer_done_def rx_only_def)
  obtain st code where "w' = snd (server_send_response PROTO_PHASE_FINAL st code w3)"
    "proto_res_frame_valid (frame_of PROTO_PHASE_FINAL st code)"
  proof (cases x)
    case (Inl e)
    then have e: "e \<noteq> PROTOCOL_OK" using rcv app_receive_file_not_ok by blast
    show thesis
      by (rule that [of PROTO_STATUS_FAILED e]) (use su s2 r2 rcv Inl frame_of_valid(4) [OF e] in \<open>auto simp: server_store_upload_def\<close>)
  next
    case (Inr p)
    show thesis
      by (rule that [of PROTO_STATUS_OK PROTOCOL_OK])
        (use su s2 r2 rcv Inr frame_of_valid(2) in \<open>auto simp: server_store_upload_def simp del: result_code.simps\<close>)
  qed
  with server_notify(3) [OF _ w3(2)] w3(1) show ?thesis by (metis append.assoc prefixI)
qed

lemma handle_connection_upload:
  assumes run: "handle_protocol_connection opt w = (rc, w')"
    and wire: "rx_data (sk w) = encode_header (send_file_header name body) @ send_file_prefix name body @ body"
    and name: "fs_validate_file_name name" "cstring name" "length name \<le> 255"
    and len: "10 + length name + length body < 2 ^ 64"
    and calm: "rx_calm w" "tx_quiet (sk w)" and rdy: "upload_ready (so_path opt) name w"
  shows "rc = 0"
    and "\<exists>full. fs_join_relative_path 4096 (so_path opt) (Some name) = Some full \<and>
      delivered full body (fs w) (fs w')"
    and "tx_data (sk w') = tx_data (sk w) @
      res_frame_bytes (frame_of PROTO_PHASE_READY PROTO_STATUS_OK PROTOCOL_OK) @
      res_frame_bytes (frame_of PROTO_PHASE_FINAL PROTO_STATUS_OK PROTOCOL_OK)"
proof -
  have fd: "0 \<le> sock_fd (sk w)" using rdy by (simp add: upload_ready_def)
  obtain r w2 where st2: "rx_step w w2" and rx2: "rx_data (sk w2) = body"
    and rc: "rc = (if r = PROTOCOL_OK then 0 else 1)"
    and su: "server_store_upload opt name (of_nat (length body)) w2 = (r, w')"
    using run wire name len calm(1) fd by (rule handle_connection_upload_start)
  note d2 = rx_step_D [OF st2]
  have blen: "unat (of_nat (length body) :: u64) = length body" using len by (simp add: unat_of_nat)
  have ok2: "fs_ok (fs w2)" "\<not> splice_direct w2" "0 \<le> sock_fd (sk w2)"
    using rdy d2 by (auto simp: upload_ready_def)
  note sc = server_store_upload_succeeds [OF su, unfolded rx_step_fs_ready [OF st2], OF rdy
      rx_step_calm [OF st2 calm(1)]]
  have tq: "tx_quiet (sk w2)" using calm(2) rx_step_tx_quiet [OF st2] by simp
  have r: "r = PROTOCOL_OK" by (rule sc(1)) (simp_all add: tq blen rx2)
  show "rc = 0" using rc r by simp
  show "\<exists>full. fs_join_relative_path 4096 (so_path opt) (Some name) = Some full \<and>
      delivered full body (fs w) (fs w')"
    using server_store_upload_effect(1) [OF su ok2 r] blen rx2 d2(1) by (auto simp: body_delivered_def)
  show "tx_data (sk w') = tx_data (sk w) @
      res_frame_bytes (frame_of PROTO_PHASE_READY PROTO_STATUS_OK PROTOCOL_OK) @
      res_frame_bytes (frame_of PROTO_PHASE_FINAL PROTO_STATUS_OK PROTOCOL_OK)"
    unfolding d2(2) [symmetric] by (rule sc(2)) (simp_all add: tq blen rx2)
qed


lemma handle_connection_text:
  assumes run: "handle_protocol_connection opt w = (rc, w')"
    and wire: "rx_data (sk w) = encode_header (text_header message) @ bytes_of_string message"
    and msg: "cstring message" "length message \<le> HF_PROTOCOL_MAX_TEXT_MESSAGE_SIZE"
    and calm: "rx_calm w" "tx_quiet (sk w)" and ok: "ms_initialized (store w)" "0 \<le> sock_fd (sk w)"
  shows "rc = 0"
    and "store w' = (store w)\<lparr>ms_message := Some (ms_trimmed message), ms_version := ms_version (store w) + 1\<rparr>"
    and "tx_data (sk w') = tx_data (sk w) @
      res_frame_bytes (frame_of PROTO_PHASE_FINAL PROTO_STATUS_OK PROTOCOL_OK)"
proof -
  let ?h = "text_header message"
  obtain w1 where w1: "rx_step w w1" "rx_data (sk w1) = bytes_of_string message"
    and eq: "handle_protocol_connection opt w = server_handle_text_message ?h w1"
    by (rule recv_request_header [OF calm(1) ok(2) wire request_header_valid(2)])
      (auto simp: text_header_def)
  note d = rx_step_D [OF w1(1)]
  have n: "unat (payload_size ?h) = length message"
    using msg(2) by (simp add: text_header_def unat_of_nat HF_PROTOCOL_MAX_TEXT_MESSAGE_SIZE_def)
  from run eq have "server_handle_text_message ?h w1 = (rc, w')" by simp
  then obtain st r w2 where t: "server_take_text_message ?h w1 = ((st, r), w2)"
    "rc = (if r = PROTOCOL_OK then 0 else 1)" "store w' = store w2"
    "tx_quiet (sk w1) \<Longrightarrow> tx_data (sk w') = tx_data (sk w1) @ res_frame_bytes (frame_of PROTO_PHASE_FINAL st r)"
    by (rule server_handle_text_message_effect) (use ok(2) d in auto)
  note e = server_take_text_message_effect [OF t(1)]
  have r: "r = PROTOCOL_OK"
    by (rule e(7) [OF rx_step_calm [OF w1(1) calm(1)]]) (use ok d n msg w1 in auto)
  from e(6) [OF r] obtain body where b: "rx_data (sk w1) = body @ rx_data (sk w2)"
      "length body = unat (payload_size ?h)" "store w2 = (store w1)\<lparr>ms_message :=
        Some (ms_trimmed (cstr (string_of_bytes body))), ms_version := ms_version (store w1) + 1\<rparr>" by blast
  have "length (rx_data (sk w2)) = 0"
    using arg_cong [OF b(1), of length] b(2) n w1(2) by simp
  then have "body = bytes_of_string message" using b(1) w1(2) by simp
  then show "store w' = (store w)\<lparr>ms_message := Some (ms_trimmed message),
      ms_version := ms_version (store w) + 1\<rparr>"
    using t(3) b(3) d msg(1) by simp
  show "rc = 0" using t(2) r by simp
  show "tx_data (sk w') = tx_data (sk w) @
      res_frame_bytes (frame_of PROTO_PHASE_FINAL PROTO_STATUS_OK PROTOCOL_OK)"
    using t(4) e(4) r d calm(2) rx_step_tx_quiet [OF w1(1)] by simp
qed

lemma handle_connection_download:
  assumes run: "handle_protocol_connection opt w = (rc, w')"
    and wire: "rx_data (sk w) = encode_header (get_file_header name) @
      htons_bytes (of_nat (length name)) @ bytes_of_string name"
    and name: "fs_validate_file_name name" "cstring name" "length name \<le> 255"
    and calm: "rx_calm w" "tx_quiet (sk w)"
    and ok: "fs_ok (fs w)" "fs_sizes_ok (fs w)" "0 \<le> sock_fd (sk w)"
    and src: "fs_join_relative_path 4096 (so_path opt) (Some name) = Some full"
      "nodes (fs w) (canon full) = Some (FileN c m)"
  shows "rc = 0" and "tx_data (sk w') = tx_data (sk w) @ download_bytes name c"
proof -
  let ?h = "get_file_header name"
  obtain w1 where w1: "rx_step w w1" "rx_data (sk w1) = htons_bytes (of_nat (length name)) @ bytes_of_string name"
    and eq: "handle_protocol_connection opt w =
      (case server_handle_get_file opt ?h w1 of (r, w2) \<Rightarrow> (if r = PROTOCOL_OK then 0 else 1, w2))"
    by (rule recv_request_header [OF calm(1) ok(3) wire request_header_valid(1)])
      (auto simp: get_file_header_def protocol_consts)
  note d1 = rx_step_D [OF w1(1)]
  obtain x w2 where p: "proto_recv_file_name_only w1 = (x, w2)" by fastforce
  note pe = proto_recv_file_name_only_effect [OF p]
  have nlen: "0 < length name" using name(1) by (auto simp: fs_validate_file_name_def)
  have x: "x = Inr name"
    using pe(3) [OF rx_step_calm [OF w1(1) calm(1)], of "bytes_of_string name" "[]"] name nlen w1(2) by simp
  have st2: "rx_step w w2" by (rule rx_step_trans [OF w1(1) pe(1)])
  note d2 = rx_step_D [OF st2]
  obtain y f2 where pd: "app_prepare_download (so_path opt) name (fs w2) = (y, f2)" by fastforce
  have q2: "fs_quiet (fs w2)" "fs_ok (fs w2)" using calm(1) ok(1) d2 by (auto simp: rx_calm_def)
  note de = app_prepare_download_effect [OF pd q2(2)]
  obtain dl where y: "y = Inr dl" using de(3) [OF q2(1) src(1)] src(2) d2(1) by auto
  from de(2) [OF y] src d2(1) have op: "download_opened full c (fs w) dl f2" by auto
  obtain r3 w3 where sd: "server_send_download name dl (w2\<lparr>fs := f2\<rparr>) = (r3, w3)" by fastforce
  have "payload_size ?h = of_nat (2 + length name)" by (simp add: get_file_header_def)
  moreover have "unat (of_nat (2 + length name) :: u64) = 2 + length name"
    by (rule unat_of_nat_small) (use name(3) in simp)
  ultimately have "unat (payload_size ?h) = 2 + length name" by (simp only:)
  then have "\<not> payload_size ?h < proto_file_name_only_size 1"
    using nlen by (simp add: word_less_nat_alt proto_file_name_only_size_def)
  then have "server_handle_get_file opt ?h w1 = (r3, w3\<lparr>fs := app_download_cleanup (dl_fd dl) (fs w3)\<rparr>)"
    using p x name(1) prefix_size_word(2) [OF name(3)] pd y sd
    by (simp add: server_handle_get_file_def get_file_header_def)
  with run eq have w': "rc = (if r3 = PROTOCOL_OK then 0 else 1)"
    "w' = w3\<lparr>fs := app_download_cleanup (dl_fd dl) (fs w3)\<rparr>" by auto
  from op have dl: "reading (fs (w2\<lparr>fs := f2\<rparr>)) (dl_fd dl) (canon full) 0 c"
    "info_size (dl_info dl) = of_nat (length c)" "0 \<le> dl_fd dl" by (auto simp: download_opened_def)
  have len: "length c < 2 ^ 64" using ok(2) src(2) by (auto simp: fs_sizes_ok_def)
  have fd: "0 \<le> sock_fd (sk (w2\<lparr>fs := f2\<rparr>))" using ok(3) d2 by simp
  note se = server_send_download_effect [OF sd dl(1,2) len dl(3) nlen name(3) fd]
  have r3: "r3 = PROTOCOL_OK" by (rule se(3)) (use calm(2) rx_step_tx_quiet [OF st2] in simp)
  with w' show "rc = 0" by simp
  show "tx_data (sk w') = tx_data (sk w) @ download_bytes name c" using se(2) [OF r3] w'(2) d2(2) by simp
qed

end
