(* ===== verification/Client.thy ===== *)
theory Client
  imports Transfer_Io App_Service Cli
begin

text \<open>
  \<^verbatim>\<open>src/client.c\<close>: sending a file, sending a message, fetching a file. The connection of the world is
  the one \<^verbatim>\<open>client_connect\<close> makes; whether and where connecting fails is the argument \<open>cn\<close>. Closing
  the connection and shutting down its write side end the streams and are not otherwise visible.
\<close>

section \<open>Responses\<close>

text \<open>The names for the error codes printed to the user.\<close>

fun client_protocol_result_name :: "protocol_result \<Rightarrow> string" where
  "client_protocol_result_name PROTOCOL_OK = ''ok''"
| "client_protocol_result_name PROTOCOL_ERR_HEADER_MAGIC = ''header magic''"
| "client_protocol_result_name PROTOCOL_ERR_HEADER_VERSION = ''header version''"
| "client_protocol_result_name PROTOCOL_ERR_HEADER_MSG_TYPE = ''header msg type''"
| "client_protocol_result_name PROTOCOL_ERR_HEADER_MSG_FLAG = ''header msg flag''"
| "client_protocol_result_name PROTOCOL_ERR_INVALID_ARGUMENT = ''invalid argument''"
| "client_protocol_result_name PROTOCOL_ERR_FILE_NAME_LEN = ''file name length''"
| "client_protocol_result_name PROTOCOL_ERR_INVALID_FILE_NAME = ''invalid file name''"
| "client_protocol_result_name PROTOCOL_ERR_PAYLOAD_SIZE_MISMATCH = ''payload size mismatch''"
| "client_protocol_result_name PROTOCOL_ERR_IO = ''io''"
| "client_protocol_result_name PROTOCOL_ERR_SHORT_WRITE = ''short write''"
| "client_protocol_result_name PROTOCOL_ERR_ALLOC = ''alloc''"
| "client_protocol_result_name PROTOCOL_ERR_EOF = ''unexpected eof''"
| "client_protocol_result_name PROTOCOL_ERR_MSG_TOO_LARGE = ''unknown''"

definition client_recv_response :: "byte \<Rightarrow> sock \<Rightarrow> res_frame option \<times> sock" where
  "client_recv_response expected_phase s =
     (case recv_res_frame s of
        (Inl e, s') \<Rightarrow> (None, s')
      | (Inr frame, s') \<Rightarrow>
          (if phase frame \<noteq> expected_phase then None
           else if status frame = PROTO_STATUS_OK \<and> error_code frame \<noteq> result_code PROTOCOL_OK then None
           else if status frame \<noteq> PROTO_STATUS_OK \<and> error_code frame = result_code PROTOCOL_OK then None
           else Some frame, s'))"

definition client_check_response :: "res_frame \<Rightarrow> byte \<Rightarrow> bool" where
  "client_check_response frame expected_phase = (status frame = PROTO_STATUS_OK)"

definition client_recv_checked_response :: "byte \<Rightarrow> world \<Rightarrow> bool \<times> world" where
  "client_recv_checked_response expected_phase w =
     (case client_recv_response expected_phase (sk w) of
        (None, s') \<Rightarrow> (False, w\<lparr>sk := s'\<rparr>)
      | (Some frame, s') \<Rightarrow> (client_check_response frame expected_phase, w\<lparr>sk := s'\<rparr>))"

section \<open>Requests\<close>

definition client_send_header_payload :: "byte \<Rightarrow> u64 \<Rightarrow> byte list \<Rightarrow> world \<Rightarrow> bool \<times> world" where
  "client_send_header_payload mt psize payload w =
     (let header_buf = encode_header (init_header\<lparr>msg_type := mt, flags := HF_MSG_FLAG_NONE,
                                                  payload_size := psize\<rparr>)
      in if length payload \<le> 2 + HF_PROTOCOL_MAX_FILE_NAME_LEN + 8 then
           (case proto_send_payload (header_buf @ payload) (sk w) of
              (r, s') \<Rightarrow> (r = PROTOCOL_OK, w\<lparr>sk := s'\<rparr>))
         else
           (case proto_send_payload header_buf (sk w) of
              (r, s') \<Rightarrow>
                if r \<noteq> PROTOCOL_OK then (False, w\<lparr>sk := s'\<rparr>)
                else (case proto_send_payload payload s' of
                        (r2, s2) \<Rightarrow> (r2 = PROTOCOL_OK, w\<lparr>sk := s2\<rparr>))))"

text \<open>
  Connecting: \<^verbatim>\<open>inet_pton\<close> wants four decimal numbers below 256 without leading zeros; the calls
  \<^verbatim>\<open>socket\<close>, \<^verbatim>\<open>connect\<close> and \<^verbatim>\<open>setsockopt\<close> may fail.
\<close>

datatype connect_outcome = SocketFails | ConnectFails | TimeoutsFail | Connected

definition inet_octet :: "string \<Rightarrow> bool" where
  "inet_octet s = (s \<noteq> [] \<and> length s \<le> 3 \<and> list_all isdigit s \<and> digits_val s \<le> 255 \<and>
                   (length s > 1 \<longrightarrow> hd s \<noteq> CHR ''0''))"

definition inet_pton :: "string \<Rightarrow> bool" where
  "inet_pton ip = (length (split_on (CHR ''.'') ip) = 4 \<and> list_all inet_octet (split_on (CHR ''.'') ip))"

definition client_connect :: "connect_outcome \<Rightarrow> string \<Rightarrow> bool" where
  "client_connect cn ip =
     (if cn = SocketFails then False
      else if \<not> inet_pton ip then False
      else if cn = ConnectFails then False
      else cn \<noteq> TimeoutsFail)"

section \<open>Sending\<close>

definition client_get_file_size :: "int \<Rightarrow> fsys \<Rightarrow> u64 option \<times> fsys" where
  "client_get_file_size fd f =
     (case posix_fstat fd f of
        (Inl e, f') \<Rightarrow> (None, f')
      | (Inr n, f') \<Rightarrow> (if is_file n then Some (of_nat (length (node_content n))) else None, f'))"

definition client_send_file_body :: "int \<Rightarrow> u64 \<Rightarrow> world \<Rightarrow> bool \<times> world" where
  "client_send_file_body fd content_size w =
     (case net_send_file_best_effort fd content_size w of (r, w') \<Rightarrow> (r = NET_SEND_FILE_OK, w'))"

text \<open>From the request on, with the file open as \<open>fd\<close>; \<open>True\<close> for exit code 0.\<close>

definition client_run_upload :: "byte \<Rightarrow> string \<Rightarrow> u16 \<Rightarrow> int \<Rightarrow> u64 \<Rightarrow> world \<Rightarrow> bool \<times> world" where
  "client_run_upload mt file_name file_name_len fd content_size w =
     (case encode_file_prefix file_name content_size of
        Inl e \<Rightarrow> (False, w)
      | Inr file_prefix_buf \<Rightarrow>
         (case client_send_header_payload mt
                 (proto_file_transfer_prefix_size file_name_len + content_size) file_prefix_buf w of
            (ok1, w1) \<Rightarrow>
              if \<not> ok1 then (False, w1)
              else (case client_recv_checked_response PROTO_PHASE_READY w1 of
                (ok2, w2) \<Rightarrow>
                  if \<not> ok2 then (False, w2)
                  else (case client_send_file_body fd content_size w2 of
                    (ok3, w3) \<Rightarrow>
                      if \<not> ok3 then (False, w3)
                      else client_recv_checked_response PROTO_PHASE_FINAL w3))))"

definition client_send_file_raw :: "connect_outcome \<Rightarrow> client_opt \<Rightarrow> world \<Rightarrow> int \<times> world" where
  "client_send_file_raw cn opt w =
     (case co_path opt of
        None \<Rightarrow> (1, w)
      | Some path \<Rightarrow>
          let file_name = fs_basename_from_path path in
          (case proto_get_file_name_len file_name of
             None \<Rightarrow> (1, w)
           | Some file_name_len \<Rightarrow>
              (case fs_open path [O_RDONLY] (fs w) of
                 (Inl e, f1) \<Rightarrow> (1, w\<lparr>fs := f1\<rparr>)
               | (Inr fd, f1) \<Rightarrow>
                   let close = (\<lambda>(code, w'). (code, w'\<lparr>fs := snd (fs_close fd (fs w'))\<rparr>)) in
                   if unat (proto_file_transfer_prefix_size file_name_len) > CHUNK_SIZE
                   then close (1, w\<lparr>fs := f1\<rparr>)
                   else (case client_get_file_size fd f1 of
                     (None, f2) \<Rightarrow> close (1, w\<lparr>fs := f2\<rparr>)
                   | (Some content_size, f2) \<Rightarrow>
                       if content_size > HF_MAX_FILE_SIZE then close (1, w\<lparr>fs := f2\<rparr>)
                       else if \<not> client_connect cn (co_ip opt) then close (1, w\<lparr>fs := f2\<rparr>)
                       else (case client_run_upload (co_msg_type opt) file_name file_name_len fd
                                    content_size (w\<lparr>fs := f2\<rparr>) of
                         (ok, w3) \<Rightarrow> close (if ok then 0 else 1, w3))))))"

definition client_send_message :: "connect_outcome \<Rightarrow> client_opt \<Rightarrow> world \<Rightarrow> int \<times> world" where
  "client_send_message cn opt w =
     (let message = (case co_message opt of None \<Rightarrow> [] | Some m \<Rightarrow> m) in
      if length message > HF_PROTOCOL_MAX_TEXT_MESSAGE_SIZE then (1, w)
      else if \<not> client_connect cn (co_ip opt) then (1, w)
      else (case client_send_header_payload HF_MSG_TYPE_TEXT_MESSAGE (of_nat (length message))
                   (bytes_of_string message) w of
        (ok1, w1) \<Rightarrow>
          if \<not> ok1 then (1, w1)
          else (case client_recv_checked_response PROTO_PHASE_FINAL w1 of
            (ok2, w2) \<Rightarrow> (if ok2 then 0 else 1, w2))))"

section \<open>Fetching\<close>

text \<open>
  The result, the string left in \<^verbatim>\<open>tmp_path\<close> (a name that does not fit leaves its beginning there)
  and the file system.
\<close>

function client_open_temp_loop ::
  "nat \<Rightarrow> string \<Rightarrow> int \<Rightarrow> nat \<Rightarrow> string \<Rightarrow> fsys \<Rightarrow> int option \<times> string \<times> fsys" where
  "client_open_temp_loop cap final_path process_id attempt tmp_path f =
     (if attempt < 3 then
        case fs_build_temp_path cap final_path process_id (int attempt) of
          None \<Rightarrow> (None, snprintf_trunc cap (final_path @ ''.tmp.'' @ show_int process_id @ ''.'' @
                                          show_int (int attempt)), f)
        | Some tmp \<Rightarrow>
           (case fs_open_temp_file tmp f of
              (Inr out, f') \<Rightarrow> (Some out, tmp, f')
            | (Inl e, f') \<Rightarrow>
                if e \<noteq> EEXIST then (None, tmp, f')
                else client_open_temp_loop cap final_path process_id (Suc attempt) tmp f')
      else (None, tmp_path, f))"
  by pat_completeness auto
termination
  by (relation "measure (\<lambda>(cap, final, i, attempt, t, f). 3 - attempt)") auto

declare client_open_temp_loop.simps [simp del]

definition client_open_temp_download ::
  "string \<Rightarrow> world \<Rightarrow> int option \<times> string \<times> fsys" where
  "client_open_temp_download final_path w = client_open_temp_loop 4096 final_path (pid w) 0 [] (fs w)"

definition client_recv_file_body :: "int \<Rightarrow> u64 \<Rightarrow> world \<Rightarrow> bool \<times> world" where
  "client_recv_file_body out_fd content_size w =
     (case net_recv_file_best_effort out_fd content_size w of (r, w') \<Rightarrow> (r = NET_RECV_FILE_OK, w'))"

text \<open>The label \<^verbatim>\<open>CLEAN_UP\<close>.\<close>

definition client_get_cleanup :: "int \<Rightarrow> int \<Rightarrow> string \<Rightarrow> world \<Rightarrow> int \<times> world" where
  "client_get_cleanup exit_code out tmp_path w =
     (let f1 = (if out \<noteq> -1 then snd (fs_close out (fs w)) else fs w);
          f2 = (if tmp_path \<noteq> [] then fs_remove_ignore_error tmp_path f1 else f1)
      in (exit_code, w\<lparr>fs := f2\<rparr>))"

text \<open>From the temporary file on.\<close>

definition client_save_download :: "string \<Rightarrow> u64 \<Rightarrow> world \<Rightarrow> int \<times> world" where
  "client_save_download output_path content_size w =
     (case client_open_temp_download output_path w of
        (None, tmp_path, f1) \<Rightarrow> client_get_cleanup 1 (-1) tmp_path (w\<lparr>fs := f1\<rparr>)
      | (Some out, tmp_path, f1) \<Rightarrow>
         (case client_recv_file_body out content_size (w\<lparr>fs := f1\<rparr>) of
            (ok2, w2) \<Rightarrow>
              if \<not> ok2 then client_get_cleanup 1 out tmp_path w2
              else (case fs_close out (fs w2) of
                (ok3, f3) \<Rightarrow>
                  if \<not> ok3 then client_get_cleanup 1 (-1) tmp_path (w2\<lparr>fs := f3\<rparr>)
                  else (case client_recv_checked_response PROTO_PHASE_FINAL (w2\<lparr>fs := f3\<rparr>) of
                    (ok4, w4) \<Rightarrow>
                      if \<not> ok4 then client_get_cleanup 1 (-1) tmp_path w4
                      else (case fs_commit_temp_file tmp_path output_path (fs w4) of
                        (ok5, f5) \<Rightarrow>
                          if \<not> ok5 then client_get_cleanup 1 (-1) tmp_path (w4\<lparr>fs := f5\<rparr>)
                          else client_get_cleanup 0 (-1) [] (w4\<lparr>fs := f5\<rparr>))))))"

definition client_get_file :: "connect_outcome \<Rightarrow> client_opt \<Rightarrow> world \<Rightarrow> int \<times> world" where
  "client_get_file cn opt w =
     (case co_remote_path opt of
        None \<Rightarrow> (1, w)
      | Some remote_path \<Rightarrow>
          if \<not> fs_validate_file_name remote_path then (1, w)
          else (case proto_get_file_name_len remote_path of
            None \<Rightarrow> (1, w)
          | Some remote_name_len \<Rightarrow>
              if \<not> client_connect cn (co_ip opt) then (1, w)
              else (case encode_file_name_only remote_path of
                Inl e \<Rightarrow> client_get_cleanup 1 (-1) [] w
              | Inr request_buf \<Rightarrow>
                 (case client_send_header_payload HF_MSG_TYPE_GET_FILE
                         (proto_file_name_only_size remote_name_len) request_buf w of
                    (ok1, w1) \<Rightarrow>
                      if \<not> ok1 then client_get_cleanup 1 (-1) [] w1
                      else (case client_recv_checked_response PROTO_PHASE_READY w1 of
                        (ok2, w2) \<Rightarrow>
                          if \<not> ok2 then client_get_cleanup 1 (-1) [] w2
                          else (case proto_recv_file_transfer_prefix w2 of
                            (Inl e, w3) \<Rightarrow> client_get_cleanup 1 (-1) [] w3
                          | (Inr (offered_name, content_size), w3) \<Rightarrow>
                              if content_size > HF_MAX_FILE_SIZE then client_get_cleanup 1 (-1) [] w3
                              else (case co_output_path opt of
                                Some output_path \<Rightarrow> client_save_download output_path content_size w3
                              | None \<Rightarrow>
                                  if \<not> fs_validate_file_name offered_name
                                  then client_get_cleanup 1 (-1) [] w3
                                  else client_save_download offered_name content_size w3)))))))"

definition client :: "connect_outcome \<Rightarrow> client_opt \<Rightarrow> world \<Rightarrow> int \<times> world" where
  "client cn cli_opt w =
     (if co_msg_type cli_opt = HF_MSG_TYPE_SEND_FILE then client_send_file_raw cn cli_opt w
      else if co_msg_type cli_opt = HF_MSG_TYPE_TEXT_MESSAGE then client_send_message cn cli_opt w
      else if co_msg_type cli_opt = HF_MSG_TYPE_GET_FILE then client_get_file cn cli_opt w
      else (1, w))"


section \<open>What the calls do\<close>

lemma ok_frame:
  assumes "proto_res_frame_valid f" "phase f = ph" "status f = PROTO_STATUS_OK"
  shows "f = frame_of ph PROTO_STATUS_OK PROTOCOL_OK"
  using assms by (cases f) (auto simp: proto_res_frame_valid_def split: if_splits)

lemma recv_res_frame_step:
  assumes "recv_res_frame (sk w) = (x, s')"
  shows "rx_step w (w\<lparr>sk := s'\<rparr>)"
proof -
  obtain n buf s1 where r: "recv_all HF_PROTOCOL_RES_FRAME_SIZE (sk w) = (n, buf, s1)" by (metis prod_cases3)
  then show ?thesis
    using assms recv_all_step(1) [OF r] by (auto simp: recv_res_frame_def split: if_splits)
qed

lemma client_recv_checked_effect:
  assumes "client_recv_checked_response ph w = (ok, w')"
  shows "rx_step w w'"
    and "ok \<Longrightarrow> rx_data (sk w) = res_frame_bytes (frame_of ph PROTO_STATUS_OK PROTOCOL_OK) @ rx_data (sk w')"
    and "rx_quiet (sk w) \<Longrightarrow> 0 \<le> sock_fd (sk w) \<Longrightarrow> ph = PROTO_PHASE_READY \<or> ph = PROTO_PHASE_FINAL \<Longrightarrow>
      rx_data (sk w) = res_frame_bytes (frame_of ph PROTO_STATUS_OK PROTOCOL_OK) @ rest \<Longrightarrow>
      ok \<and> rx_data (sk w') = rest"
proof -
  obtain x s1 where r: "recv_res_frame (sk w) = (x, s1)" by fastforce
  have w': "w' = w\<lparr>sk := s1\<rparr>"
    using assms r by (auto simp: client_recv_checked_response_def client_recv_response_def
        split: sum.splits option.splits if_splits)
  show "rx_step w w'" unfolding w' by (rule recv_res_frame_step [OF r])
  show "rx_data (sk w) = res_frame_bytes (frame_of ph PROTO_STATUS_OK PROTOCOL_OK) @ rx_data (sk w')" if good: ok
  proof -
    obtain f where f: "x = Inr f" "phase f = ph" "status f = PROTO_STATUS_OK"
      using assms r good by (auto simp: client_recv_checked_response_def client_recv_response_def
          client_check_response_def split: sum.splits option.splits if_splits)
    with recv_res_frame_sound [of "sk w" f s1] r have v: "proto_res_frame_valid f"
      "rx_data (sk w) = res_frame_bytes f @ rx_data s1" by auto
    with ok_frame [OF v(1) f(2,3)] show ?thesis by (simp add: w')
  qed
  assume q: "rx_quiet (sk w)" "0 \<le> sock_fd (sk w)" "ph = PROTO_PHASE_READY \<or> ph = PROTO_PHASE_FINAL"
    "rx_data (sk w) = res_frame_bytes (frame_of ph PROTO_STATUS_OK PROTOCOL_OK) @ rest"
  have v: "proto_res_frame_valid (frame_of ph PROTO_STATUS_OK PROTOCOL_OK)"
    using q(3) frame_of_valid(1,2) by auto
  obtain es where "recv_res_frame (sk w) = (Inr (frame_of ph PROTO_STATUS_OK PROTOCOL_OK),
      (sk w)\<lparr>rx_data := rest, rx_sched := es\<rparr>)"
    using q(1,2) v q(4) by (rule recv_res_frame_quiet)
  with assms show "ok \<and> rx_data (sk w') = rest"
    by (auto simp: client_recv_checked_response_def client_recv_response_def client_check_response_def)
qed

lemma client_send_header_payload_effect:
  assumes "client_send_header_payload mt psize payload w = (ok, w')" and "0 \<le> sock_fd (sk w)"
  shows "tx_step w w'"
    and "ok \<Longrightarrow> tx_data (sk w') = tx_data (sk w) @
      encode_header (init_header\<lparr>msg_type := mt, payload_size := psize\<rparr>) @ payload"
    and "tx_quiet (sk w) \<Longrightarrow> ok"
proof -
  let ?h = "encode_header (init_header\<lparr>msg_type := mt, payload_size := psize\<rparr>)"
  have h: "init_header\<lparr>msg_type := mt, flags := HF_MSG_FLAG_NONE, payload_size := psize\<rparr> =
      init_header\<lparr>msg_type := mt, payload_size := psize\<rparr>" by (simp add: init_header_def)
  obtain r1 s1 where p1: "proto_send_payload (?h @ payload) (sk w) = (r1, s1)" by fastforce
  obtain r2 s2 where p2: "proto_send_payload ?h (sk w) = (r2, s2)" by fastforce
  obtain r3 s3 where p3: "proto_send_payload payload s2 = (r3, s3)" by fastforce
  note e1 = proto_send_payload_effect [OF p1 assms(2)] and e2 = proto_send_payload_effect [OF p2 assms(2)]
  have fd2: "0 \<le> sock_fd s2" using e2(1) assms(2) by (simp add: tx_only_def)
  note e3 = proto_send_payload_effect [OF p3 fd2]
  have eq: "(ok, w') = (if length payload \<le> 2 + HF_PROTOCOL_MAX_FILE_NAME_LEN + 8
      then (r1 = PROTOCOL_OK, w\<lparr>sk := s1\<rparr>)
      else if r2 \<noteq> PROTOCOL_OK then (False, w\<lparr>sk := s2\<rparr>) else (r3 = PROTOCOL_OK, w\<lparr>sk := s3\<rparr>))"
    unfolding assms(1) [symmetric] using p1 p2 p3
    by (simp add: client_send_header_payload_def h Let_def cong: if_cong split del: if_split)
  have st: "tx_only (sk w) s \<Longrightarrow> tx_step w (w\<lparr>sk := s\<rparr>)" for s
    by (auto simp: tx_step_def io_frame_def tx_only_def)
  have "tx_step w (w\<lparr>sk := s3\<rparr>)" by (rule st [OF tx_only_trans [OF e2(1) e3(1)]])
  with st [OF e1(1)] st [OF e2(1)] show "tx_step w w'" using eq by (simp split: if_splits)
  show "ok \<Longrightarrow> tx_data (sk w') = tx_data (sk w) @ ?h @ payload"
    using eq e1(2) e2(2) e3(2) by (auto split: if_splits)
  show "ok" if "tx_quiet (sk w)"
  proof -
    have "tx_quiet s2" using that e2(1) by (auto simp: tx_only_def tx_quiet_def)
    with eq that e1(3) e2(3) e3(3) show ?thesis by (auto split: if_splits)
  qed
qed

section \<open>Sending a message\<close>

lemma client_send_message_effect:
  assumes run: "client_send_message cn opt w = (rc, w')" and msg: "co_message opt = Some message"
    and fd: "0 \<le> sock_fd (sk w)"
  shows "fs w' = fs w \<and> store w' = store w"
    and "rc = 0 \<Longrightarrow> length message \<le> HF_PROTOCOL_MAX_TEXT_MESSAGE_SIZE \<and>
      tx_data (sk w') = tx_data (sk w) @ encode_header (text_header message) @ bytes_of_string message \<and>
      rx_data (sk w) = res_frame_bytes (frame_of PROTO_PHASE_FINAL PROTO_STATUS_OK PROTOCOL_OK) @ rx_data (sk w')"
    and "client_connect cn (co_ip opt) \<Longrightarrow> length message \<le> HF_PROTOCOL_MAX_TEXT_MESSAGE_SIZE \<Longrightarrow>
      rx_quiet (sk w) \<Longrightarrow> tx_quiet (sk w) \<Longrightarrow>
      rx_data (sk w) = res_frame_bytes (frame_of PROTO_PHASE_FINAL PROTO_STATUS_OK PROTOCOL_OK) @ rest \<Longrightarrow> rc = 0"
proof -
  obtain ok1 w1 where s1: "client_send_header_payload HF_MSG_TYPE_TEXT_MESSAGE (of_nat (length message))
      (bytes_of_string message) w = (ok1, w1)" by fastforce
  obtain ok2 w2 where s2: "client_recv_checked_response PROTO_PHASE_FINAL w1 = (ok2, w2)" by fastforce
  note e1 = client_send_header_payload_effect [OF s1 fd] and e2 = client_recv_checked_effect [OF s2]
  note t1 = tx_step_D [OF e1(1)] and t2 = rx_step_D [OF e2(1)]
  have eq: "(rc, w') = (if length message > HF_PROTOCOL_MAX_TEXT_MESSAGE_SIZE then (1, w)
      else if \<not> client_connect cn (co_ip opt) then (1, w)
      else if \<not> ok1 then (1, w1) else (if ok2 then 0 else 1, w2))"
    unfolding run [symmetric] using s1 s2 msg
    by (simp add: client_send_message_def cong: if_cong split del: if_split)
  show "fs w' = fs w \<and> store w' = store w" using eq t1 t2 by (auto split: if_splits)
  show "length message \<le> HF_PROTOCOL_MAX_TEXT_MESSAGE_SIZE \<and>
      tx_data (sk w') = tx_data (sk w) @ encode_header (text_header message) @ bytes_of_string message \<and>
      rx_data (sk w) = res_frame_bytes (frame_of PROTO_PHASE_FINAL PROTO_STATUS_OK PROTOCOL_OK) @ rx_data (sk w')"
    if "rc = 0"
    using that eq e1(2) e2(2) t1 t2 by (auto simp: text_header_def split: if_splits)
  assume a: "client_connect cn (co_ip opt)" "length message \<le> HF_PROTOCOL_MAX_TEXT_MESSAGE_SIZE"
    "rx_quiet (sk w)" "tx_quiet (sk w)"
    "rx_data (sk w) = res_frame_bytes (frame_of PROTO_PHASE_FINAL PROTO_STATUS_OK PROTOCOL_OK) @ rest"
  have "rx_quiet (sk w1)" using a(3) e1(1) by (simp add: tx_step_def tx_only_def rx_quiet_def)
  then have ok2 using e2(3) [of rest] a(5) t1 fd by simp
  with eq a e1(3) show "rc = 0" by simp
qed


section \<open>Sending a file\<close>

lemma open_rdonly_cases:
  assumes "fs_open path [O_RDONLY] f = (r, f')"
  obtains (fail) e where "r = Inl e" "nodes f' = nodes f" "fds f' = fds f" "next_fd f' = next_fd f"
      "set (fs_sched f') \<subseteq> set (fs_sched f)"
      "fs_quiet f \<Longrightarrow> (case nodes f (canon path) of Some n \<Rightarrow> is_symlink n | None \<Rightarrow> True)"
  | (ok) fd p n where "r = Inr fd" "fd = int (next_fd f)" "nodes f p = Some n" "\<not> is_symlink n"
      "p = canon path \<or> (\<exists>t m. nodes f (canon path) = Some (SymlinkN t m) \<and> p = canon t)"
      "nodes f' = nodes f" "fds f' = (fds f)(fd \<mapsto> \<lparr>of_path = p, of_pos = 0\<rparr>)"
      "next_fd f' = Suc (next_fd f)" "set (fs_sched f') \<subseteq> set (fs_sched f)"
proof -
  obtain ev g where pop: "fs_pop f = (ev, g)" by fastforce
  then obtain es where g: "g = f\<lparr>fs_sched := es\<rparr>" "set es \<subseteq> set (fs_sched f)" by (rule fs_popE)
  have q: "\<not> fs_quiet f \<or> (\<forall>e. ev \<noteq> FsFail e)" using fs_quiet_no_fail [OF _ pop] by auto
  have ng: "nodes g = nodes f" using g(1) by simp
  have on: "open_node p n [O_RDONLY] g = (Inr (int (next_fd f)), snd (new_fd p g))" for p n
    using g(1) by (cases n) (simp_all add: open_node_def new_fd_def)
  have failing: thesis if "r = Inl e" "f' = g" "fs_quiet f \<Longrightarrow>
      (case nodes f (canon path) of Some n \<Rightarrow> is_symlink n | None \<Rightarrow> True)" for e
    using that g by (intro fail [of e]) auto
  have succeeding: thesis if "nodes f p = Some n" "\<not> is_symlink n" "r = Inr (int (next_fd f))"
      "f' = snd (new_fd p g)" "p = canon path \<or> (\<exists>t m. nodes f (canon path) = Some (SymlinkN t m) \<and> p = canon t)"
    for p n
    using that g by (intro ok [of "int (next_fd f)" p n]) (simp_all add: new_fd_def)
  note unf = fs_open_def posix_open_def pop on ng Let_def
  show thesis
  proof (cases "\<exists>e. ev = FsFail e")
    case True
    with assms q show thesis by (auto simp: unf intro: failing)
  next
    case False
    consider "nodes f (canon path) = None" | n where "nodes f (canon path) = Some n" "\<not> is_symlink n"
      | t m where "nodes f (canon path) = Some (SymlinkN t m)" "nodes f (canon t) = None"
      | t m n where "nodes f (canon path) = Some (SymlinkN t m)" "nodes f (canon t) = Some n"
      by (metis is_symlink_def not_None_eq)
    then show thesis
    proof cases
      case 1
      with assms False show thesis by (intro failing) (auto simp: unf split: fs_event.splits)
    next
      case (2 n)
      with assms False show thesis
        by (intro succeeding [of "canon path" n]) (auto simp: unf split: fs_event.splits node.splits)
    next
      case (3 t m)
      with assms False show thesis by (intro failing) (auto simp: unf split: fs_event.splits)
    next
      case (4 t m n)
      show thesis
      proof (cases "is_symlink n")
        case True
        with 4 assms False show thesis
          by (intro failing) (auto simp: unf is_symlink_def split: fs_event.splits)
      next
        case n: False
        with 4 assms False show thesis
          by (intro succeeding [of "canon t" n]) (auto simp: unf split: fs_event.splits node.splits)
      qed
    qed
  qed
qed

text \<open>A conversation over the connection that reads the file behind \<open>fd\<close>.\<close>

definition conv_step :: "int \<Rightarrow> world \<Rightarrow> world \<Rightarrow> bool" where
  "conv_step fd w w' \<longleftrightarrow> only_reads fd (fs w) (fs w') \<and> io_frame w w'"

lemma conv_step_trans [trans]: "conv_step fd w w' \<Longrightarrow> conv_step fd w' w'' \<Longrightarrow> conv_step fd w w''"
  by (auto simp: conv_step_def intro: only_reads_trans io_frame_trans)

lemma conv_steps:
  "tx_step w w' \<Longrightarrow> conv_step fd w w'" "rx_step w w' \<Longrightarrow> conv_step fd w w'" "dl_step fd w w' \<Longrightarrow> conv_step fd w w'"
  by (auto simp: tx_step_def rx_step_def dl_step_def conv_step_def)

lemma conv_step_D:
  assumes "conv_step fd w w'"
  shows "sock_fd (sk w') = sock_fd (sk w)" "store w' = store w" "nodes (fs w') = nodes (fs w)"
    "tx_quiet (sk w) \<Longrightarrow> tx_quiet (sk w')" "rx_quiet (sk w) \<Longrightarrow> rx_quiet (sk w')"
  using assms by (auto simp: conv_step_def only_reads_def io_frame_def tx_quiet_def rx_quiet_def)

abbreviation ok_frame_bytes :: "byte \<Rightarrow> byte list" where
  "ok_frame_bytes ph \<equiv> res_frame_bytes (frame_of ph PROTO_STATUS_OK PROTOCOL_OK)"

lemma client_run_upload_effect:
  assumes run: "client_run_upload mt name len fd sz w = (ok, w')"
    and rd: "reading (fs w) fd p 0 c" "sz = of_nat (length c)" "length c < 2 ^ 64" "0 \<le> fd"
    and nm: "0 < length name" "length name \<le> 255" "len = of_nat (length name)" and sfd: "0 \<le> sock_fd (sk w)"
  shows "conv_step fd w w'"
    and "ok \<Longrightarrow> tx_data (sk w') = tx_data (sk w) @ encode_header (init_header\<lparr>msg_type := mt,
           payload_size := of_nat (10 + length name + length c)\<rparr>) @ send_file_prefix name c @ c \<and>
         rx_data (sk w) = ok_frame_bytes PROTO_PHASE_READY @ ok_frame_bytes PROTO_PHASE_FINAL @ rx_data (sk w')"
    and "rx_quiet (sk w) \<Longrightarrow> tx_quiet (sk w) \<Longrightarrow>
         rx_data (sk w) = ok_frame_bytes PROTO_PHASE_READY @ ok_frame_bytes PROTO_PHASE_FINAL @ rest \<Longrightarrow> ok"
proof -
  let ?psz = "proto_file_transfer_prefix_size len + sz"
  have enc: "encode_file_prefix name sz = Inr (send_file_prefix name c)"
    using encode_file_prefix_bytes(1) [OF nm(1,2)] rd(2) by (simp add: send_file_prefix_def)
  have psz: "?psz = of_nat (10 + length name + length c)" using prefix_size_word(1) [OF nm(2)] nm(3) rd(2) by simp
  have szn: "unat sz = length c" using rd(2,3) unat_of_nat_small by simp
  obtain ok1 w1 where s1: "client_send_header_payload mt ?psz (send_file_prefix name c) w = (ok1, w1)" by fastforce
  obtain ok2 w2 where s2: "client_recv_checked_response PROTO_PHASE_READY w1 = (ok2, w2)" by fastforce
  obtain r3 w3 where s3: "net_send_file_best_effort fd sz w2 = (r3, w3)" by fastforce
  obtain ok4 w4 where s4: "client_recv_checked_response PROTO_PHASE_FINAL w3 = (ok4, w4)" by fastforce
  note e1 = client_send_header_payload_effect [OF s1 sfd] and e2 = client_recv_checked_effect [OF s2]
    and e4 = client_recv_checked_effect [OF s4]
  note t1 = tx_step_D [OF e1(1)] and t2 = rx_step_D [OF e2(1)] and t4 = rx_step_D [OF e4(1)]
  have rd2: "reading (fs w2) fd p 0 c" using rd(1) t1 t2 by simp
  have sf: "sends_from c 0 (length c) fd w2 (r3 = NET_SEND_FILE_OK) w3"
    using net_send_file_best_effort_effect [OF s3 rd2] szn by simp
  have c1: "conv_step fd w w1" by (rule conv_steps(1) [OF e1(1)])
  have c2: "conv_step fd w w2" by (rule conv_step_trans [OF c1 conv_steps(2) [OF e2(1)]])
  have "dl_step fd w2 w3" using sf by (auto simp: sends_from_def dl_step_def)
  then have c3: "conv_step fd w w3" and d3: "rx_data (sk w3) = rx_data (sk w2)"
    using conv_step_trans [OF c2 conv_steps(3)] by (auto simp: dl_step_def tx_only_def)
  have c4: "conv_step fd w w4" by (rule conv_step_trans [OF c3 conv_steps(2) [OF e4(1)]])
  have eq: "(ok, w') = (if \<not> ok1 then (False, w1) else if \<not> ok2 then (False, w2)
      else if r3 \<noteq> NET_SEND_FILE_OK then (False, w3) else (ok4, w4))"
    unfolding run [symmetric] using s1 s2 s3 s4 enc
    by (simp add: client_run_upload_def client_send_file_body_def cong: if_cong split del: if_split)
  show "conv_step fd w w'" using eq c1 c2 c3 c4 by (simp split: if_splits)
  show "tx_data (sk w') = tx_data (sk w) @ encode_header (init_header\<lparr>msg_type := mt,
        payload_size := of_nat (10 + length name + length c)\<rparr>) @ send_file_prefix name c @ c \<and>
      rx_data (sk w) = ok_frame_bytes PROTO_PHASE_READY @ ok_frame_bytes PROTO_PHASE_FINAL @ rx_data (sk w')"
    if "ok"
  proof -
    from that eq have a: ok1 ok2 "r3 = NET_SEND_FILE_OK" ok4 "w' = w4" by (auto split: if_splits)
    have "tx_data (sk w3) = tx_data (sk w2) @ c" using sf a(3) by (auto simp: sends_from_def)
    with e1(2) [OF a(1)] e2(2) [OF a(2)] e4(2) [OF a(4)] t1 t2 t4 d3 a(5) psz show ?thesis by simp
  qed
  assume q: "rx_quiet (sk w)" "tx_quiet (sk w)"
    "rx_data (sk w) = ok_frame_bytes PROTO_PHASE_READY @ ok_frame_bytes PROTO_PHASE_FINAL @ rest"
  have ok1: ok1 by (rule e1(3) [OF q(2)])
  have ok2: "ok2 \<and> rx_data (sk w2) = ok_frame_bytes PROTO_PHASE_FINAL @ rest"
    using e2(3) conv_step_D(1,5) [OF c1] q(1,3) sfd t1 by simp
  have r3: "r3 = NET_SEND_FILE_OK"
    by (rule net_send_file_best_effort_quiet [OF _ rd2 _ _ rd(4) s3])
      (use conv_step_D(1,4) [OF c2] q(2) szn sfd in \<open>auto simp: is_socket_invalid_def\<close>)
  have "ok4" using e4(3) [of rest] conv_step_D(1,5) [OF c3] q(1) sfd ok2 d3 by simp
  with eq ok1 ok2 r3 show "ok" by simp
qed


text \<open>
  The content the client reads for a path: that of the file, or of the file a symbolic link at the
  path names.
\<close>

definition file_at :: "fsys \<Rightarrow> string \<Rightarrow> byte list \<Rightarrow> bool" where
  "file_at f path c \<longleftrightarrow>
     (\<exists>p m. nodes f p = Some (FileN c m) \<and>
        (p = canon path \<or> (\<exists>t n. nodes f (canon path) = Some (SymlinkN t n) \<and> p = canon t)))"

definition close_fd :: "int \<Rightarrow> world \<Rightarrow> world" where
  "close_fd fd w = w\<lparr>fs := snd (fs_close fd (fs w))\<rparr>"

lemma close_fd_same:
  assumes "conv_step fd w1 w2" "fds f fd = None" "\<forall>d. d \<noteq> fd \<longrightarrow> fds (fs w1) d = fds f d"
    "nodes (fs w1) = nodes f" "sk w1 = sk w" "store w1 = store w"
  shows "nodes (fs (close_fd fd w2)) = nodes f" "fds (fs (close_fd fd w2)) = fds f"
    "store (close_fd fd w2) = store w" "sk (close_fd fd w2) = sk w2"
  using assms fs_close_effect [of fd "fs w2" "fst (fs_close fd (fs w2))" "snd (fs_close fd (fs w2))"]
  by (auto simp: close_fd_def conv_step_def only_reads_def io_frame_def fun_eq_iff)

text \<open>The file opened, measured and sent, or a failure before anything was sent.\<close>

lemma client_send_file_raw_cases:
  assumes run: "client_send_file_raw cn opt w = (rc, w')" and path: "co_path opt = Some path"
    and ok: "fs_ok (fs w)" "fs_sizes_ok (fs w)"
  obtains
    (early) "rc = 1" "sk w' = sk w" "nodes (fs w') = nodes (fs w)" "fds (fs w') = fds (fs w)" "store w' = store w"
      "\<And>c m. nodes (fs w) (canon path) = Some (FileN c m) \<Longrightarrow> fs_quiet (fs w) \<Longrightarrow>
         0 < length (fs_basename_from_path path) \<Longrightarrow> length (fs_basename_from_path path) \<le> 255 \<Longrightarrow>
         of_nat (length c) \<le> HF_MAX_FILE_SIZE \<Longrightarrow> \<not> client_connect cn (co_ip opt)"
  | (conv) fd p c m w1 w2 good where "0 < length (fs_basename_from_path path)" "length (fs_basename_from_path path) \<le> 255"
      "nodes (fs w) p = Some (FileN c m)"
      "p = canon path \<or> (\<exists>t n. nodes (fs w) (canon path) = Some (SymlinkN t n) \<and> p = canon t)"
      "fd = int (next_fd (fs w))" "reading (fs w1) fd p 0 c" "sk w1 = sk w" "store w1 = store w"
      "nodes (fs w1) = nodes (fs w)" "\<forall>d. d \<noteq> fd \<longrightarrow> fds (fs w1) d = fds (fs w) d"
      "(of_nat (length c) :: u64) \<le> HF_MAX_FILE_SIZE"
      "client_run_upload (co_msg_type opt) (fs_basename_from_path path)
         (of_nat (length (fs_basename_from_path path))) fd (of_nat (length c)) w1 = (good, w2)"
      "w' = close_fd fd w2" "rc = (if good then 0 else 1)"
proof (cases "proto_get_file_name_len (fs_basename_from_path path)")
  case None
  with run path show thesis
    by (intro early) (auto simp: client_send_file_raw_def proto_get_file_name_len_def
        HF_PROTOCOL_MAX_FILE_NAME_LEN_def Let_def split: if_splits)
next
  case (Some len)
  let ?name = "fs_basename_from_path path"
  have nm: "0 < length ?name" "length ?name \<le> 255" "len = of_nat (length ?name)"
    using Some by (auto simp: proto_get_file_name_len_def HF_PROTOCOL_MAX_FILE_NAME_LEN_def split: if_splits)
  have chunk: "\<not> unat (proto_file_transfer_prefix_size len) > CHUNK_SIZE"
  proof -
    have "unat (of_nat (10 + length ?name) :: u64) = 10 + length ?name"
      by (rule unat_of_nat_small) (use nm(2) in simp)
    then have "unat (proto_file_transfer_prefix_size len) = 10 + length ?name"
      unfolding nm(3) prefix_size_word(1) [OF nm(2)] .
    then show ?thesis using nm(2) by (simp add: CHUNK_SIZE_def)
  qed
  obtain x f1 where op: "fs_open path [O_RDONLY] (fs w) = (x, f1)" by fastforce
  from op show thesis
  proof (cases rule: open_rdonly_cases)
    case (fail e)
    with run path Some op show thesis
      by (intro early) (auto simp: client_send_file_raw_def Let_def)
  next
    case opened: (ok fd p n)
    have none: "fds (fs w) fd = None" using ok(1) opened(2) by (simp add: fs_ok_def)
    obtain y f2 where st: "posix_fstat fd f1 = (y, f2)" by fastforce
    note fe = posix_fstat_effect [OF st]
    have same: "nodes (fs (close_fd fd (w\<lparr>fs := f2\<rparr>))) = nodes (fs w)"
      "fds (fs (close_fd fd (w\<lparr>fs := f2\<rparr>))) = fds (fs w)" "sk (close_fd fd (w\<lparr>fs := f2\<rparr>)) = sk w"
      "store (close_fd fd (w\<lparr>fs := f2\<rparr>)) = store w"
      using close_fd_same [of fd "w\<lparr>fs := f2\<rparr>" "w\<lparr>fs := f2\<rparr>" "fs w" w] fe opened none
      by (auto simp: conv_step_def)
    have y: "y = Inr n'" if "y = Inr n''" "n' = n" for n' n''
      using fe(5) [of "\<lparr>of_path = p, of_pos = 0\<rparr>" n''] opened that by auto
    have yq: "fs_quiet (fs w) \<Longrightarrow> y = Inr n"
      using fe(6) [of "\<lparr>of_path = p, of_pos = 0\<rparr>" n] opened fs_quiet_subset [of "fs w" f1] by auto
    show thesis
    proof (cases "y = Inr n \<and> is_file n \<and> of_nat (length (node_content n)) \<le> HF_MAX_FILE_SIZE \<and>
        client_connect cn (co_ip opt)")
      case False
      have "(rc, w') = (1, close_fd fd (w\<lparr>fs := f2\<rparr>))"
        unfolding run [symmetric] using path Some op opened(1) st chunk False y
        by (auto simp: client_send_file_raw_def client_get_file_size_def close_fd_def Let_def not_less
            split: sum.splits)
      moreover have "p = canon path" if "nodes (fs w) (canon path) = Some (FileN c m)" for c m
        using that opened(5) by auto
      ultimately show thesis using same False yq opened(3) by (intro early) (auto simp: is_file_def)
    next
      case True
      then obtain c m where n: "n = FileN c m" by (auto simp: is_file_def)
      obtain good w2 where up: "client_run_upload (co_msg_type opt) ?name len fd (of_nat (length c))
          (w\<lparr>fs := f2\<rparr>) = (good, w2)" by fastforce
      have "(rc, w') = (if good then 0 else 1, close_fd fd w2)"
        unfolding run [symmetric] using path Some op opened(1) st chunk True n up
        by (auto simp: client_send_file_raw_def client_get_file_size_def close_fd_def Let_def not_less)
      moreover have "reading (fs (w\<lparr>fs := f2\<rparr>)) fd p 0 c" using fe opened n by (simp add: reading_def)
      ultimately show thesis
        using nm opened fe up n True by (intro conv [of p c m fd "w\<lparr>fs := f2\<rparr>" good w2]) auto
    qed
  qed
qed


lemma client_send_file_raw_effect:
  assumes run: "client_send_file_raw cn opt w = (rc, w')" and path: "co_path opt = Some path"
    and ok: "fs_ok (fs w)" "fs_sizes_ok (fs w)" "0 \<le> sock_fd (sk w)"
  shows "nodes (fs w') = nodes (fs w) \<and> fds (fs w') = fds (fs w) \<and> store w' = store w"
    and "rc = 0 \<Longrightarrow> \<exists>c. file_at (fs w) path c \<and>
      tx_data (sk w') = tx_data (sk w) @ encode_header (init_header\<lparr>msg_type := co_msg_type opt,
        payload_size := of_nat (10 + length (fs_basename_from_path path) + length c)\<rparr>) @
        send_file_prefix (fs_basename_from_path path) c @ c \<and>
      rx_data (sk w) = ok_frame_bytes PROTO_PHASE_READY @ ok_frame_bytes PROTO_PHASE_FINAL @ rx_data (sk w')"
    and "nodes (fs w) (canon path) = Some (FileN c m) \<Longrightarrow> rx_calm w \<Longrightarrow> tx_quiet (sk w) \<Longrightarrow>
      0 < length (fs_basename_from_path path) \<Longrightarrow> length (fs_basename_from_path path) \<le> 255 \<Longrightarrow>
      of_nat (length c) \<le> HF_MAX_FILE_SIZE \<Longrightarrow> client_connect cn (co_ip opt) \<Longrightarrow>
      rx_data (sk w) = ok_frame_bytes PROTO_PHASE_READY @ ok_frame_bytes PROTO_PHASE_FINAL @ rest \<Longrightarrow> rc = 0"
proof -
  let ?same = "nodes (fs w') = nodes (fs w) \<and> fds (fs w') = fds (fs w) \<and> store w' = store w"
  let ?sent = "\<exists>c. file_at (fs w) path c \<and>
      tx_data (sk w') = tx_data (sk w) @ encode_header (init_header\<lparr>msg_type := co_msg_type opt,
        payload_size := of_nat (10 + length (fs_basename_from_path path) + length c)\<rparr>) @
        send_file_prefix (fs_basename_from_path path) c @ c \<and>
      rx_data (sk w) = ok_frame_bytes PROTO_PHASE_READY @ ok_frame_bytes PROTO_PHASE_FINAL @ rx_data (sk w')"
  let ?succ = "nodes (fs w) (canon path) = Some (FileN c m) \<longrightarrow> rx_calm w \<longrightarrow> tx_quiet (sk w) \<longrightarrow>
      0 < length (fs_basename_from_path path) \<longrightarrow> length (fs_basename_from_path path) \<le> 255 \<longrightarrow>
      of_nat (length c) \<le> HF_MAX_FILE_SIZE \<longrightarrow> client_connect cn (co_ip opt) \<longrightarrow>
      rx_data (sk w) = ok_frame_bytes PROTO_PHASE_READY @ ok_frame_bytes PROTO_PHASE_FINAL @ rest \<longrightarrow> rc = 0"
  have "?same \<and> (rc = 0 \<longrightarrow> ?sent) \<and> ?succ"
    using run path ok(1,2)
  proof (cases rule: client_send_file_raw_cases)
    case early
    then show ?thesis by (auto simp: rx_calm_def)
  next
    case (conv fd p c' m' w1 w2 good)
    have len: "length c' < 2 ^ 64" using ok(2) conv(3) by (auto simp: fs_sizes_ok_def)
    have fd: "0 \<le> fd" "0 \<le> sock_fd (sk w1)" using conv(5,7) ok(3) by auto
    note up = client_run_upload_effect [OF conv(12,6) refl len fd(1) conv(1,2) refl fd(2)]
    have none: "fds (fs w) fd = None" using ok(1) conv(5) by (simp add: fs_ok_def)
    note cl = close_fd_same [OF up(1) none conv(10,9,7,8)]
    have ?same using cl conv(13) by simp
    moreover have "rc = 0 \<longrightarrow> ?sent"
      using up(2) conv(3,4,7,13,14) cl(4) by (auto simp: file_at_def)
    moreover have ?succ
      using up(3) [of rest] conv(7,14) by (auto simp: rx_calm_def)
    ultimately show ?thesis by blast
  qed
  then show ?same "rc = 0 \<Longrightarrow> ?sent" "nodes (fs w) (canon path) = Some (FileN c m) \<Longrightarrow> rx_calm w \<Longrightarrow> tx_quiet (sk w) \<Longrightarrow>
      0 < length (fs_basename_from_path path) \<Longrightarrow> length (fs_basename_from_path path) \<le> 255 \<Longrightarrow>
      of_nat (length c) \<le> HF_MAX_FILE_SIZE \<Longrightarrow> client_connect cn (co_ip opt) \<Longrightarrow>
      rx_data (sk w) = ok_frame_bytes PROTO_PHASE_READY @ ok_frame_bytes PROTO_PHASE_FINAL @ rest \<Longrightarrow> rc = 0"
    by blast+
qed


section \<open>Fetching a file\<close>

text \<open>The search for a temporary name is the one of the receiving side, but for what a failure leaves.\<close>

lemma client_open_temp_loop_transfer:
  assumes "client_open_temp_loop 4096 final i a t f = (x, tmp, f')"
  shows "\<exists>y. transfer_open_loop 4096 final i a f = (y, f') \<and>
    (case x of Some fd \<Rightarrow> y = Inr (tmp, fd) | None \<Rightarrow> \<exists>e. y = Inl e)"
  using assms
proof (induction "4096 :: nat" final i a t f rule: client_open_temp_loop.induct)
  case (1 final i a t f)
  note unf = client_open_temp_loop.simps [of 4096 final i a t f] transfer_open_loop.simps [of 4096 final i a f]
  show ?case
  proof (cases "a < 3 \<and> (\<exists>tmp'. fs_build_temp_path 4096 final i (int a) = Some tmp' \<and>
      fst (fs_open_temp_file tmp' f) = Inl EEXIST)")
    case True
    then obtain tmp' g where t: "fs_build_temp_path 4096 final i (int a) = Some tmp'" "a < 3"
      "fs_open_temp_file tmp' f = (Inl EEXIST, g)" by (auto simp: prod_eq_iff)
    with "1.prems" have "client_open_temp_loop 4096 final i (Suc a) tmp' g = (x, tmp, f')"
      by (simp add: unf)
    from "1.hyps" [OF t(2,1) t(3) [symmetric] refl _ this] t show ?thesis by (simp add: unf)
  next
    case False
    with "1.prems" show ?thesis
      by (auto simp: unf split: if_splits option.splits prod.splits sum.splits)
  qed
qed

lemma client_get_cleanup_transfer:
  "tmp \<noteq> [] \<Longrightarrow> client_get_cleanup code out tmp w = (code, w\<lparr>fs := transfer_cleanup (Inl e) out tmp (fs w)\<rparr>)"
  by (simp add: client_get_cleanup_def transfer_cleanup_def Let_def)

text \<open>A download in place, and the rest of the stream.\<close>

definition fetched :: "string \<Rightarrow> u64 \<Rightarrow> world \<Rightarrow> world \<Rightarrow> bool" where
  "fetched output sz w w' \<longleftrightarrow> unat sz \<le> length (rx_data (sk w)) \<and>
     delivered output (take (unat sz) (rx_data (sk w))) (fs w) (fs w') \<and>
     drop (unat sz) (rx_data (sk w)) = ok_frame_bytes PROTO_PHASE_FINAL @ rx_data (sk w')"

lemma client_save_download_opened:
  assumes run: "client_save_download output sz w = (rc, w')"
    and op: "client_open_temp_download output w = (Some fd, tmp, f1)"
    and ok: "fs_ok (fs w)" "\<not> splice_direct w" "0 \<le> sock_fd (sk w)"
  shows "rc = 0 \<and> fetched output sz w w' \<or> rc = 1 \<and> abandoned output (pid w) (fs w) (fs w')"
    and "rx_calm w \<Longrightarrow> \<forall>m. nodes (fs w) (canon output) \<noteq> Some (DirN m) \<Longrightarrow> unat sz \<le> length (rx_data (sk w)) \<Longrightarrow>
      drop (unat sz) (rx_data (sk w)) = ok_frame_bytes PROTO_PHASE_FINAL @ rest \<Longrightarrow> rc = 0"
proof -
  have tl: "transfer_open_loop 4096 output (pid w) 0 (fs w) = (Inr (tmp, fd), f1)"
    using client_open_temp_loop_transfer [OF op [unfolded client_open_temp_download_def]] by simp
  have opd: "temp_opened output (pid w) (fs w) tmp fd f1"
    using transfer_open_loop_effect [OF tl] by simp
  then have tmp: "tmp \<noteq> []" by (auto simp: temp_opened_def dest: temp_path_not_Nil)
  obtain r2 w2 where rcv: "transfer_recv_body fd sz (w\<lparr>fs := f1\<rparr>) = (r2, w2)" by fastforce
  have rb: "client_recv_file_body fd sz (w\<lparr>fs := f1\<rparr>) = (r2 = PROTOCOL_OK, w2)"
  proof -
    obtain x w3 where n: "net_recv_file_best_effort fd sz (w\<lparr>fs := f1\<rparr>) = (x, w3)" by fastforce
    have "(transfer_recv_code x = PROTOCOL_OK) = (x = NET_RECV_FILE_OK)" by (cases x) auto
    with n rcv show ?thesis by (auto simp: client_recv_file_body_def transfer_recv_body_def)
  qed
  obtain j k where kl: "k \<le> j" "j \<le> length (rx_data (sk w))" "j \<le> unat sz"
    "temp_filling output (pid w) (fs w) tmp fd (take k (rx_data (sk w))) (fs w2)"
    "rx_data (sk w2) = drop j (rx_data (sk w))" "rx_only (sk w) (sk w2)" "io_frame w w2"
    "r2 = PROTOCOL_OK \<Longrightarrow> k = unat sz"
    "rx_calm w \<Longrightarrow> r2 = PROTOCOL_OK \<or> j < unat sz \<and> j = length (rx_data (sk w))"
    by (rule sock_body.receive_filling [OF _ _ ok rcv]) (use opd in \<open>auto simp: io_frame_def\<close>)
  obtain ok3 f3 where cl: "fs_close fd (fs w2) = (ok3, f3)" by fastforce
  note c3 = fs_close_effect [OF cl]
  obtain ok4 w4 where rsp: "client_recv_checked_response PROTO_PHASE_FINAL (w2\<lparr>fs := f3\<rparr>) = (ok4, w4)" by fastforce
  note e4 = client_recv_checked_effect [OF rsp]
  note d4 = rx_step_D [OF e4(1)]
  obtain ok5 f5 where cm: "fs_commit_temp_file tmp output f3 = (ok5, f5)" by fastforce
  note c5 = fs_commit_effect [OF cm]
  let ?bad = "\<lambda>out w. (1 :: int, w\<lparr>fs := transfer_cleanup (Inl PROTOCOL_ERR_IO) out tmp (fs w)\<rparr>)"
  have eq: "(rc, w') = (if r2 \<noteq> PROTOCOL_OK then ?bad fd w2
      else if \<not> ok3 then ?bad (-1) (w2\<lparr>fs := f3\<rparr>) else if \<not> ok4 then ?bad (-1) w4
      else if \<not> ok5 then ?bad (-1) (w4\<lparr>fs := f5\<rparr>) else (0, w4\<lparr>fs := f5\<rparr>))"
    unfolding run [symmetric] using op rb cl rsp cm d4(1)
    by (simp add: client_save_download_def client_get_cleanup_transfer [OF tmp, of _ _ _ PROTOCOL_ERR_IO]
        client_get_cleanup_def [where tmp_path = "[]"] cong: if_cong split del: if_split)
  note ab = transfer_cleanup_abandoned [OF kl(4) tmp, where e = PROTOCOL_ERR_IO]
  have ab1: "abandoned output (pid w) (fs w) (transfer_cleanup (Inl PROTOCOL_ERR_IO) fd tmp (fs w2))"
    by (rule ab) auto
  have ab2: "abandoned output (pid w) (fs w) (transfer_cleanup (Inl PROTOCOL_ERR_IO) (-1) tmp f3)"
    by (rule ab) (use c3 in auto)
  have ab3: "\<not> ok5 \<Longrightarrow> abandoned output (pid w) (fs w) (transfer_cleanup (Inl PROTOCOL_ERR_IO) (-1) tmp f5)"
    by (rule ab) (use c3 c5 in auto)
  have fdn: "fd \<noteq> -1" using kl(4) by (auto simp: temp_filling_def)
  obtain rs out g where fin: "transfer_finalize_output fd tmp output (Suc (length output)) (fs w2) = (rs, out, g)"
    by (metis prod_cases3)
  have fineq: "(rs, out, g) = (if \<not> ok3 then (Inl PROTOCOL_ERR_IO, -1, f3)
      else if \<not> ok5 then (Inl PROTOCOL_ERR_IO, -1, f5) else (Inr output, -1, f5))"
    unfolding fin [symmetric] using fdn cl cm by (auto simp: transfer_finalize_output_def split: bool.splits)
  show "rc = 0 \<and> fetched output sz w w' \<or> rc = 1 \<and> abandoned output (pid w) (fs w) (fs w')"
  proof (cases "r2 = PROTOCOL_OK \<and> ok3 \<and> ok4 \<and> ok5")
    case True
    then have "delivered output (take k (rx_data (sk w))) (fs w) f5"
      using transfer_finalize_delivered(1) [OF kl(4) tmp fin] fineq by (simp add: transfer_cleanup_def)
    moreover have "k = unat sz" "j = unat sz" using kl True by auto
    ultimately show ?thesis
      using True eq e4(2) kl(2,5) by (simp add: fetched_def)
  next
    case False
    with eq ab1 ab2 ab3 d4(1) show ?thesis by (auto split: if_splits)
  qed
  assume q: "rx_calm w" "\<forall>m. nodes (fs w) (canon output) \<noteq> Some (DirN m)" "unat sz \<le> length (rx_data (sk w))"
    "drop (unat sz) (rx_data (sk w)) = ok_frame_bytes PROTO_PHASE_FINAL @ rest"
  have r2: "r2 = PROTOCOL_OK" using kl q by auto
  have fq: "fs_quiet (fs w)" using q(1) by (simp add: rx_calm_def)
  have "ok3 \<and> ok5"
    using transfer_finalize_delivered(2) [OF kl(4) tmp fin fq _ q(2)] fineq by (auto split: if_splits)
  moreover have "rx_quiet (sk w2)" using q(1) kl(6) by (auto simp: rx_calm_def rx_only_def rx_quiet_def)
  then have ok4 using e4(3) [of rest] kl q ok(3) r2 by (simp add: rx_only_def)
  ultimately show "rc = 0" using eq r2 by simp
qed


text \<open>
  The three names the client tries for its temporary file are all usable. Without this, a failed
  search ends with the removal of the last name tried, which the client did not create.
\<close>

definition temp_names_free :: "string \<Rightarrow> int \<Rightarrow> fsys \<Rightarrow> bool" where
  "temp_names_free full i f \<longleftrightarrow>
     (\<forall>a < 3. \<exists>tmp. fs_build_temp_path 4096 full i (int a) = Some tmp \<and> nodes f (canon tmp) = None)"

lemma client_open_temp_fails_free:
  assumes "client_open_temp_loop 4096 full i a t f = (None, tmp, f')" and "temp_names_free full i f"
    and "t = [] \<or> nodes f (canon t) = None"
  shows "tmp = [] \<or> nodes f' (canon tmp) = None"
  using assms
proof (induction "4096 :: nat" full i a t f rule: client_open_temp_loop.induct)
  case (1 full i a t f)
  note unf = client_open_temp_loop.simps [of 4096 full i a t f]
  show ?case
  proof (cases "a < 3")
    case False
    with "1.prems" show ?thesis by (auto simp: unf)
  next
    case less: True
    with "1.prems"(2) obtain u where u: "fs_build_temp_path 4096 full i (int a) = Some u" "nodes f (canon u) = None"
      by (auto simp: temp_names_free_def)
    obtain x g where op: "fs_open_temp_file u f = (x, g)" by fastforce
    from op show ?thesis
    proof (cases rule: fs_open_temp_file_cases)
      case (fail e)
      have g: "temp_names_free full i g" "nodes g (canon u) = None"
        using fail(2) "1.prems"(2) u(2) by (simp_all add: temp_names_free_def)
      show ?thesis
      proof (cases "e = EEXIST")
        case True
        with "1.prems"(1) less u op fail have "client_open_temp_loop 4096 full i (Suc a) u g = (None, tmp, f')"
          by (simp add: unf)
        from "1.hyps" [OF less u(1) op [symmetric] fail(1) _ this g(1)] True g(2) show ?thesis by simp
      next
        case False
        with "1.prems"(1) less u op fail g show ?thesis by (auto simp: unf)
      qed
    next
      case (ok fd)
      with "1.prems"(1) less u op show ?thesis by (auto simp: unf)
    qed
  qed
qed

lemma client_save_download_unopened:
  assumes run: "client_save_download output sz w = (rc, w')"
    and op: "client_open_temp_download output w = (None, tmp, f1)" and ok: "fs_ok (fs w)"
  shows "rc = 1" and "sk w' = sk w" and "fs w' = (if tmp = [] then f1 else fs_remove_ignore_error tmp f1)"
    and "fs_untouched (fs w) f1"
    and "temp_names_free output (pid w) (fs w) \<Longrightarrow> abandoned output (pid w) (fs w) (fs w')"
proof -
  show w': "rc = 1" "sk w' = sk w" "fs w' = (if tmp = [] then f1 else fs_remove_ignore_error tmp f1)"
    using run op by (auto simp: client_save_download_def client_get_cleanup_def Let_def)
  obtain e where "transfer_open_loop 4096 output (pid w) 0 (fs w) = (Inl e, f1)"
    using client_open_temp_loop_transfer [OF op [unfolded client_open_temp_download_def]] by auto
  from transfer_open_loop_effect [OF this] show un: "fs_untouched (fs w) f1" by simp
  assume "temp_names_free output (pid w) (fs w)"
  then have "tmp = [] \<or> nodes f1 (canon tmp) = None"
    using client_open_temp_fails_free [OF op [unfolded client_open_temp_download_def]] by simp
  then have "nodes (fs w') q = nodes f1 q" for q
    using fs_remove_effect(4,5) [where p = tmp and f = f1] w'(3) by (cases "q = canon tmp") auto
  then have "fs_untouched (fs w) (fs w')"
    using un fs_remove_effect(1-3) [of tmp f1] w'(3) by (auto simp: fs_untouched_def fun_eq_iff split: if_splits)
  then show "abandoned output (pid w) (fs w) (fs w')" by (rule fs_untouched_abandoned [OF _ ok])
qed

lemma client_save_download_effect:
  assumes run: "client_save_download output sz w = (rc, w')"
    and ok: "fs_ok (fs w)" "\<not> splice_direct w" "0 \<le> sock_fd (sk w)"
  shows "rc = 0 \<and> fetched output sz w w' \<or> rc = 1"
    and "rc = 1 \<Longrightarrow> temp_names_free output (pid w) (fs w) \<Longrightarrow> abandoned output (pid w) (fs w) (fs w')"
    and "rx_calm w \<Longrightarrow> temp_names_free output (pid w) (fs w) \<Longrightarrow>
      \<forall>m. nodes (fs w) (canon output) \<noteq> Some (DirN m) \<Longrightarrow> unat sz \<le> length (rx_data (sk w)) \<Longrightarrow>
      drop (unat sz) (rx_data (sk w)) = ok_frame_bytes PROTO_PHASE_FINAL @ rest \<Longrightarrow> rc = 0"
proof -
  obtain x tmp f1 where op: "client_open_temp_download output w = (x, tmp, f1)" by (metis prod_cases3)
  note un = client_save_download_unopened [OF run _ ok(1)]
  have so: "rc = 0 \<and> fetched output sz w w' \<or> rc = 1 \<and> abandoned output (pid w) (fs w) (fs w')"
    if "x = Some fd" for fd
    by (rule client_save_download_opened(1) [OF run op [unfolded that] ok])
  show "rc = 0 \<and> fetched output sz w w' \<or> rc = 1" using un(1) so op by (cases x) auto
  show "abandoned output (pid w) (fs w) (fs w')" if "rc = 1" "temp_names_free output (pid w) (fs w)"
    using un(5) so op that by (cases x) auto
  assume q: "rx_calm w" "temp_names_free output (pid w) (fs w)"
    "\<forall>m. nodes (fs w) (canon output) \<noteq> Some (DirN m)" "unat sz \<le> length (rx_data (sk w))"
    "drop (unat sz) (rx_data (sk w)) = ok_frame_bytes PROTO_PHASE_FINAL @ rest"
  obtain t0 where t0: "fs_build_temp_path 4096 output (pid w) 0 = Some t0" "nodes (fs w) (canon t0) = None"
    using q(2) [unfolded temp_names_free_def, THEN spec [of _ 0]] by auto
  have "fs_quiet (fs w)" using q(1) by (simp add: rx_calm_def)
  then obtain fd g where "transfer_open_loop 4096 output (pid w) 0 (fs w) = (Inr (t0, fd), g)"
    using t0 by (rule transfer_open_loop_quiet)
  then obtain fd' where "x = Some fd'"
    using client_open_temp_loop_transfer [OF op [unfolded client_open_temp_download_def]] by (auto split: option.splits)
  then show "rc = 0" using client_save_download_opened(2) [OF run _ ok q(1,3-5)] op by simp
qed


text \<open>The request, and where the file goes.\<close>

definition get_request :: "string \<Rightarrow> byte list" where
  "get_request name =
     encode_header (get_file_header name) @ htons_bytes (of_nat (length name)) @ bytes_of_string name"

definition download_target :: "client_opt \<Rightarrow> string \<Rightarrow> string option" where
  "download_target opt offered =
     (case co_output_path opt of
        Some out \<Rightarrow> Some out
      | None \<Rightarrow> if fs_validate_file_name offered then Some offered else None)"

lemma client_get_file_cases:
  assumes run: "client_get_file cn opt w = (rc, w')" and rp: "co_remote_path opt = Some remote"
    and sfd: "0 \<le> sock_fd (sk w)"
  obtains
    (early) "rc = 1" "fs w' = fs w" "store w' = store w"
      "\<And>raw sz rest. rx_calm w \<Longrightarrow> tx_quiet (sk w) \<Longrightarrow> fs_validate_file_name remote \<Longrightarrow> length remote \<le> 255 \<Longrightarrow>
         client_connect cn (co_ip opt) \<Longrightarrow> 0 < length raw \<Longrightarrow> length raw \<le> 255 \<Longrightarrow> sz \<le> HF_MAX_FILE_SIZE \<Longrightarrow>
         download_target opt (cstr (string_of_bytes raw)) \<noteq> None \<Longrightarrow>
         rx_data (sk w) \<noteq> ok_frame_bytes PROTO_PHASE_READY @ htons_bytes (of_nat (length raw)) @ raw @
           encode_u64_be sz @ rest"
  | (body) raw dest sz w3 where "0 < length raw" "length raw \<le> 255" "sz \<le> HF_MAX_FILE_SIZE"
      "download_target opt (cstr (string_of_bytes raw)) = Some dest"
      "tx_data (sk w3) = tx_data (sk w) @ get_request remote"
      "rx_data (sk w) = ok_frame_bytes PROTO_PHASE_READY @ htons_bytes (of_nat (length raw)) @ raw @
         encode_u64_be sz @ rx_data (sk w3)"
      "client_save_download dest sz w3 = (rc, w')" "fs w3 = fs w" "store w3 = store w" "pid w3 = pid w"
      "splice_direct w3 = splice_direct w" "sock_fd (sk w3) = sock_fd (sk w)" "rx_calm w \<Longrightarrow> rx_calm w3"
proof (cases "fs_validate_file_name remote \<and> (\<exists>l. proto_get_file_name_len remote = Some l) \<and>
    client_connect cn (co_ip opt)")
  case False
  have "0 < length remote" if "fs_validate_file_name remote"
    using that by (cases remote) (auto simp: fs_validate_file_name_def)
  with False have nn: "\<not> (fs_validate_file_name remote \<and> length remote \<le> 255 \<and> client_connect cn (co_ip opt))"
    by (auto simp: proto_get_file_name_len_def HF_PROTOCOL_MAX_FILE_NAME_LEN_def)
  from False run rp have "rc = 1" "w' = w"
    by (auto simp: client_get_file_def split: option.splits if_splits)
  with nn show thesis by (intro early) auto
next
  case True
  then obtain len where len: "proto_get_file_name_len remote = Some len" by auto
  then have nm: "0 < length remote" "length remote \<le> 255" "len = of_nat (length remote)"
    by (auto simp: proto_get_file_name_len_def HF_PROTOCOL_MAX_FILE_NAME_LEN_def split: if_splits)
  let ?buf = "htons_bytes (of_nat (length remote)) @ bytes_of_string remote"
  have enc: "encode_file_name_only remote = Inr ?buf" by (rule encode_file_prefix_bytes(2) [OF nm(1,2)])
  have hdr: "init_header\<lparr>msg_type := HF_MSG_TYPE_GET_FILE, payload_size := proto_file_name_only_size len\<rparr> =
      get_file_header remote"
    by (simp only: get_file_header_def nm(3) prefix_size_word(2) [OF nm(2)])
  obtain ok1 w1 where s1: "client_send_header_payload HF_MSG_TYPE_GET_FILE (proto_file_name_only_size len) ?buf w
      = (ok1, w1)" by fastforce
  obtain ok2 w2 where s2: "client_recv_checked_response PROTO_PHASE_READY w1 = (ok2, w2)" by fastforce
  obtain x w3 where s3: "proto_recv_file_transfer_prefix w2 = (x, w3)" by fastforce
  note e1 = client_send_header_payload_effect [OF s1 sfd, unfolded hdr] and e2 = client_recv_checked_effect [OF s2]
    and e3 = proto_recv_file_transfer_prefix_effect [OF s3]
  note t1 = tx_step_D [OF e1(1)] and t2 = rx_step_D [OF e2(1)] and t3 = rx_step_D [OF e3(1)]
  have calm: "rx_calm w1" "rx_calm w2" "rx_calm w3" if "rx_calm w"
    using that tx_step_rx_calm [OF e1(1)] rx_step_calm [OF e2(1)] rx_step_calm [OF e3(1)] by auto
  have stop: "client_get_cleanup 1 (-1) [] v = (1, v)" for v by (simp add: client_get_cleanup_def)
  have eq: "(rc, w') = (if \<not> ok1 then (1, w1) else if \<not> ok2 then (1, w2) else case x of Inl e \<Rightarrow> (1, w3)
      | Inr (nm, sz) \<Rightarrow> if sz > HF_MAX_FILE_SIZE then (1, w3)
          else case download_target opt nm of None \<Rightarrow> (1, w3) | Some dest \<Rightarrow> client_save_download dest sz w3)"
    unfolding run [symmetric] using s1 s2 s3 True len enc rp
    by (simp add: client_get_file_def stop download_target_def split: option.splits sum.splits prod.splits)
  show thesis
  proof (cases "ok1 \<and> ok2 \<and> (\<exists>nm sz dest. x = Inr (nm, sz) \<and> sz \<le> HF_MAX_FILE_SIZE \<and>
      download_target opt nm = Some dest)")
    case True
    then obtain nm sz dest where c: ok1 ok2 "x = Inr (nm, sz)" "sz \<le> HF_MAX_FILE_SIZE"
      "download_target opt nm = Some dest" by blast
    obtain raw where raw: "0 < length raw" "length raw \<le> 255" "nm = cstr (string_of_bytes raw)"
      "rx_data (sk w2) = htons_bytes (of_nat (length raw)) @ raw @ encode_u64_be sz @ rx_data (sk w3)"
      using e3(2) [OF c(3)] by blast
    show thesis
      using e1(2) e2(2) t1 t2 t3 c raw eq calm
      by (intro body [of raw sz dest w3]) (auto simp: get_request_def not_less)
  next
    case False
    then have rc: "rc = 1" "w' \<in> {w1, w2, w3}"
      using eq by (auto simp: not_le split: if_splits sum.splits prod.splits option.splits)
    have "rx_data (sk w) \<noteq> ok_frame_bytes PROTO_PHASE_READY @ htons_bytes (of_nat (length raw)) @ raw @
        encode_u64_be sz @ rest"
      if q: "rx_calm w" "tx_quiet (sk w)" "0 < length raw" "length raw \<le> 255" "sz \<le> HF_MAX_FILE_SIZE"
        "download_target opt (cstr (string_of_bytes raw)) \<noteq> None" for raw sz rest
    proof
      assume d: "rx_data (sk w) = ok_frame_bytes PROTO_PHASE_READY @ htons_bytes (of_nat (length raw)) @ raw @
        encode_u64_be sz @ rest"
      have "rx_quiet (sk w1)" using calm(1) q(1) by (simp add: rx_calm_def)
      with e2(3) d t1 sfd have "ok2" "rx_data (sk w2) = htons_bytes (of_nat (length raw)) @ raw @ encode_u64_be sz @ rest"
        by auto
      moreover from this have "x = Inr (cstr (string_of_bytes raw), sz)" using e3(3) calm(2) q by blast
      ultimately show False using False e1(3) q by auto
    qed
    with rc t1 t2 t3 show thesis by (intro early) auto
  qed
qed


lemma client_save_download_tx:
  assumes run: "client_save_download dest sz w = (rc, w')"
    and ok: "fs_ok (fs w)" "\<not> splice_direct w" "0 \<le> sock_fd (sk w)"
  shows "tx_data (sk w') = tx_data (sk w)"
proof -
  obtain x tmp f1 where op: "client_open_temp_download dest w = (x, tmp, f1)" by (metis prod_cases3)
  show ?thesis
  proof (cases x)
    case None
    with op client_save_download_unopened(2) [OF run _ ok(1)] show ?thesis by simp
  next
    case (Some fd)
    have "transfer_open_loop 4096 dest (pid w) 0 (fs w) = (Inr (tmp, fd), f1)"
      using client_open_temp_loop_transfer [OF op [unfolded client_open_temp_download_def]] Some by simp
    then have opd: "temp_opened dest (pid w) (fs w) tmp fd f1" using transfer_open_loop_effect by fastforce
    obtain x2 w2 where nr: "net_recv_file_best_effort fd sz (w\<lparr>fs := f1\<rparr>) = (x2, w2)" by fastforce
    then have rb: "transfer_recv_body fd sz (w\<lparr>fs := f1\<rparr>) = (transfer_recv_code x2, w2)"
      by (simp add: transfer_recv_body_def)
    have rxo: "rx_only (sk w) (sk w2)"
      by (rule sock_body.receive_filling [OF _ _ ok rb]) (use opd in \<open>auto simp: io_frame_def\<close>)
    obtain ok3 f3 where cl: "fs_close fd (fs w2) = (ok3, f3)" by fastforce
    obtain ok4 w4 where rsp: "client_recv_checked_response PROTO_PHASE_FINAL (w2\<lparr>fs := f3\<rparr>) = (ok4, w4)" by fastforce
    note t4 = rx_step_D [OF client_recv_checked_effect(1) [OF rsp]]
    obtain ok5 f5 where cm: "fs_commit_temp_file tmp dest (fs w4) = (ok5, f5)" by fastforce
    have "sk w' = sk w2 \<or> sk w' = sk w4"
      using run op Some nr cl rsp cm
      by (auto simp: client_save_download_def client_recv_file_body_def client_get_cleanup_def Let_def split: if_splits)
    with rxo t4 show ?thesis by (auto simp: rx_only_def)
  qed
qed

text \<open>A finished download: what was asked, what came, and where it went.\<close>

definition download_stored :: "client_opt \<Rightarrow> string \<Rightarrow> world \<Rightarrow> world \<Rightarrow> bool" where
  "download_stored opt remote w w' \<longleftrightarrow>
     tx_data (sk w') = tx_data (sk w) @ get_request remote \<and>
     (\<exists>raw c dest. 0 < length raw \<and> length raw \<le> 255 \<and> length c < 2 ^ 64 \<and>
        (of_nat (length c) :: u64) \<le> HF_MAX_FILE_SIZE \<and>
        download_target opt (cstr (string_of_bytes raw)) = Some dest \<and>
        rx_data (sk w) = ok_frame_bytes PROTO_PHASE_READY @ htons_bytes (of_nat (length raw)) @ raw @
          encode_u64_be (of_nat (length c)) @ c @ ok_frame_bytes PROTO_PHASE_FINAL @ rx_data (sk w') \<and>
        delivered dest c (fs w) (fs w'))"

lemma fetched_content:
  assumes "fetched dest sz w w'"
  obtains c where "unat sz = length c" "rx_data (sk w) = c @ ok_frame_bytes PROTO_PHASE_FINAL @ rx_data (sk w')"
    "delivered dest c (fs w) (fs w')"
  using assms append_take_drop_id [of "unat sz" "rx_data (sk w)"]
  by (intro that [of "take (unat sz) (rx_data (sk w))"]) (auto simp: fetched_def)

lemma client_get_file_effect:
  assumes run: "client_get_file cn opt w = (rc, w')" and rp: "co_remote_path opt = Some remote"
    and ok: "fs_ok (fs w)" "\<not> splice_direct w" "0 \<le> sock_fd (sk w)"
  shows "rc = 0 \<Longrightarrow> download_stored opt remote w w'"
    and "rc \<noteq> 0 \<Longrightarrow> fs w' = fs w \<or> (\<exists>offered dest. download_target opt offered = Some dest \<and>
      (temp_names_free dest (pid w) (fs w) \<longrightarrow> abandoned dest (pid w) (fs w) (fs w')))"
    and "rx_calm w \<Longrightarrow> tx_quiet (sk w) \<Longrightarrow> fs_validate_file_name remote \<Longrightarrow> length remote \<le> 255 \<Longrightarrow>
      client_connect cn (co_ip opt) \<Longrightarrow> 0 < length raw \<Longrightarrow> length raw \<le> 255 \<Longrightarrow>
      length c < 2 ^ 64 \<Longrightarrow> of_nat (length c) \<le> HF_MAX_FILE_SIZE \<Longrightarrow>
      download_target opt (cstr (string_of_bytes raw)) = Some dest \<Longrightarrow> temp_names_free dest (pid w) (fs w) \<Longrightarrow>
      \<forall>m. nodes (fs w) (canon dest) \<noteq> Some (DirN m) \<Longrightarrow>
      rx_data (sk w) = ok_frame_bytes PROTO_PHASE_READY @ htons_bytes (of_nat (length raw)) @ raw @
        encode_u64_be (of_nat (length c)) @ c @ ok_frame_bytes PROTO_PHASE_FINAL @ rest \<Longrightarrow>
      rc = 0 \<and> rx_data (sk w') = rest \<and> delivered dest c (fs w) (fs w')"
proof -
  consider "rc = 1" "fs w' = fs w"
    | raw dest sz w3 where "client_save_download dest sz w3 = (rc, w')" "fs w3 = fs w" "pid w3 = pid w"
      "splice_direct w3 = splice_direct w" "sock_fd (sk w3) = sock_fd (sk w)"
      "0 < length raw" "length raw \<le> 255" "sz \<le> HF_MAX_FILE_SIZE"
      "download_target opt (cstr (string_of_bytes raw)) = Some dest"
      "rx_data (sk w) = ok_frame_bytes PROTO_PHASE_READY @ htons_bytes (of_nat (length raw)) @ raw @
         encode_u64_be sz @ rx_data (sk w3)"
      "tx_data (sk w3) = tx_data (sk w) @ get_request remote"
    using run rp ok(3) by (cases rule: client_get_file_cases) auto
  note oc = this
  show "download_stored opt remote w w'" if "rc = 0"
    using oc
  proof cases
    case (2 raw dest sz w3)
    then have "fetched dest sz w3 w'" using client_save_download_effect(1) [OF 2(1)] ok that by auto
    then obtain c where c: "unat sz = length c" "rx_data (sk w3) = c @ ok_frame_bytes PROTO_PHASE_FINAL @ rx_data (sk w')"
      "delivered dest c (fs w3) (fs w')" by (rule fetched_content)
    have "sz = of_nat (length c)" unfolding c(1) [symmetric] by simp
    moreover have "length c < 2 ^ 64" unfolding c(1) [symmetric] using unsigned_less [of sz] by simp
    moreover have "tx_data (sk w') = tx_data (sk w) @ get_request remote"
      using client_save_download_tx [OF 2(1)] 2 ok by simp
    ultimately show ?thesis
      unfolding download_stored_def using 2 c
      by (intro conjI exI [of _ raw] exI [of _ c] exI [of _ dest]) simp_all
  qed (use that in simp)
  show "fs w' = fs w \<or> (\<exists>offered dest. download_target opt offered = Some dest \<and>
      (temp_names_free dest (pid w) (fs w) \<longrightarrow> abandoned dest (pid w) (fs w) (fs w')))" if "rc \<noteq> 0"
    using oc
  proof cases
    case (2 raw dest sz w3)
    then have "temp_names_free dest (pid w) (fs w) \<longrightarrow> abandoned dest (pid w) (fs w) (fs w')"
      using client_save_download_effect(1,2) [OF 2(1)] ok that by auto
    with 2(9) show ?thesis by blast
  qed simp
  assume q: "rx_calm w" "tx_quiet (sk w)" "fs_validate_file_name remote" "length remote \<le> 255"
    "client_connect cn (co_ip opt)" "0 < length raw" "length raw \<le> 255" "length c < 2 ^ 64"
    "of_nat (length c) \<le> HF_MAX_FILE_SIZE" "download_target opt (cstr (string_of_bytes raw)) = Some dest"
    "temp_names_free dest (pid w) (fs w)" "\<forall>m. nodes (fs w) (canon dest) \<noteq> Some (DirN m)"
    "rx_data (sk w) = ok_frame_bytes PROTO_PHASE_READY @ htons_bytes (of_nat (length raw)) @ raw @
        encode_u64_be (of_nat (length c)) @ c @ ok_frame_bytes PROTO_PHASE_FINAL @ rest"
  from run rp ok(3) show "rc = 0 \<and> rx_data (sk w') = rest \<and> delivered dest c (fs w) (fs w')"
  proof (cases rule: client_get_file_cases)
    case early
    with early(4) [of raw "of_nat (length c)"] q show ?thesis by auto
  next
    case (body raw' dest' sz w3)
    have "htons_bytes (of_nat (length raw')) @ raw' @ encode_u64_be sz @ rx_data (sk w3) =
      htons_bytes (of_nat (length raw)) @ raw @ encode_u64_be (of_nat (length c)) @ c @
        ok_frame_bytes PROTO_PHASE_FINAL @ rest" using body(6) q(13) by simp
    then have same: "raw' = raw" "sz = of_nat (length c)"
      "rx_data (sk w3) = c @ ok_frame_bytes PROTO_PHASE_FINAL @ rest"
      using file_prefix_inject [OF _ body(2) q(7)] by blast+
    have sz: "unat sz = length c" unfolding same(2) by (rule unat_of_nat_small [OF q(8)])
    have "dest' = dest" using body(4) q(10) same(1) by simp
    with body(7) have sv: "client_save_download dest sz w3 = (rc, w')" by simp
    note e = client_save_download_effect [OF sv, unfolded body(8,10,11,12), OF ok]
    have "rc = 0" using e(3) [OF body(13) [OF q(1)] q(11,12)] same(3) sz by simp
    with e(1) have "fetched dest sz w3 w'" by simp
    then show ?thesis using \<open>rc = 0\<close> same(3) sz body(8) by (auto simp: fetched_def)
  qed
qed


section \<open>What the client sends\<close>

text \<open>When sending does not fail, the request goes out whatever the peer answers.\<close>

lemma client_send_message_request:
  assumes run: "client_send_message cn opt w = (rc, w')" and msg: "co_message opt = Some message"
    and fd: "0 \<le> sock_fd (sk w)" and q: "tx_quiet (sk w)"
    and ok: "client_connect cn (co_ip opt)" "length message \<le> HF_PROTOCOL_MAX_TEXT_MESSAGE_SIZE"
  shows "tx_data (sk w') = tx_data (sk w) @ encode_header (text_header message) @ bytes_of_string message"
proof -
  obtain ok1 w1 where s1: "client_send_header_payload HF_MSG_TYPE_TEXT_MESSAGE (of_nat (length message))
      (bytes_of_string message) w = (ok1, w1)" by fastforce
  obtain ok2 w2 where s2: "client_recv_checked_response PROTO_PHASE_FINAL w1 = (ok2, w2)" by fastforce
  note e1 = client_send_header_payload_effect [OF s1 fd]
  note t2 = rx_step_D [OF client_recv_checked_effect(1) [OF s2]]
  have "w' = w2" using run msg ok s1 s2 e1(3) [OF q] by (auto simp: client_send_message_def split: if_splits)
  then show ?thesis using e1(2) [OF e1(3) [OF q]] t2(2) by (simp add: text_header_def)
qed

lemma client_get_file_request:
  assumes run: "client_get_file cn opt w = (rc, w')" and rp: "co_remote_path opt = Some remote"
    and ok: "fs_ok (fs w)" "\<not> splice_direct w" "0 \<le> sock_fd (sk w)" and q: "tx_quiet (sk w)"
    and name: "fs_validate_file_name remote" "length remote \<le> 255" "client_connect cn (co_ip opt)"
  shows "tx_data (sk w') = tx_data (sk w) @ get_request remote"
proof -
  have nlen: "0 < length remote" using name(1) by (auto simp: fs_validate_file_name_def)
  let ?len = "of_nat (length remote) :: u16"
  let ?buf = "htons_bytes (of_nat (length remote)) @ bytes_of_string remote"
  have pl: "proto_get_file_name_len remote = Some ?len"
    using name(2) nlen by (simp add: proto_get_file_name_len_def HF_PROTOCOL_MAX_FILE_NAME_LEN_def)
  have enc: "encode_file_name_only remote = Inr ?buf" by (rule encode_file_prefix_bytes(2) [OF nlen name(2)])
  obtain ok1 w1 where s1: "client_send_header_payload HF_MSG_TYPE_GET_FILE (proto_file_name_only_size ?len) ?buf w
      = (ok1, w1)" by fastforce
  note e1 = client_send_header_payload_effect [OF s1 ok(3)]
  obtain ok2 w2 where s2: "client_recv_checked_response PROTO_PHASE_READY w1 = (ok2, w2)" by fastforce
  obtain x w3 where s3: "proto_recv_file_transfer_prefix w2 = (x, w3)" by fastforce
  note t1 = tx_step_D [OF e1(1)] and t2 = rx_step_D [OF client_recv_checked_effect(1) [OF s2]]
    and t3 = rx_step_D [OF proto_recv_file_transfer_prefix_effect(1) [OF s3]]
  have ok3: "fs_ok (fs w3)" "\<not> splice_direct w3" "0 \<le> sock_fd (sk w3)" using ok t1 t2 t3 by auto
  have "w' = w2 \<or> w' = w3 \<or> (\<exists>dest sz. client_save_download dest sz w3 = (rc, w'))"
    using run rp name(1,3) pl enc s1 s2 s3 e1(3) [OF q]
    by (auto simp: client_get_file_def client_get_cleanup_def split: if_splits sum.splits option.splits)
  then have "tx_data (sk w') = tx_data (sk w1)"
    using t2(2) t3(2) client_save_download_tx [OF _ ok3] by auto
  then show ?thesis
    using e1(2) [OF e1(3) [OF q]] prefix_size_word(2) [OF name(2)] by (simp add: get_request_def get_file_header_def)
qed

text \<open>An upload sends its prefix first, and the content once the server is ready.\<close>

lemma client_run_upload_sends:
  assumes run: "client_run_upload mt name len fd sz w = (ok, w')"
    and rd: "reading (fs w) fd p 0 c" "sz = of_nat (length c)" "length c < 2 ^ 64" "0 \<le> fd"
    and nm: "0 < length name" "length name \<le> 255" "len = of_nat (length name)" and sfd: "0 \<le> sock_fd (sk w)"
    and q: "tx_quiet (sk w)"
  shows "\<exists>x. tx_data (sk w') = tx_data (sk w) @ encode_header (init_header\<lparr>msg_type := mt,
           payload_size := of_nat (10 + length name + length c)\<rparr>) @ send_file_prefix name c @ x \<and>
         (rx_quiet (sk w) \<longrightarrow> prefix (ok_frame_bytes PROTO_PHASE_READY) (rx_data (sk w)) \<longrightarrow> x = c)"
proof -
  let ?psz = "proto_file_transfer_prefix_size len + sz"
  have enc: "encode_file_prefix name sz = Inr (send_file_prefix name c)"
    using encode_file_prefix_bytes(1) [OF nm(1,2)] rd(2) by (simp add: send_file_prefix_def)
  have psz: "?psz = of_nat (10 + length name + length c)" using prefix_size_word(1) [OF nm(2)] nm(3) rd(2) by simp
  have szn: "unat sz = length c" using rd(2,3) unat_of_nat_small by simp
  obtain ok1 w1 where s1: "client_send_header_payload mt ?psz (send_file_prefix name c) w = (ok1, w1)" by fastforce
  obtain ok2 w2 where s2: "client_recv_checked_response PROTO_PHASE_READY w1 = (ok2, w2)" by fastforce
  obtain r3 w3 where s3: "net_send_file_best_effort fd sz w2 = (r3, w3)" by fastforce
  obtain ok4 w4 where s4: "client_recv_checked_response PROTO_PHASE_FINAL w3 = (ok4, w4)" by fastforce
  note e1 = client_send_header_payload_effect [OF s1 sfd] and e2 = client_recv_checked_effect [OF s2]
  note t1 = tx_step_D [OF e1(1)] and t2 = rx_step_D [OF e2(1)] and t4 = rx_step_D [OF client_recv_checked_effect(1) [OF s4]]
  have rd2: "reading (fs w2) fd p 0 c" using rd(1) t1 t2 by simp
  have "sends_from c 0 (length c) fd w2 (r3 = NET_SEND_FILE_OK) w3"
    using net_send_file_best_effort_effect [OF s3 rd2] szn by simp
  moreover have c1: "conv_step fd w w1" by (rule conv_steps(1) [OF e1(1)])
  have c2: "conv_step fd w w2" by (rule conv_step_trans [OF c1 conv_steps(2) [OF e2(1)]])
  have "r3 = NET_SEND_FILE_OK"
    by (rule net_send_file_best_effort_quiet [OF _ rd2 _ _ rd(4) s3])
      (use conv_step_D(1,4) [OF c2] q szn sfd in \<open>auto simp: is_socket_invalid_def\<close>)
  ultimately have sent: "tx_data (sk w3) = tx_data (sk w2) @ c" by (auto simp: sends_from_def)
  have "w' = (if ok2 then w4 else w2)"
    using run s1 s2 s3 s4 enc e1(3) [OF q] \<open>r3 = NET_SEND_FILE_OK\<close>
    by (auto simp: client_run_upload_def client_send_file_body_def split: if_splits)
  then have "tx_data (sk w') = tx_data (sk w1) @ (if ok2 then c else [])" using sent t2(2) t4(2) by simp
  moreover have ok2 if "rx_quiet (sk w)" "prefix (ok_frame_bytes PROTO_PHASE_READY) (rx_data (sk w))"
    using that e2(3) conv_step_D(1,5) [OF c1] t1(2) sfd by (auto simp: prefix_def)
  ultimately show ?thesis
    using e1(2) [OF e1(3) [OF q]] psz by auto
qed


lemma client_send_file_raw_sends:
  assumes run: "client_send_file_raw cn opt w = (rc, w')" and path: "co_path opt = Some path"
    and ok: "fs_ok (fs w)" "fs_sizes_ok (fs w)" "0 \<le> sock_fd (sk w)"
    and src: "nodes (fs w) (canon path) = Some (FileN c m)" "of_nat (length c) \<le> HF_MAX_FILE_SIZE"
    and calm: "rx_calm w" "tx_quiet (sk w)"
    and name: "0 < length (fs_basename_from_path path)" "length (fs_basename_from_path path) \<le> 255"
    and cn: "client_connect cn (co_ip opt)"
  shows "\<exists>x. tx_data (sk w') = tx_data (sk w) @ encode_header (init_header\<lparr>msg_type := co_msg_type opt,
      payload_size := of_nat (10 + length (fs_basename_from_path path) + length c)\<rparr>) @
      send_file_prefix (fs_basename_from_path path) c @ x \<and>
    (prefix (ok_frame_bytes PROTO_PHASE_READY) (rx_data (sk w)) \<longrightarrow> x = c)"
  using run path ok(1,2)
proof (cases rule: client_send_file_raw_cases)
  case early
  have "fs_quiet (fs w)" using calm(1) by (simp add: rx_calm_def)
  from early(6) [OF src(1) this name src(2)] cn show ?thesis by simp
next
  case (conv fd p c' m' w1 w2 good)
  have "p = canon path" using conv(4) src(1) by auto
  then have c': "c' = c" using conv(3) src(1) by simp
  have len: "length c < 2 ^ 64" using ok(2) src(1) by (auto simp: fs_sizes_ok_def)
  have fd: "0 \<le> fd" "0 \<le> sock_fd (sk w1)" "tx_quiet (sk w1)" "rx_quiet (sk w1)"
    using conv(5,7) ok(3) calm by (auto simp: rx_calm_def)
  have "sk w' = sk w2" using conv(13) by (simp add: close_fd_def)
  then show ?thesis
    using client_run_upload_sends [OF conv(12,6) refl _ fd(1) name refl fd(2,3)] len fd(4) conv(7) c' by simp
qed

end
