(* ===== verification/Session.thy ===== *)
theory Session
  imports Server Client
begin

text \<open>
  The two ends of one connection: a run of the client (\<^verbatim>\<open>src/client.c\<close>) against the
  thread of the server (\<^verbatim>\<open>server_connection_thread_main\<close> of \<^verbatim>\<open>src/server.c\<close>). Each end has its own file system, its own schedule of
  system-call outcomes and its own view of the connection.
\<close>

section \<open>Connected runs\<close>

text \<open>
  \<open>carried\<close>: what each end read is a beginning of what the other end wrote; the rest may be lost when
  the connection breaks.
\<close>

definition carried :: "world \<Rightarrow> world \<Rightarrow> world \<Rightarrow> world \<Rightarrow> bool" where
  "carried cw cw' sw sw' \<longleftrightarrow> tx_data (sk cw) = [] \<and> tx_data (sk sw) = [] \<and>
     prefix (rx_data (sk sw)) (tx_data (sk cw')) \<and> prefix (rx_data (sk cw)) (tx_data (sk sw'))"

definition end_ok :: "world \<Rightarrow> bool" where
  "end_ok w \<longleftrightarrow> fs_ok (fs w) \<and> fs_sizes_ok (fs w) \<and> \<not> splice_direct w \<and> 0 \<le> sock_fd (sk w)"

lemma end_ok_D: "end_ok w \<Longrightarrow> fs_ok (fs w)" "end_ok w \<Longrightarrow> fs_sizes_ok (fs w)"
  "end_ok w \<Longrightarrow> \<not> splice_direct w" "end_ok w \<Longrightarrow> 0 \<le> sock_fd (sk w)"
  by (simp_all add: end_ok_def)

lemma rx_step_end_ok: "rx_step w w' \<Longrightarrow> end_ok w' = end_ok w"
  using rx_step_D [of w w'] by (simp add: end_ok_def)

lemma length_res_frame_bytes [simp]: "length (res_frame_bytes f) = 4" "res_frame_bytes f \<noteq> []"
  by (simp_all add: res_frame_bytes_def)

text \<open>The request the server acts on is the one the client sent.\<close>

lemma handle_connection_of_request:
  assumes "handle_protocol_connection opt w = (rc, w')" "0 \<le> sock_fd (sk w)"
    and "prefix (rx_data (sk w)) (encode_header h @ payload)" "header_valid h"
  obtains (dead) "tx_data (sk w') = tx_data (sk w)"
  | (message) w1 where "msg_type h = HF_MSG_TYPE_TEXT_MESSAGE" "rx_step w w1" "prefix (rx_data (sk w1)) payload"
      "server_handle_text_message h w1 = (rc, w')"
  | (upload) w1 r where "msg_type h = HF_MSG_TYPE_SEND_FILE" "rx_step w w1" "prefix (rx_data (sk w1)) payload"
      "server_handle_file_transfer opt h w1 = (r, w')"
  | (download) w1 r where "msg_type h = HF_MSG_TYPE_GET_FILE" "rx_step w w1" "prefix (rx_data (sk w1)) payload"
      "server_handle_get_file opt h w1 = (r, w')"
  using assms(1,2)
proof (cases rule: handle_protocol_connection_cases)
  case dead
  with rx_step_D show thesis by (intro that(1)) auto
next
  case (message h' w1)
  with hdr.enc_prefix [of h' h "rx_data (sk w1)" payload] assms(3,4) show thesis by (intro that(2) [of w1]) auto
next
  case (upload h' w1 r)
  with hdr.enc_prefix [of h' h "rx_data (sk w1)" payload] assms(3,4) show thesis by (intro that(3) [of w1 r]) auto
next
  case (download h' w1 r)
  with hdr.enc_prefix [of h' h "rx_data (sk w1)" payload] assms(3,4) show thesis by (intro that(4) [of w1 r]) auto
qed

section \<open>Which handler is called\<close>

lemma recv_peek_effect:
  assumes "recv_peek n s = (r, s1)"
  shows "rx_only s s1" "rx_data s1 = rx_data s" "r = Inr b \<Longrightarrow> prefix b (rx_data s)"
proof -
  obtain r' s' where rcv: "recv n s = (r', s')" by fastforce
  with assms have eq: "r = r'" "s1 = s'\<lparr>rx_data := rx_data s\<rparr>" by (simp_all add: recv_peek_def)
  show "rx_data s1 = rx_data s" by (simp add: eq)
  show "rx_only s s1" using rcv by (cases rule: recv_cases) (auto simp: eq rx_only_def)
  show "prefix b (rx_data s)" if "r = Inr b" using rcv that by (cases rule: recv_cases) (auto simp: eq take_is_prefix)
qed

text \<open>The first look at the stream is not cut down to a single byte and does not fail.\<close>

definition peek_ready :: "sock \<Rightarrow> bool" where
  "peek_ready s \<longleftrightarrow> (case rx_sched s of [] \<Rightarrow> True | RxUpTo k # es \<Rightarrow> 0 < k | RxFail e # es \<Rightarrow> False)"

text \<open>Looking at the first bytes takes nothing from the stream; what is taken for HTTP begins with a capital letter.\<close>

lemma detect_effect:
  assumes "server_detect_connection_kind (sk w) = (kind, s1)"
  shows "rx_step w (w\<lparr>sk := s1\<rparr>)" "rx_data s1 = rx_data (sk w)"
    and "kind = SERVER_CONN_KIND_HTTP \<Longrightarrow> \<exists>b0 b1 rest. rx_data (sk w) = b0 # b1 # rest \<and>
      [b0, b1] \<noteq> htons_bytes HF_PROTOCOL_MAGIC"
    and "kind = SERVER_CONN_KIND_INVALID \<Longrightarrow> \<not> peek_ready (sk w) \<or> length (rx_data (sk w)) < 2"
proof -
  obtain r s where p: "recv_peek 8 (sk w) = (r, s)" by fastforce
  note e = recv_peek_effect [OF p]
  from assms p have s: "s1 = s" by (auto simp: server_detect_connection_kind_def split: sum.splits)
  show "rx_data s1 = rx_data (sk w)" using e(2) s by simp
  show "rx_step w (w\<lparr>sk := s1\<rparr>)"
    using e(1) s by (auto simp: rx_step_def io_frame_def rx_only_def)
  show "\<exists>b0 b1 rest. rx_data (sk w) = b0 # b1 # rest \<and> [b0, b1] \<noteq> htons_bytes HF_PROTOCOL_MAGIC"
    if "kind = SERVER_CONN_KIND_HTTP"
  proof -
    from that assms p obtain buf where b: "r = Inr buf" "\<not> length buf < 2"
      "\<not> (buf ! 0 = ucast (drop_bit 8 HF_PROTOCOL_MAGIC) \<and> buf ! 1 = ucast (HF_PROTOCOL_MAGIC AND 0xFF))"
      by (auto simp: server_detect_connection_kind_def split: sum.splits if_splits)
    then obtain b0 b1 bs where "buf = b0 # b1 # bs" by (cases buf; cases "tl buf") auto
    with b e(3) [OF b(1)] show ?thesis
      by (auto simp: prefix_def htons_bytes_def ucast_and_0xFF)
  qed
  show "\<not> peek_ready (sk w) \<or> length (rx_data (sk w)) < 2" if "kind = SERVER_CONN_KIND_INVALID"
    using that assms by (auto simp: server_detect_connection_kind_def recv_peek_def recv_def peek_ready_def
        split: list.splits rx_event.splits if_splits)
qed

text \<open>
  What the thread of a connection does with a stream that begins like a request of the client, or is cut short: it never takes it for HTTP, so it
  drops it without an answer or calls the handler of the request.
\<close>

lemma thread_is_native:
  assumes "server_connection_thread_main http opt w = w'"
    and "prefix (rx_data (sk w)) (encode_header h @ payload)" "header_valid h"
  obtains (dropped) "rx_step w w'" "\<not> peek_ready (sk w) \<or> length (rx_data (sk w)) < 2"
  | (native) w1 rc where "rx_step w w1" "rx_data (sk w1) = rx_data (sk w)" "handle_protocol_connection opt w1 = (rc, w')"
proof -
  obtain kind s1 where d: "server_detect_connection_kind (sk w) = (kind, s1)" by fastforce
  note e = detect_effect [OF d]
  show thesis
  proof (cases kind)
    case SERVER_CONN_KIND_HTTP
    from e(3) [OF this] obtain b0 b1 rest where b: "rx_data (sk w) = b0 # b1 # rest" "[b0, b1] \<noteq> htons_bytes HF_PROTOCOL_MAGIC" by blast
    with assms(2,3) have False by (auto simp: encode_header_def header_valid_def htons_bytes_def prefix_def)
    then show thesis ..
  next
    case SERVER_CONN_KIND_PROTOCOL
    with assms(1) d e(1,2) show thesis
      by (intro native [of "w\<lparr>sk := s1\<rparr>" "fst (handle_protocol_connection opt (w\<lparr>sk := s1\<rparr>))"])
        (auto simp: server_connection_thread_main_def)
  next
    case SERVER_CONN_KIND_INVALID
    with assms(1) d e(1,4) show thesis by (intro dropped) (auto simp: server_connection_thread_main_def)
  qed
qed

lemma thread_of_request:
  assumes "server_connection_thread_main http opt w = w'" "0 \<le> sock_fd (sk w)"
    and "prefix (rx_data (sk w)) (encode_header h @ payload)" "header_valid h"
  obtains (dead) "tx_data (sk w') = tx_data (sk w)"
  | (message) w1 rc where "msg_type h = HF_MSG_TYPE_TEXT_MESSAGE" "rx_step w w1" "prefix (rx_data (sk w1)) payload"
      "server_handle_text_message h w1 = (rc, w')"
  | (upload) w1 r where "msg_type h = HF_MSG_TYPE_SEND_FILE" "rx_step w w1" "prefix (rx_data (sk w1)) payload"
      "server_handle_file_transfer opt h w1 = (r, w')"
  | (download) w1 r where "msg_type h = HF_MSG_TYPE_GET_FILE" "rx_step w w1" "prefix (rx_data (sk w1)) payload"
      "server_handle_get_file opt h w1 = (r, w')"
  using assms(1,3,4)
proof (cases rule: thread_is_native)
  case dropped
  with rx_step_D show thesis by (intro dead) auto
next
  case (native w0 rc)
  note d = rx_step_D [OF native(1)]
  from assms(2,3) native(2) d(3) have "0 \<le> sock_fd (sk w0)" "prefix (rx_data (sk w0)) (encode_header h @ payload)" by simp_all
  from native(3) this assms(4) show thesis
  proof (cases rule: handle_connection_of_request)
    case dead
    with d(2) that(1) show thesis by simp
  next
    case (message w1)
    with rx_step_trans [OF native(1)] that(2) show thesis by blast
  next
    case (upload w1 r)
    with rx_step_trans [OF native(1)] that(3) show thesis by blast
  next
    case (download w1 r)
    with rx_step_trans [OF native(1)] that(4) show thesis by blast
  qed
qed

section \<open>Messages\<close>

lemma text_acknowledged_stored:
  assumes run: "server_handle_text_message h w = (rc, w')" and fd: "0 \<le> sock_fd (sk w)"
    and tx: "prefix (tx_data (sk w) @ ok_frame_bytes PROTO_PHASE_FINAL) (tx_data (sk w'))"
  shows "\<exists>body. prefix body (rx_data (sk w)) \<and> length body = unat (payload_size h) \<and>
    store w' = (store w)\<lparr>ms_message := Some (ms_trimmed (cstr (string_of_bytes body))),
                        ms_version := ms_version (store w) + 1\<rparr>"
proof -
  from run fd obtain st r w1 k where t: "server_take_text_message h w = ((st, r), w1)" "store w' = store w1"
    "tx_data (sk w') = tx_data (sk w) @ take k (res_frame_bytes (frame_of PROTO_PHASE_FINAL st r))"
    by (rule server_handle_text_message_effect) blast
  note e = server_take_text_message_effect [OF t(1)]
  from tx t(3) obtain zs where z: "take k (res_frame_bytes (frame_of PROTO_PHASE_FINAL st r)) =
      ok_frame_bytes PROTO_PHASE_FINAL @ zs" by (auto simp: prefix_def)
  have "proto_res_frame_valid (frame_of PROTO_PHASE_FINAL st r)"
    using e(4) frame_of_valid(2) frame_of_valid(4) [of r] by (cases "r = PROTOCOL_OK") simp_all
  from frm.enc_part [OF this frame_of_valid(2) z] have "result_code r = result_code PROTOCOL_OK"
    by (simp only: res_frame.ext_inject)
  then have "r = PROTOCOL_OK" by (cases r) simp_all
  with e(6) t(2) show ?thesis by (auto simp: prefix_def)
qed


section \<open>Uploads\<close>

text \<open>A server that has written both OK frames of an upload has put the body in place.\<close>

lemma store_upload_acknowledged:
  assumes run: "server_store_upload opt name sz w = (r, w')"
    and ok: "fs_ok (fs w)" "\<not> splice_direct w" "0 \<le> sock_fd (sk w)"
    and tx: "prefix (tx_data (sk w) @ ok_frame_bytes PROTO_PHASE_READY @ ok_frame_bytes PROTO_PHASE_FINAL)
      (tx_data (sk w'))"
  shows "body_delivered (so_path opt) name sz w w'"
proof -
  obtain r1 w1 where s1: "server_send_response PROTO_PHASE_READY PROTO_STATUS_OK PROTOCOL_OK w = (r1, w1)"
    by fastforce
  note e1 = server_send_response_effect [OF s1 frame_of_valid(1) ok(3)]
  note t1 = tx_step_D [OF e1(1)]
  obtain x w2 where rcv: "app_receive_file (so_path opt) name sz APP_UPLOAD_PROTOCOL 4096 w1 = (x, w2)"
    by fastforce
  have dn: "transfer_done (so_path opt) name sz w1 x w2"
    by (rule app_receive_file_done [OF rcv]) (use ok t1 in auto)
  then have w2: "0 \<le> sock_fd (sk w2)" "tx_data (sk w2) = tx_data (sk w1)"
    using ok(3) t1 by (auto simp: transfer_done_def rx_only_def)
  have "length (tx_data (sk w')) \<ge> length (tx_data (sk w)) + 8"
    using prefix_length_le [OF tx] by simp
  moreover have "length (tx_data (sk w1)) \<le> length (tx_data (sk w)) + 4" using e1(4) by auto
  ultimately have r1: "r1 = PROTOCOL_OK" using run s1 by (auto simp: server_store_upload_def split: if_splits)
  have td: "tx_data (sk w2) = tx_data (sk w) @ ok_frame_bytes PROTO_PHASE_READY" using e1(2) [OF r1] w2(2) by simp
  show ?thesis
  proof (cases x)
    case (Inl e)
    then have e: "e \<noteq> PROTOCOL_OK" using rcv app_receive_file_not_ok by blast
    from Inl r1 run s1 rcv have "w' = snd (server_send_response PROTO_PHASE_FINAL PROTO_STATUS_FAILED e w2)"
      by (auto simp: server_store_upload_def)
    with server_notify(3) [OF frame_of_valid(4) [OF e] w2(1)] td obtain k where
      "tx_data (sk w') = (tx_data (sk w) @ ok_frame_bytes PROTO_PHASE_READY) @
         take k (res_frame_bytes (frame_of PROTO_PHASE_FINAL PROTO_STATUS_FAILED e))" by auto
    with tx obtain zs where "take k (res_frame_bytes (frame_of PROTO_PHASE_FINAL PROTO_STATUS_FAILED e)) =
        ok_frame_bytes PROTO_PHASE_FINAL @ zs" by (auto simp: prefix_def)
    from frm.enc_part [OF frame_of_valid(4) [OF e] frame_of_valid(2) this] show ?thesis
      by (simp add: frame_consts)
  next
    case (Inr p)
    with r1 run s1 rcv have s3: "server_send_response PROTO_PHASE_FINAL PROTO_STATUS_OK PROTOCOL_OK w2 = (r, w')"
      by (auto simp: server_store_upload_def)
    note t3 = tx_step_D [OF server_send_response_effect(1) [OF s3 frame_of_valid(2) w2(1)]]
    show ?thesis using dn Inr t1 t3 by (auto simp: transfer_done_def body_delivered_def split: option.splits)
  qed
qed

lemma prefix_length_eq: "prefix xs ys \<Longrightarrow> length xs = length ys \<Longrightarrow> xs = ys"
  by (auto simp: prefix_def)

lemma take_of_prefix: "prefix xs ys \<Longrightarrow> n \<le> length xs \<Longrightarrow> take n xs = take n ys"
  by (auto simp: prefix_def)

lemma upload_acknowledged_stored:
  assumes run: "server_handle_file_transfer opt (send_file_header name c) w = (r, w')"
    and ok: "fs_ok (fs w)" "\<not> splice_direct w" "0 \<le> sock_fd (sk w)"
    and rx: "prefix (rx_data (sk w)) (send_file_prefix name c @ c)"
    and tx: "prefix (tx_data (sk w) @ ok_frame_bytes PROTO_PHASE_READY @ ok_frame_bytes PROTO_PHASE_FINAL)
      (tx_data (sk w'))"
    and name: "cstring name" "length name \<le> 255" and len: "length c < 2 ^ 64"
  shows "\<exists>full. fs_validate_file_name name \<and> fs_join_relative_path 4096 (so_path opt) (Some name) = Some full \<and>
    delivered full c (fs w) (fs w')"
  using run ok(3)
proof (cases rule: server_handle_file_transfer_cases)
  case (reject w1)
  from reject(5) prefix_length_le [OF tx] show ?thesis by auto
next
  case (accept raw sz w1)
  note d = rx_step_D [OF accept(1)]
  obtain zs where "send_file_prefix name c @ c = rx_data (sk w) @ zs" using rx by (auto simp: prefix_def)
  then have "htons_bytes (of_nat (length raw)) @ raw @ encode_u64_be sz @ (rx_data (sk w1) @ zs) =
      htons_bytes (of_nat (length (bytes_of_string name))) @ bytes_of_string name @
        encode_u64_be (of_nat (length c)) @ c"
    using accept(6) by (simp add: send_file_prefix_def)
  from file_prefix_inject [OF this accept(3)] name have raw: "raw = bytes_of_string name"
    "sz = of_nat (length c)" "rx_data (sk w1) @ zs = c" by auto
  have nm: "cstr (string_of_bytes raw) = name" using raw(1) name(1) by simp
  have sz: "unat sz = length c" using raw(2) unat_of_nat_small [OF len] by simp
  have tx1: "prefix (tx_data (sk w1) @ ok_frame_bytes PROTO_PHASE_READY @ ok_frame_bytes PROTO_PHASE_FINAL)
      (tx_data (sk w'))" using tx d(2) by simp
  have "body_delivered (so_path opt) name sz w1 w'"
    by (rule store_upload_acknowledged [OF accept(7) [unfolded nm] _ _ _ tx1]) (use ok d in auto)
  then obtain full where "fs_join_relative_path 4096 (so_path opt) (Some name) = Some full"
    "unat sz \<le> length (rx_data (sk w1))" "delivered full (take (unat sz) (rx_data (sk w1))) (fs w1) (fs w')"
    by (auto simp: body_delivered_def)
  moreover from this have "take (unat sz) (rx_data (sk w1)) = c"
    using take_of_prefix [of "rx_data (sk w1)" c "unat sz"] raw(3) sz by (auto simp: prefix_def)
  ultimately show ?thesis using accept(4) nm d(1) by auto
qed


section \<open>Downloads\<close>

text \<open>A complete reply on the wire names the file that was asked for and carries its content.\<close>

lemma send_download_faithful:
  assumes run: "server_send_download name dl w = (r, w')"
    and rd: "reading (fs w) (dl_fd dl) p 0 c" "info_size (dl_info dl) = of_nat (length c)"
      "length c < 2 ^ 64" "0 \<le> dl_fd dl"
    and nm: "0 < length name" "length name \<le> 255" and fd: "0 \<le> sock_fd (sk w)"
    and tx: "prefix (tx_data (sk w) @ ok_frame_bytes PROTO_PHASE_READY @ htons_bytes (of_nat (length raw)) @ raw @
        encode_u64_be (of_nat (length c')) @ c' @ ok_frame_bytes PROTO_PHASE_FINAL) (tx_data (sk w'))"
    and raw: "length raw \<le> 255" and len: "length c' < 2 ^ 64"
  shows "raw = bytes_of_string name \<and> c' = c"
proof -
  let ?failed = "res_frame_bytes (frame_of PROTO_PHASE_FINAL PROTO_STATUS_FAILED PROTOCOL_ERR_IO)"
  from server_send_download_effect(4) [OF run rd nm fd]
  consider (part) k where "tx_data (sk w') = tx_data (sk w) @ take k (download_bytes name c)"
    | (failed) k j where "k \<le> length c" "tx_data (sk w') = tx_data (sk w) @ ok_frame_bytes PROTO_PHASE_READY @
         htons_bytes (of_nat (length name)) @ bytes_of_string name @ encode_u64_be (of_nat (length c)) @ take k c @
         take j ?failed" by blast
  then obtain tail where t: "prefix (tx_data (sk w')) (tx_data (sk w) @ ok_frame_bytes PROTO_PHASE_READY @
         htons_bytes (of_nat (length name)) @ bytes_of_string name @ encode_u64_be (of_nat (length c)) @ tail)"
      "length tail \<le> length c + 4" "prefix c tail \<or> (\<exists>k < length c. length tail \<le> k + 4)"
  proof cases
    case part
    have "prefix (take k (download_bytes name c)) (download_bytes name c)" by (rule take_is_prefix)
    then have "prefix (tx_data (sk w')) (tx_data (sk w) @ download_bytes name c)"
      unfolding part by (simp only: same_prefix_prefix)
    then show thesis
      by (intro that [of "c @ ok_frame_bytes PROTO_PHASE_FINAL"]) (simp_all add: download_bytes_def)
  next
    case (failed k j)
    have "prefix c (take k c) \<or> k < length c" using failed(1) by (cases "k = length c") auto
    moreover have "length (take k c @ take j ?failed) \<le> k + 4" by simp
    ultimately show thesis
      using failed by (intro that [of "take k c @ take j ?failed"]) (auto simp: prefix_append)
  qed
  from prefix_order.trans [OF tx t(1)] obtain zs where
    "htons_bytes (of_nat (length raw)) @ raw @ encode_u64_be (of_nat (length c')) @ (c' @ ok_frame_bytes PROTO_PHASE_FINAL @ zs) =
     htons_bytes (of_nat (length (bytes_of_string name))) @ bytes_of_string name @ encode_u64_be (of_nat (length c)) @ tail"
    by (auto simp: prefix_def)
  from file_prefix_inject [OF this raw] nm(2) have eq: "raw = bytes_of_string name"
    "(of_nat (length c') :: u64) = of_nat (length c)" "c' @ ok_frame_bytes PROTO_PHASE_FINAL @ zs = tail" by auto
  have l: "length c' = length c" using arg_cong [OF eq(2), of unat] unat_of_nat_small [OF len] unat_of_nat_small [OF rd(3)] by simp
  have "prefix c tail" using t(3) arg_cong [OF eq(3), of length] l by auto
  with eq(3) l have "c' = c" by (auto simp: prefix_def append_eq_append_conv)
  with eq(1) show ?thesis by simp
qed

lemma download_faithful:
  assumes run: "server_handle_get_file opt (get_file_header name) w = (r, w')"
    and ok: "fs_ok (fs w)" "fs_sizes_ok (fs w)" "0 \<le> sock_fd (sk w)"
    and rx: "prefix (rx_data (sk w)) (htons_bytes (of_nat (length name)) @ bytes_of_string name)"
    and tx: "prefix (tx_data (sk w) @ ok_frame_bytes PROTO_PHASE_READY @ htons_bytes (of_nat (length raw)) @ raw @
        encode_u64_be (of_nat (length c)) @ c @ ok_frame_bytes PROTO_PHASE_FINAL) (tx_data (sk w'))"
    and name: "cstring name" "length name \<le> 255" and raw: "length raw \<le> 255" and len: "length c < 2 ^ 64"
  shows "raw = bytes_of_string name \<and> (\<exists>full m. fs_join_relative_path 4096 (so_path opt) (Some name) = Some full \<and>
    nodes (fs w) (canon full) = Some (FileN c m))"
  using run ok(3,1)
proof (cases rule: server_handle_get_file_cases)
  case (reject w1)
  from reject(8) prefix_length_le [OF tx] show ?thesis by auto
next
  case (accept raw' dl w1 f2 full c' m w3)
  note d = rx_step_D [OF accept(1)]
  let ?w2 = "w1\<lparr>fs := f2\<rparr>"
  obtain zs where "htons_bytes (of_nat (length name)) @ bytes_of_string name = rx_data (sk w) @ zs"
    using rx by (auto simp: prefix_def)
  with accept(6) have "htons_bytes (of_nat (length raw')) @ raw' @ (rx_data (sk w1) @ zs) =
      htons_bytes (of_nat (length (bytes_of_string name))) @ bytes_of_string name @ []"
    by (simp only: length_map append_assoc append_Nil2)
  from file_name_inject [OF this accept(3)] name have "raw' = bytes_of_string name" by auto
  then have nm: "cstr (string_of_bytes raw') = name" using name(1) by simp
  from accept(9) have op: "reading (fs ?w2) (dl_fd dl) (canon full) 0 c'"
    "info_size (dl_info dl) = of_nat (length c')" "0 \<le> dl_fd dl" by (auto simp: download_opened_def)
  have len': "length c' < 2 ^ 64" using ok(2) accept(8) by (auto simp: fs_sizes_ok_def)
  have nlen: "0 < length name" using accept(4) nm by (auto simp: fs_validate_file_name_def)
  have "raw = bytes_of_string name \<and> c = c'"
    by (rule send_download_faithful [OF accept(10) [unfolded nm] op(1,2) len' op(3) nlen name(2) _ _ raw len])
      (use tx d ok(3) accept(11) in auto)
  with accept(7,8) nm show ?thesis by auto
qed


section \<open>Sessions\<close>

lemma send_file_header_of: "init_header\<lparr>msg_type := HF_MSG_TYPE_SEND_FILE,
    payload_size := of_nat (10 + length name + length c)\<rparr> = send_file_header name c"
  by (simp add: send_file_header_def)

lemma client_name_bound:
  assumes "client_send_file_raw cn opt w = (0, w')" "co_path opt = Some path"
  shows "length (fs_basename_from_path path) \<le> 255"
  using assms by (auto simp: client_send_file_raw_def proto_get_file_name_len_def
      HF_PROTOCOL_MAX_FILE_NAME_LEN_def Let_def split: option.splits if_splits)

lemma cstring_basename [simp]: "cstring path \<Longrightarrow> cstring (fs_basename_from_path path)"
  by (auto simp: fs_basename_from_path_def cstring_def split: option.splits dest: in_set_dropD)

lemmas client_kind_simps = client_def protocol_consts

text \<open>
An upload the client reports as done is stored. The connection may break at any point, every system
call on either side may fail or be cut short: if the client exits with code 0, then the server's
receive directory holds, under the base name of the path, exactly the content of the client's file,
and nothing else on the server differs.
\<close>
lemma upload_reported_is_stored:
  assumes "client cn copt cw = (0, cw')" "co_msg_type copt = HF_MSG_TYPE_SEND_FILE"
    and "co_path copt = Some path" "cstring path"
    and "server_connection_thread_main http sopt sw = sw'"
    and "end_ok cw" "end_ok sw" "carried cw cw' sw sw'"
  shows "\<exists>c full. file_at (fs cw) path c \<and>
    fs_join_relative_path 4096 (so_path sopt) (Some (fs_basename_from_path path)) = Some full \<and>
    delivered full c (fs sw) (fs sw')"
proof -
  let ?name = "fs_basename_from_path path"
  have run: "client_send_file_raw cn copt cw = (0, cw')" using assms(1,2) by (simp add: client_kind_simps)
  note cok = end_ok_D [OF assms(6)] and sok = end_ok_D [OF assms(7)]
  from client_send_file_raw_effect(2) [OF run assms(3) cok(1,2,4)] obtain c where c: "file_at (fs cw) path c"
    "tx_data (sk cw') = tx_data (sk cw) @ encode_header (send_file_header ?name c) @ send_file_prefix ?name c @ c"
    "rx_data (sk cw) = ok_frame_bytes PROTO_PHASE_READY @ ok_frame_bytes PROTO_PHASE_FINAL @ rx_data (sk cw')"
    unfolding assms(2) send_file_header_of by auto
  have len: "length c < 2 ^ 64" using c(1) cok(2) by (auto simp: file_at_def fs_sizes_ok_def)
  have nm: "length ?name \<le> 255" using client_name_bound [OF run assms(3)] by simp
  have rx: "prefix (rx_data (sk sw)) (encode_header (send_file_header ?name c) @ send_file_prefix ?name c @ c)"
    and tx: "prefix (ok_frame_bytes PROTO_PHASE_READY @ ok_frame_bytes PROTO_PHASE_FINAL) (tx_data (sk sw'))"
    and t0: "tx_data (sk sw) = []"
    using assms(8) c(2,3) by (auto simp: carried_def prefix_def)
  from assms(5) sok(4) rx send_file_header_valid show ?thesis
  proof (cases rule: thread_of_request)
    case dead
    with tx t0 show ?thesis by simp
  next
    case (upload w1 r)
    note d = rx_step_D [OF upload(2)]
    have "prefix (tx_data (sk w1) @ ok_frame_bytes PROTO_PHASE_READY @ ok_frame_bytes PROTO_PHASE_FINAL) (tx_data (sk sw'))"
      using tx t0 d(2) by simp
    from upload_acknowledged_stored [OF upload(4) _ _ _ upload(3) this _ nm len] sok d assms(4) c(1)
    show ?thesis by auto
  qed (simp_all add: send_file_header_def protocol_consts)
qed


text \<open>
A message the client reports as delivered is the server's current message. If the client exits
with code 0, the handler has stored the message, trimmed, and advanced the version by one; every
system call on either side may fail and the connection may break.
\<close>
lemma message_reported_is_stored:
  assumes "client cn copt cw = (0, cw')" "co_msg_type copt = HF_MSG_TYPE_TEXT_MESSAGE"
    and "co_message copt = Some message" "cstring message"
    and "server_connection_thread_main http sopt sw = sw'"
    and "end_ok cw" "end_ok sw" "carried cw cw' sw sw'"
  shows "store sw' = (store sw)\<lparr>ms_message := Some (ms_trimmed message), ms_version := ms_version (store sw) + 1\<rparr>"
proof -
  have run: "client_send_message cn copt cw = (0, cw')" using assms(1,2) by (simp add: client_kind_simps)
  note cok = end_ok_D [OF assms(6)] and sok = end_ok_D [OF assms(7)]
  have m: "length message \<le> HF_PROTOCOL_MAX_TEXT_MESSAGE_SIZE"
    "tx_data (sk cw') = tx_data (sk cw) @ encode_header (text_header message) @ bytes_of_string message"
    "rx_data (sk cw) = ok_frame_bytes PROTO_PHASE_FINAL @ rx_data (sk cw')"
    using client_send_message_effect(2) [OF run assms(3) cok(4)] by auto
  have rx: "prefix (rx_data (sk sw)) (encode_header (text_header message) @ bytes_of_string message)"
    and tx: "prefix (ok_frame_bytes PROTO_PHASE_FINAL) (tx_data (sk sw'))" and t0: "tx_data (sk sw) = []"
    using assms(8) m(2,3) by (auto simp: carried_def prefix_def)
  from assms(5) sok(4) rx request_header_valid(2) show ?thesis
  proof (cases rule: thread_of_request)
    case dead
    with tx t0 show ?thesis by simp
  next
    case (message w1 rc)
    note d = rx_step_D [OF message(2)]
    have "prefix (tx_data (sk w1) @ ok_frame_bytes PROTO_PHASE_FINAL) (tx_data (sk sw'))" using tx t0 d(2) by simp
    from text_acknowledged_stored [OF message(4) _ this] sok(4) d obtain body where b: "prefix body (rx_data (sk w1))"
      "length body = unat (payload_size (text_header message))" "store sw' = (store w1)\<lparr>ms_message :=
        Some (ms_trimmed (cstr (string_of_bytes body))), ms_version := ms_version (store w1) + 1\<rparr>" by auto
    have "length body = length (bytes_of_string message)"
      using b(2) m(1) by (simp add: text_header_def unat_of_nat HF_PROTOCOL_MAX_TEXT_MESSAGE_SIZE_def)
    moreover have "prefix body (bytes_of_string message)" by (rule prefix_order.trans [OF b(1) message(3)])
    ultimately have "body = bytes_of_string message" by (metis prefix_length_eq)
    with b(3) d(6) assms(4) show ?thesis by simp
  qed (simp_all add: text_header_def protocol_consts)
qed

text \<open>
A download the client reports as done is the server's file. If the client exits with code 0, then
the server has a regular file of the requested name directly below its receive directory, and that
content, all of it and nothing more, is now the content of the client's output path (the requested name when
none was given); nothing else in the client's file system differs.
\<close>
lemma download_reported_is_faithful:
  assumes "client cn copt cw = (0, cw')" "co_msg_type copt = HF_MSG_TYPE_GET_FILE"
    and "co_remote_path copt = Some remote" "cstring remote"
    and "server_connection_thread_main http sopt sw = sw'"
    and "end_ok cw" "end_ok sw" "carried cw cw' sw sw'"
  shows "\<exists>c m full. fs_join_relative_path 4096 (so_path sopt) (Some remote) = Some full \<and>
    nodes (fs sw) (canon full) = Some (FileN c m) \<and>
    delivered (case co_output_path copt of Some out \<Rightarrow> out | None \<Rightarrow> remote) c (fs cw) (fs cw')"
proof -
  have run: "client_get_file cn copt cw = (0, cw')" using assms(1,2) by (simp add: client_kind_simps)
  note cok = end_ok_D [OF assms(6)] and sok = end_ok_D [OF assms(7)]
  have nm: "length remote \<le> 255"
    using run assms(3) by (auto simp: client_get_file_def proto_get_file_name_len_def
        HF_PROTOCOL_MAX_FILE_NAME_LEN_def split: option.splits if_splits)
  from client_get_file_effect(1) [OF run assms(3) cok(1,3,4)] obtain raw c dest where r: "length raw \<le> 255"
    "length c < 2 ^ 64" "download_target copt (cstr (string_of_bytes raw)) = Some dest"
    "rx_data (sk cw) = ok_frame_bytes PROTO_PHASE_READY @ htons_bytes (of_nat (length raw)) @ raw @
       encode_u64_be (of_nat (length c)) @ c @ ok_frame_bytes PROTO_PHASE_FINAL @ rx_data (sk cw')"
    "delivered dest c (fs cw) (fs cw')" "tx_data (sk cw') = tx_data (sk cw) @ get_request remote"
    by (auto simp: download_stored_def)
  let ?reply = "ok_frame_bytes PROTO_PHASE_READY @ htons_bytes (of_nat (length raw)) @ raw @
       encode_u64_be (of_nat (length c)) @ c @ ok_frame_bytes PROTO_PHASE_FINAL"
  have rx: "prefix (rx_data (sk sw)) (encode_header (get_file_header remote) @
      htons_bytes (of_nat (length remote)) @ bytes_of_string remote)"
    and tx: "prefix ?reply (tx_data (sk sw'))" and t0: "tx_data (sk sw) = []"
    using assms(8) r(4,6) by (auto simp: carried_def prefix_def get_request_def)
  from assms(5) sok(4) rx request_header_valid(1) show ?thesis
  proof (cases rule: thread_of_request)
    case dead
    with tx t0 show ?thesis by simp
  next
    case (download w1 x)
    note d = rx_step_D [OF download(2)]
    have "prefix (tx_data (sk w1) @ ?reply) (tx_data (sk sw'))" using tx t0 d(2) by simp
    from download_faithful [OF download(4) _ _ _ download(3) this assms(4) nm r(1,2)] sok d obtain full m where
      f: "raw = bytes_of_string remote" "fs_join_relative_path 4096 (so_path sopt) (Some remote) = Some full"
      "nodes (fs sw) (canon full) = Some (FileN c m)" by auto
    have "dest = (case co_output_path copt of Some out \<Rightarrow> out | None \<Rightarrow> remote)"
      using r(3) f(1) assms(4) by (auto simp: download_target_def split: option.splits if_splits)
    with f r(5) show ?thesis by blast
  qed (simp_all add: get_file_header_def protocol_consts)
qed


section \<open>Sessions that complete\<close>

text \<open>\<open>joined\<close>: each end reads what the other end writes, all of it.\<close>

definition joined :: "world \<Rightarrow> world \<Rightarrow> world \<Rightarrow> world \<Rightarrow> bool" where
  "joined cw cw' sw sw' \<longleftrightarrow> tx_data (sk cw) = [] \<and> tx_data (sk sw) = [] \<and>
     rx_data (sk sw) = tx_data (sk cw') \<and> rx_data (sk cw) = tx_data (sk sw')"

text \<open>No call fails for good on this end: calls may still be interrupted and cut short.\<close>

definition end_calm :: "world \<Rightarrow> bool" where
  "end_calm w \<longleftrightarrow> end_ok w \<and> rx_calm w \<and> tx_quiet (sk w)"

lemma end_calm_D: "end_calm w \<Longrightarrow> end_ok w" "end_calm w \<Longrightarrow> rx_calm w" "end_calm w \<Longrightarrow> tx_quiet (sk w)"
  by (simp_all add: end_calm_def)

lemma rx_step_end_calm: "rx_step w w' \<Longrightarrow> end_calm w \<Longrightarrow> end_calm w'"
  using rx_step_calm [of w w'] rx_step_end_ok [of w w']
  by (auto simp: end_calm_def rx_step_def rx_only_def tx_quiet_def)

text \<open>A whole request on a calm stream, with its first look not cut short, reaches the native handler.\<close>

lemma thread_calm:
  assumes "server_connection_thread_main http opt w = w'" "rx_data (sk w) = encode_header h @ payload" "header_valid h"
    and "peek_ready (sk w)" "end_calm w"
  obtains w1 rc where "rx_step w w1" "rx_data (sk w1) = encode_header h @ payload" "end_calm w1"
    "handle_protocol_connection opt w1 = (rc, w')"
proof -
  have "prefix (rx_data (sk w)) (encode_header h @ payload)" "\<not> length (rx_data (sk w)) < 2"
    using assms(2) by (simp_all add: encode_header_def)
  from assms(1) this(1) assms(3) show thesis
  proof (cases rule: thread_is_native)
    case (native w1 rc)
    with assms(2) rx_step_end_calm [OF native(1) assms(5)] that show thesis by metis
  qed (use assms(4) \<open>\<not> length (rx_data (sk w)) < 2\<close> in simp)
qed

text \<open>
  An upload over a working connection completes. Neither end waits for something the other one does not send: the server announces READY
  before the body arrives, which is what lets the client send it.
\<close>

lemma upload_session_completes:
  assumes "client cn copt cw = (crc, cw')" "co_msg_type copt = HF_MSG_TYPE_SEND_FILE"
    and "co_path copt = Some path" "cstring path" "client_connect cn (co_ip copt)"
    and "server_connection_thread_main http sopt sw = sw'" "peek_ready (sk sw)"
    and "end_calm cw" "end_calm sw" "joined cw cw' sw sw'"
    and "nodes (fs cw) (canon path) = Some (FileN c m)" "of_nat (length c) \<le> HF_MAX_FILE_SIZE"
    and "fs_validate_file_name (fs_basename_from_path path)" "length (fs_basename_from_path path) \<le> 255"
    and "upload_ready (so_path sopt) (fs_basename_from_path path) sw"
  shows "crc = 0 \<and>
    (\<exists>full. fs_join_relative_path 4096 (so_path sopt) (Some (fs_basename_from_path path)) = Some full \<and>
       delivered full c (fs sw) (fs sw'))"
proof -
  let ?name = "fs_basename_from_path path"
  let ?req = "encode_header (send_file_header ?name c) @ send_file_prefix ?name c"
  have run: "client_send_file_raw cn copt cw = (crc, cw')" using assms(1,2) by (simp add: client_kind_simps)
  note cc = end_calm_D [OF assms(8)]
  note cok = end_ok_D [OF cc(1)]
  have nlen: "0 < length ?name" using assms(13) by (auto simp: fs_validate_file_name_def)
  have nm: "cstring ?name" using assms(4) by simp
  have "length c < 2 ^ 64" using cok(2) assms(11) by (auto simp: fs_sizes_ok_def)
  then have "length c \<le> unat HF_MAX_FILE_SIZE"
    using assms(12) unat_of_nat_small [of "length c"] by (simp add: word_le_nat_alt)
  then have len: "10 + length ?name + length c < 2 ^ 64" using assms(14) by (simp add: HF_MAX_FILE_SIZE_def)
  obtain x where x: "tx_data (sk cw') = ?req @ x" "prefix (ok_frame_bytes PROTO_PHASE_READY) (rx_data (sk cw)) \<longrightarrow> x = c"
    using client_send_file_raw_sends [OF run assms(3) cok(1,2,4) assms(11,12) cc(2,3) nlen assms(14,5)] assms(2,10)
    unfolding assms(2) send_file_header_of by (auto simp: joined_def)
  have "rx_data (sk sw) = encode_header (send_file_header ?name c) @ send_file_prefix ?name c @ x"
    using x(1) assms(10) by (simp add: joined_def)
  from thread_calm [OF assms(6) this send_file_header_valid assms(7,9)] obtain w1 rc where w1: "rx_step sw w1"
    "rx_data (sk w1) = encode_header (send_file_header ?name c) @ send_file_prefix ?name c @ x" "end_calm w1"
    "handle_protocol_connection sopt w1 = (rc, sw')" .
  note sc = end_calm_D [OF w1(3)]
  note sok = end_ok_D [OF sc(1)]
  have t: "tx_data (sk w1) = []" "rx_data (sk cw) = tx_data (sk sw')" "fs w1 = fs sw"
    using assms(10) rx_step_D [OF w1(1)] by (simp_all add: joined_def)
  have "prefix (ok_frame_bytes PROTO_PHASE_READY) (rx_data (sk cw))"
    using handle_connection_upload_ready [OF w1(4,2) assms(13) nm assms(14) len sc(2,3) sok(1,3,4)] t by simp
  with x(2) have "x = c" by simp
  have "upload_ready (so_path sopt) ?name w1" using assms(15) rx_step_fs_ready [OF w1(1)] by simp
  note up = handle_connection_upload [OF w1(4) w1(2) [unfolded \<open>x = c\<close>] assms(13) nm assms(14) len sc(2,3) this]
  have "rx_data (sk cw) = ok_frame_bytes PROTO_PHASE_READY @ ok_frame_bytes PROTO_PHASE_FINAL @ []"
    using up(3) t by simp
  from client_send_file_raw_effect(3) [OF run assms(3) cok(1,2,4) assms(11) cc(2,3) nlen assms(14,12,5) this] up(2) t(3)
  show ?thesis by simp
qed

text \<open>So does a message.\<close>

lemma message_session_completes:
  assumes "client cn copt cw = (crc, cw')" "co_msg_type copt = HF_MSG_TYPE_TEXT_MESSAGE"
    and "co_message copt = Some message" "cstring message" "client_connect cn (co_ip copt)"
    and "length message \<le> HF_PROTOCOL_MAX_TEXT_MESSAGE_SIZE"
    and "server_connection_thread_main http sopt sw = sw'" "peek_ready (sk sw)" "ms_initialized (store sw)"
    and "end_calm cw" "end_calm sw" "joined cw cw' sw sw'"
  shows "crc = 0 \<and> store sw' =
    (store sw)\<lparr>ms_message := Some (ms_trimmed message), ms_version := ms_version (store sw) + 1\<rparr>"
proof -
  have run: "client_send_message cn copt cw = (crc, cw')" using assms(1,2) by (simp add: client_kind_simps)
  note cc = end_calm_D [OF assms(10)]
  note cok = end_ok_D [OF cc(1)]
  have "rx_data (sk sw) = encode_header (text_header message) @ bytes_of_string message"
    using client_send_message_request [OF run assms(3) cok(4) cc(3) assms(5,6)] assms(12) by (simp add: joined_def)
  from thread_calm [OF assms(7) this request_header_valid(2) assms(8,11)] obtain w1 rc where w1: "rx_step sw w1"
    "rx_data (sk w1) = encode_header (text_header message) @ bytes_of_string message" "end_calm w1"
    "handle_protocol_connection sopt w1 = (rc, sw')" .
  note sc = end_calm_D [OF w1(3)] and d = rx_step_D [OF w1(1)]
  have "ms_initialized (store w1)" using assms(9) d by simp
  note tx = handle_connection_text [OF w1(4,2) assms(4,6) sc(2,3) this end_ok_D(4) [OF sc(1)]]
  have "rx_data (sk cw) = ok_frame_bytes PROTO_PHASE_FINAL @ []" using tx(3) assms(12) d by (simp add: joined_def)
  moreover have "rx_quiet (sk cw)" using cc(2) by (simp add: rx_calm_def)
  ultimately have "crc = 0" using client_send_message_effect(3) [OF run assms(3) cok(4) assms(5,6) _ cc(3)] by blast
  with tx(2) d show ?thesis by simp
qed

text \<open>And so does a download, when the server has the file and the client can use its output path and its temporary names.\<close>

lemma download_session_completes:
  assumes "client cn copt cw = (crc, cw')" "co_msg_type copt = HF_MSG_TYPE_GET_FILE"
    and "co_remote_path copt = Some remote" "cstring remote" "client_connect cn (co_ip copt)"
    and "fs_validate_file_name remote" "length remote \<le> 255"
    and "server_connection_thread_main http sopt sw = sw'" "peek_ready (sk sw)"
    and "end_calm cw" "end_calm sw" "joined cw cw' sw sw'"
    and "fs_join_relative_path 4096 (so_path sopt) (Some remote) = Some full"
    and "nodes (fs sw) (canon full) = Some (FileN c m)" "of_nat (length c) \<le> HF_MAX_FILE_SIZE"
    and "dest = (case co_output_path copt of Some out \<Rightarrow> out | None \<Rightarrow> remote)"
    and "temp_names_free dest (pid cw) (fs cw)" "\<forall>k. nodes (fs cw) (canon dest) \<noteq> Some (DirN k)"
  shows "crc = 0 \<and> delivered dest c (fs cw) (fs cw')"
proof -
  have run: "client_get_file cn copt cw = (crc, cw')" using assms(1,2) by (simp add: client_kind_simps)
  note cc = end_calm_D [OF assms(10)]
  note cok = end_ok_D [OF cc(1)]
  have "rx_data (sk sw) = encode_header (get_file_header remote) @ htons_bytes (of_nat (length remote)) @ bytes_of_string remote"
    using client_get_file_request [OF run assms(3) cok(1,3,4) cc(3) assms(6,7,5)] assms(12)
    by (simp add: joined_def get_request_def)
  from thread_calm [OF assms(8) this request_header_valid(1) assms(9,11)] obtain w1 rc where w1: "rx_step sw w1"
    "rx_data (sk w1) = encode_header (get_file_header remote) @ htons_bytes (of_nat (length remote)) @ bytes_of_string remote"
    "end_calm w1" "handle_protocol_connection sopt w1 = (rc, sw')" .
  note sc = end_calm_D [OF w1(3)] and d = rx_step_D [OF w1(1)]
  note sok = end_ok_D [OF sc(1)]
  have at: "nodes (fs w1) (canon full) = Some (FileN c m)" using assms(14) d by simp
  note dl = handle_connection_download [OF w1(4,2) assms(6,4,7) sc(2,3) sok(1,2,4) assms(13) at]
  have nlen: "0 < length remote" using assms(6) by (auto simp: fs_validate_file_name_def)
  have len: "length c < 2 ^ 64" using sok(2) at by (auto simp: fs_sizes_ok_def)
  have "download_target copt (cstr (string_of_bytes (bytes_of_string remote))) = Some dest"
    using assms(4,6,16) by (auto simp: download_target_def split: option.splits)
  moreover have "rx_data (sk cw) = ok_frame_bytes PROTO_PHASE_READY @ htons_bytes (of_nat (length (bytes_of_string remote))) @
      bytes_of_string remote @ encode_u64_be (of_nat (length c)) @ c @ ok_frame_bytes PROTO_PHASE_FINAL @ []"
    using dl(2) assms(12) d by (simp add: joined_def download_bytes_def)
  ultimately have "crc = 0 \<and> rx_data (sk cw') = [] \<and> delivered dest c (fs cw) (fs cw')"
    by (intro client_get_file_effect(3) [where raw = "bytes_of_string remote", OF run assms(3) cok(1,3,4) cc(2,3) assms(6,7,5) _ _ len assms(15)])
      (use assms(7,17,18) nlen in simp_all)
  then show ?thesis by simp
qed

end
