(* ===== verification/Message_Facts.thy ===== *)
theory Message_Facts
  imports Message_Store
begin

text \<open>
  Facts on \<^verbatim>\<open>src/message_store.c\<close>: the trimming loop removes exactly the longest run of Unicode
  white space at the end of the message, encoded in UTF-8; the store refines a history of accepted
  messages; waiting returns the current message and never misses an update.
\<close>

unbundle bit_operations_syntax

section \<open>UTF-8\<close>

text \<open>The encoding of a code point, by RFC 3629.\<close>

definition utf8_encode :: "u32 \<Rightarrow> byte list" where
  "utf8_encode cp =
     (if cp < 0x80 then [ucast cp]
      else if cp < 0x800 then [0xC0 OR ucast (drop_bit 6 cp), 0x80 OR ucast (cp AND 0x3F)]
      else if cp < 0x10000 then
        [0xE0 OR ucast (drop_bit 12 cp), 0x80 OR ucast (drop_bit 6 cp AND 0x3F), 0x80 OR ucast (cp AND 0x3F)]
      else
        [0xF0 OR ucast (drop_bit 18 cp), 0x80 OR ucast (drop_bit 12 cp AND 0x3F),
         0x80 OR ucast (drop_bit 6 cp AND 0x3F), 0x80 OR ucast (cp AND 0x3F)])"

text \<open>The white space code points above ASCII, and their bytes.\<close>

definition wide_spaces :: "u32 list" where
  "wide_spaces = [0x85, 0xA0, 0x1680, 0x2000, 0x2001, 0x2002, 0x2003, 0x2004, 0x2005, 0x2006, 0x2007, 0x2008,
     0x2009, 0x200A, 0x2028, 0x2029, 0x202F, 0x205F, 0x3000]"

lemma whitespace_cases:
  "message_store_is_unicode_whitespace cp \<longleftrightarrow>
     cp \<le> 0x7F \<and> isspace (char_of (unat cp)) \<or> cp \<in> set wide_spaces"
proof -
  have "(0x2000 \<le> cp \<and> cp \<le> 0x200A) \<longleftrightarrow> cp \<in> {0x2000, 0x2001, 0x2002, 0x2003, 0x2004, 0x2005, 0x2006, 0x2007,
      0x2008, 0x2009, 0x200A}"
  proof
    assume "0x2000 \<le> cp \<and> cp \<le> 0x200A"
    then have "0x2000 \<le> unat cp" "unat cp \<le> 0x200A" by (simp_all add: word_le_nat_alt)
    then have "unat cp = 0x2000 \<or> unat cp = 0x2001 \<or> unat cp = 0x2002 \<or> unat cp = 0x2003 \<or> unat cp = 0x2004 \<or>
      unat cp = 0x2005 \<or> unat cp = 0x2006 \<or> unat cp = 0x2007 \<or> unat cp = 0x2008 \<or> unat cp = 0x2009 \<or> unat cp = 0x200A"
      by arith
    then show "cp \<in> {0x2000, 0x2001, 0x2002, 0x2003, 0x2004, 0x2005, 0x2006, 0x2007, 0x2008, 0x2009, 0x200A}"
      by (auto simp: word_unat_eq_iff)
  qed auto
  then show ?thesis
    by (auto simp: message_store_is_unicode_whitespace_def wide_spaces_def)
qed


text \<open>The bytes of a sequence, split into marker and payload.\<close>

lemma byte_split:
  fixes b :: byte
  shows "b AND 0xE0 = 0xC0 \<Longrightarrow> b = 0xC0 OR (b AND 0x1F)" "b AND 0xF0 = 0xE0 \<Longrightarrow> b = 0xE0 OR (b AND 0x0F)"
    "b AND 0xF8 = 0xF0 \<Longrightarrow> b = 0xF0 OR (b AND 0x07)" "is_continuation b \<Longrightarrow> b = 0x80 OR (b AND 0x3F)"
proof -
  have *: "b = (b AND m) OR (b AND k)" if "m OR k = -1" for m k :: byte
    using that by (metis and.right_neutral bit.conj_disj_distrib)
  show "b AND 0xE0 = 0xC0 \<Longrightarrow> b = 0xC0 OR (b AND 0x1F)" "b AND 0xF0 = 0xE0 \<Longrightarrow> b = 0xE0 OR (b AND 0x0F)"
    "b AND 0xF8 = 0xF0 \<Longrightarrow> b = 0xF0 OR (b AND 0x07)" "is_continuation b \<Longrightarrow> b = 0x80 OR (b AND 0x3F)"
    using * [of "0xE0" "0x1F"] * [of "0xF0" "0x0F"] * [of "0xF8" "0x07"] * [of "0xC0" "0x3F"]
    by (simp_all add: is_continuation_def)
qed

lemma payload_bound:
  fixes b :: byte
  shows "unat (b AND 0x3F) < 64" "unat (b AND 0x1F) < 32" "unat (b AND 0x0F) < 16" "unat (b AND 0x07) < 8"
proof -
  have "unat (b AND m) \<le> unat m" for m using word_and_le1 [of b m] by (simp add: word_le_nat_alt)
  from this [of "0x3F"] this [of "0x1F"] this [of "0x0F"] this [of "0x07"]
  show "unat (b AND 0x3F) < 64" "unat (b AND 0x1F) < 32" "unat (b AND 0x0F) < 16" "unat (b AND 0x07) < 8" by simp_all
qed

lemma decode_step:
  assumes "unat (cp :: u32) < 2 ^ 26"
  shows "unat (push_bit 6 cp OR ucast (b AND 0x3F :: byte)) = unat cp * 64 + unat (b AND 0x3F)"
proof -
  have "push_bit 6 cp OR ucast (b AND 0x3F) = push_bit 6 cp + ucast (b AND 0x3F)"
  proof (rule disjunctive_add_eq_or [symmetric])
    have m: "(0x3F :: byte) = mask 6" by (simp add: mask_numeral)
    show "push_bit 6 cp AND ucast (b AND 0x3F) = 0" unfolding m by (rule bit_word_eqI) (auto simp: bit_simps)
  qed
  moreover have "unat (push_bit 6 cp) = unat cp * 64"
    using assms by (simp add: push_bit_eq_mult unat_word_ariths(2))
  ultimately show ?thesis
    using assms payload_bound(1) [of b] by (simp add: unat_word_ariths(1) unsigned_ucast_eq take_bit_nat_eq_self)
qed


text \<open>A code point is its payloads, read in base 64.\<close>

lemma unat_fields:
  fixes cp :: u32
  shows "unat (cp AND 0x3F) = unat cp mod 64" "unat (drop_bit 6 cp) = unat cp div 64"
    "unat (drop_bit 12 cp) = unat cp div 64 div 64" "unat (drop_bit 18 cp) = unat cp div 64 div 64 div 64"
proof -
  have m: "(0x3F :: u32) = mask 6" by (simp add: mask_numeral)
  show "unat (cp AND 0x3F) = unat cp mod 64"
    unfolding m by (simp add: take_bit_eq_mod unat_mod flip: take_bit_eq_mask)
  have *: "unat (drop_bit k cp) = unat cp div 2 ^ k" for k
    using unsigned_less [of cp, where 'a = nat] unfolding unsigned_drop_bit_eq
    by (simp add: drop_bit_eq_div take_bit_nat_eq_self)
  show "unat (drop_bit 6 cp) = unat cp div 64" "unat (drop_bit 12 cp) = unat cp div 64 div 64"
    "unat (drop_bit 18 cp) = unat cp div 64 div 64 div 64"
    unfolding * by (simp_all flip: div_mult2_eq)
qed

lemma base64: "(b :: nat) < 64 \<Longrightarrow> (a * 64 + b) div 64 = a" "(b :: nat) < 64 \<Longrightarrow> (a * 64 + b) mod 64 = b"
  by simp_all

lemma ucast_byte: "unat (x :: u32) = unat (b :: byte) \<Longrightarrow> ucast x = b"
  using unsigned_less [of b, where 'a = nat]
  by (simp add: word_unat_eq_iff unsigned_ucast_eq take_bit_nat_eq_self)

lemma unat_ucast_byte: "unat (ucast (b :: byte) :: u32) = unat b"
  using unsigned_less [of b, where 'a = nat] by (simp add: unsigned_ucast_eq take_bit_nat_eq_self)

lemma utf8_of_sequence:
  fixes b0 b1 b2 b3 :: byte
  shows "b0 AND 0xE0 = 0xC0 \<Longrightarrow> ms_decode_tail [b1] (ucast (b0 AND 0x1F)) = Some cp \<Longrightarrow> \<not> cp < 0x80 \<Longrightarrow>
      utf8_encode cp = [b0, b1]"
    and "b0 AND 0xF0 = 0xE0 \<Longrightarrow> ms_decode_tail [b1, b2] (ucast (b0 AND 0x0F)) = Some cp \<Longrightarrow> \<not> cp < 0x800 \<Longrightarrow>
      utf8_encode cp = [b0, b1, b2]"
    and "b0 AND 0xF8 = 0xF0 \<Longrightarrow> ms_decode_tail [b1, b2, b3] (ucast (b0 AND 0x07)) = Some cp \<Longrightarrow>
      \<not> cp < 0x10000 \<Longrightarrow> utf8_encode cp = [b0, b1, b2, b3]"
proof -
  note up = unat_ucast_byte
  note bounds = payload_bound(1) [of b1] payload_bound(1) [of b2] payload_bound(1) [of b3]
  {
    assume a: "b0 AND 0xE0 = 0xC0" "ms_decode_tail [b1] (ucast (b0 AND 0x1F)) = Some cp" "\<not> cp < 0x80"
    have b: "unat (b0 AND 0x1F) < 32" by (rule payload_bound)
    have cp: "unat cp = unat (b0 AND 0x1F) * 64 + unat (b1 AND 0x3F)" "is_continuation b1"
      using a(2) b decode_step [of "ucast (b0 AND 0x1F)" b1] up by (auto split: if_splits)
    have "cp < 0x800" using cp b bounds by (simp add: word_less_nat_alt)
    moreover have "ucast (drop_bit 6 cp) = b0 AND 0x1F" "ucast (cp AND 0x3F) = b1 AND 0x3F"
      by (rule ucast_byte, simp only: unat_fields cp(1) base64 bounds)+
    ultimately show "utf8_encode cp = [b0, b1]"
      using a(3) byte_split(1) [OF a(1)] byte_split(4) [OF cp(2)] by (simp add: utf8_encode_def)
  next
    assume a: "b0 AND 0xF0 = 0xE0" "ms_decode_tail [b1, b2] (ucast (b0 AND 0x0F)) = Some cp" "\<not> cp < 0x800"
    have b: "unat (b0 AND 0x0F) < 16" by (rule payload_bound)
    let ?c1 = "push_bit 6 (ucast (b0 AND 0x0F)) OR ucast (b1 AND 0x3F) :: u32"
    have c1: "unat ?c1 = unat (b0 AND 0x0F) * 64 + unat (b1 AND 0x3F)"
      using b decode_step [of "ucast (b0 AND 0x0F)" b1] up by simp
    have cp: "unat cp = (unat (b0 AND 0x0F) * 64 + unat (b1 AND 0x3F)) * 64 + unat (b2 AND 0x3F)"
      "is_continuation b1" "is_continuation b2"
      using a(2) b bounds c1 decode_step [of ?c1 b2] by (auto split: if_splits)
    have "cp < 0x10000" using cp b bounds by (simp add: word_less_nat_alt)
    moreover have "\<not> cp < 0x80" using a(3) by (simp add: word_less_nat_alt)
    moreover have "ucast (drop_bit 12 cp) = b0 AND 0x0F" "ucast (drop_bit 6 cp AND 0x3F) = b1 AND 0x3F"
      "ucast (cp AND 0x3F) = b2 AND 0x3F"
      by (rule ucast_byte, simp only: unat_fields cp(1) base64 bounds)+
    ultimately show "utf8_encode cp = [b0, b1, b2]"
      using a(3) byte_split(2) [OF a(1)] byte_split(4) [OF cp(2)] byte_split(4) [OF cp(3)] by (simp add: utf8_encode_def)
  next
    assume a: "b0 AND 0xF8 = 0xF0" "ms_decode_tail [b1, b2, b3] (ucast (b0 AND 0x07)) = Some cp" "\<not> cp < 0x10000"
    have b: "unat (b0 AND 0x07) < 8" by (rule payload_bound)
    let ?c1 = "push_bit 6 (ucast (b0 AND 0x07)) OR ucast (b1 AND 0x3F) :: u32"
    let ?c2 = "push_bit 6 ?c1 OR ucast (b2 AND 0x3F) :: u32"
    have c1: "unat ?c1 = unat (b0 AND 0x07) * 64 + unat (b1 AND 0x3F)"
      using b decode_step [of "ucast (b0 AND 0x07)" b1] up by simp
    have c2: "unat ?c2 = unat ?c1 * 64 + unat (b2 AND 0x3F)" using b bounds c1 by (intro decode_step) simp
    have cp: "unat cp = ((unat (b0 AND 0x07) * 64 + unat (b1 AND 0x3F)) * 64 + unat (b2 AND 0x3F)) * 64 + unat (b3 AND 0x3F)"
      "is_continuation b1" "is_continuation b2" "is_continuation b3"
      using a(2) b bounds c1 c2 decode_step [of ?c2 b3] by (auto split: if_splits)
    have "\<not> cp < 0x80" "\<not> cp < 0x800" using a(3) by (auto simp: word_less_nat_alt)
    moreover have "ucast (drop_bit 18 cp) = b0 AND 0x07" "ucast (drop_bit 12 cp AND 0x3F) = b1 AND 0x3F"
      "ucast (drop_bit 6 cp AND 0x3F) = b2 AND 0x3F" "ucast (cp AND 0x3F) = b3 AND 0x3F"
      by (rule ucast_byte, simp only: unat_fields cp(1) base64 bounds)+
    ultimately show "utf8_encode cp = [b0, b1, b2, b3]"
      using a(3) byte_split(3) [OF a(1)] byte_split(4) [OF cp(2)] byte_split(4) [OF cp(3)] byte_split(4) [OF cp(4)]
      by (simp add: utf8_encode_def)
  }
qed


section \<open>Trimming\<close>

text \<open>What the test removes is the encoding of a white space code point.\<close>

lemma drop_start_Cons:
  assumes "start < len" "len \<le> length m"
  shows "drop start (take len m) = m ! start # drop (start + 1) (take len m)"
  using assms Cons_nth_drop_Suc [of start "take len m"] by simp

lemma list_of_length: "length xs = 1 \<Longrightarrow> \<exists>a. xs = [a]" "length xs = 2 \<Longrightarrow> \<exists>a b. xs = [a, b]"
  "length xs = 3 \<Longrightarrow> \<exists>a b c. xs = [a, b, c]"
  by (auto simp: length_Suc_conv numeral_eq_Suc)

lemma trailing_whitespace_cases:
  assumes "message_store_trailing_whitespace_bytes m len = n" "0 < n"
  obtains (ascii) "0 < len" "n = 1" "m ! (len - 1) AND 0x80 = 0"
      "message_store_is_unicode_whitespace (ucast (m ! (len - 1)))"
  | (wide) start cp0 cp where "start + n = len" "message_store_is_unicode_whitespace cp"
      "ms_decode_tail (drop (start + 1) (take len m)) cp0 = Some cp"
      "n = 2 \<and> m ! start AND 0xE0 = 0xC0 \<and> cp0 = ucast (m ! start AND 0x1F) \<and> \<not> cp < 0x80 \<or>
       n = 3 \<and> m ! start AND 0xF0 = 0xE0 \<and> cp0 = ucast (m ! start AND 0x0F) \<and> \<not> cp < 0x800 \<or>
       n = 4 \<and> m ! start AND 0xF8 = 0xF0 \<and> cp0 = ucast (m ! start AND 0x07) \<and> \<not> cp < 0x10000"
proof (cases "0 < len \<and> m ! (len - 1) AND 0x80 \<noteq> 0")
  case False
  with assms ascii show thesis
    by (auto simp: message_store_trailing_whitespace_bytes_def split: if_splits)
next
  case True
  let ?start = "ms_sequence_start m (len - 1)"
  let ?b0 = "m ! ?start"
  define lead where "lead = (if ?b0 AND 0xE0 = 0xC0 then Some (2, ucast (?b0 AND 0x1F))
      else if ?b0 AND 0xF0 = 0xE0 then Some (3, ucast (?b0 AND 0x0F))
      else if ?b0 AND 0xF8 = 0xF0 then Some (4, ucast (?b0 AND 0x07)) else None :: (nat \<times> u32) option)"
  have n: "n = (case lead of None \<Rightarrow> 0 | Some (seq_len, cp0) \<Rightarrow> if ?start + seq_len \<noteq> len then 0
      else case ms_decode_tail (drop (?start + 1) (take len m)) cp0 of None \<Rightarrow> 0
      | Some cp \<Rightarrow> if (seq_len = 2 \<and> cp < 0x80) \<or> (seq_len = 3 \<and> cp < 0x800) \<or> (seq_len = 4 \<and> cp < 0x10000) \<or>
            (0xD800 \<le> cp \<and> cp \<le> 0xDFFF) \<or> cp > 0x10FFFF then 0
          else if message_store_is_unicode_whitespace cp then seq_len else 0)"
    using True assms(1) by (auto simp: message_store_trailing_whitespace_bytes_def Let_def lead_def)
  with assms(2) obtain cp0 where l: "lead = Some (n, cp0)" "?start + n = len"
    by (auto split: option.splits prod.splits if_splits)
  have "ms_decode_tail (drop (?start + 1) (take len m)) cp0 \<noteq> None" using n l assms(2) by (intro notI) simp
  then obtain cp where tl: "ms_decode_tail (drop (?start + 1) (take len m)) cp0 = Some cp" by blast
  let ?bad = "(n = 2 \<and> cp < 0x80) \<or> (n = 3 \<and> cp < 0x800) \<or> (n = 4 \<and> cp < 0x10000) \<or>
    (0xD800 \<le> cp \<and> cp \<le> 0xDFFF) \<or> cp > 0x10FFFF"
  have eq: "n = (if ?bad then 0 else if message_store_is_unicode_whitespace cp then n else 0)"
    using n unfolding l(1) option.case prod.case tl using l(2) by (simp only: if_False simp_thms)
  have "\<not> ?bad" using eq assms(2) by (metis less_irrefl)
  with eq assms(2) tl have cp: "ms_decode_tail (drop (?start + 1) (take len m)) cp0 = Some cp"
    "message_store_is_unicode_whitespace cp"
    "\<not> (n = 2 \<and> cp < 0x80)" "\<not> (n = 3 \<and> cp < 0x800)" "\<not> (n = 4 \<and> cp < 0x10000)"
    by (metis less_irrefl)+
  consider "?b0 AND 0xE0 = 0xC0" | "?b0 AND 0xE0 \<noteq> 0xC0" "?b0 AND 0xF0 = 0xE0"
    | "?b0 AND 0xE0 \<noteq> 0xC0" "?b0 AND 0xF0 \<noteq> 0xE0" "?b0 AND 0xF8 = 0xF0"
    using l(1) by (fastforce simp: lead_def)
  then show thesis
  proof cases
    case 1
    with l(1) have "n = 2" "cp0 = ucast (?b0 AND 0x1F)" by (simp_all add: lead_def)
    with 1 cp(3) show thesis by (intro wide [OF l(2) cp(2,1)]) simp
  next
    case 2
    with l(1) have "n = 3" "cp0 = ucast (?b0 AND 0x0F)" by (simp_all add: lead_def)
    with 2 cp(4) show thesis by (intro wide [OF l(2) cp(2,1)]) simp
  next
    case 3
    with l(1) have "n = 4" "cp0 = ucast (?b0 AND 0x07)" by (simp_all add: lead_def)
    with 3 cp(5) show thesis by (intro wide [OF l(2) cp(2,1)]) simp
  qed
qed

lemma trailing_whitespace_sound:
  assumes "message_store_trailing_whitespace_bytes m len = n" "0 < n" "len \<le> length m"
  shows "\<exists>cp. message_store_is_unicode_whitespace cp \<and> drop (len - n) (take len m) = utf8_encode cp"
  using assms(1,2)
proof (cases rule: trailing_whitespace_cases)
  case ascii
  let ?b = "m ! (len - 1)"
  have u: "unat (ucast ?b :: u32) = unat ?b" "unat ?b < 256"
    using unsigned_less [of ?b, where 'a = nat] unat_ucast_byte by simp_all
  have "(ucast ?b :: u32) \<notin> set wide_spaces"
  proof
    assume "(ucast ?b :: u32) \<in> set wide_spaces"
    then have "unat (ucast ?b :: u32) \<in> unat ` set wide_spaces" by simp
    with u have "unat ?b = 0x85 \<or> unat ?b = 0xA0" by (auto simp: wide_spaces_def)
    then have "?b = 0x85 \<or> ?b = 0xA0" by (auto simp: word_unat_eq_iff)
    with ascii(3) show False by auto
  qed
  with ascii(4) u have "unat ?b < 128" by (auto simp: whitespace_cases word_le_nat_alt)
  then have "utf8_encode (ucast ?b) = [?b]"
    using u ucast_byte [OF u(1)] by (simp add: utf8_encode_def word_less_nat_alt)
  moreover have "drop (len - n) (take len m) = [?b]"
    using drop_start_Cons [of "len - 1" len m] ascii(1,2) assms(3) by simp
  ultimately show ?thesis using ascii(4) by metis
next
  case (wide start cp0 cp)
  let ?tail = "drop (start + 1) (take len m)"
  have len: "length ?tail = n - 1" using wide(1) assms(3) by simp
  have whole: "drop (len - n) (take len m) = m ! start # ?tail"
    using drop_start_Cons [of start len m] wide(1) assms(2,3) by auto
  from wide(4) have "m ! start # ?tail = utf8_encode cp"
  proof (elim disjE conjE)
    assume a: "n = 2" "m ! start AND 0xE0 = 0xC0" "cp0 = ucast (m ! start AND 0x1F)" "\<not> cp < 0x80"
    then obtain b1 where "?tail = [b1]" using len list_of_length(1) [of ?tail] by auto
    with utf8_of_sequence(1) [OF a(2) _ a(4), of b1] wide(3) a(3) show ?thesis by simp
  next
    assume a: "n = 3" "m ! start AND 0xF0 = 0xE0" "cp0 = ucast (m ! start AND 0x0F)" "\<not> cp < 0x800"
    then obtain b1 b2 where "?tail = [b1, b2]" using len list_of_length(2) [of ?tail] by auto
    with utf8_of_sequence(2) [OF a(2) _ a(4), of b1 b2] wide(3) a(3) show ?thesis by simp
  next
    assume a: "n = 4" "m ! start AND 0xF8 = 0xF0" "cp0 = ucast (m ! start AND 0x07)" "\<not> cp < 0x10000"
    then obtain b1 b2 b3 where "?tail = [b1, b2, b3]" using len list_of_length(3) [of ?tail] by auto
    with utf8_of_sequence(3) [OF a(2) _ a(4), of b1 b2 b3] wide(3) a(3) show ?thesis by simp
  qed
  with whole wide(2) show ?thesis by metis
qed

text \<open>Every white space code point at the end is recognised.\<close>

lemma trailing_wide:
  assumes "b0 AND 0xE0 = 0xC0" "\<not> is_continuation b0" "is_continuation b1" "b1 AND 0x80 \<noteq> 0"
    "push_bit 6 (ucast (b0 AND 0x1F)) OR ucast (b1 AND 0x3F) = (cp :: u32)"
    "\<not> cp < 0x80" "\<not> 0xD800 \<le> cp" "message_store_is_unicode_whitespace cp"
  shows "message_store_trailing_whitespace_bytes (pre @ [b0, b1] @ post) (length pre + 2) = 2"
proof -
  let ?m = "pre @ [b0, b1] @ post"
  have n: "?m ! (length pre + 1) = b1" "?m ! length pre = b0" by (simp_all add: nth_append)
  have start: "ms_sequence_start ?m (length pre + 1) = length pre"
    using assms(2,3) by (cases pre) (simp_all add: n [unfolded Suc_eq_plus1 [symmetric]] nth_append)
  have "\<not> cp > 0x10FFFF" using assms(7) by (simp add: word_less_nat_alt word_le_nat_alt)
  moreover have "length pre + 2 - 1 = length pre + 1" by simp
  ultimately show ?thesis
    using assms n start by (simp add: message_store_trailing_whitespace_bytes_def Let_def)
qed

lemma trailing_wide3:
  assumes "b0 AND 0xE0 \<noteq> 0xC0" "b0 AND 0xF0 = 0xE0" "\<not> is_continuation b0" "is_continuation b1" "is_continuation b2"
    "b2 AND 0x80 \<noteq> 0"
    "push_bit 6 (push_bit 6 (ucast (b0 AND 0x0F)) OR ucast (b1 AND 0x3F)) OR ucast (b2 AND 0x3F) = (cp :: u32)"
    "\<not> cp < 0x800" "\<not> 0xD800 \<le> cp" "message_store_is_unicode_whitespace cp"
  shows "message_store_trailing_whitespace_bytes (pre @ [b0, b1, b2] @ post) (length pre + 3) = 3"
proof -
  let ?m = "pre @ [b0, b1, b2] @ post"
  have n: "?m ! (length pre + 2) = b2" "?m ! (length pre + 1) = b1" "?m ! length pre = b0" by (simp_all add: nth_append)
  have "ms_sequence_start ?m (length pre) = length pre"
    using assms(3) by (cases pre) (simp_all add: nth_append)
  then have start: "ms_sequence_start ?m (length pre + 2) = length pre"
    using assms(4,5) n by (simp add: numeral_2_eq_2)
  have "\<not> cp > 0x10FFFF" using assms(9) by (simp add: word_less_nat_alt word_le_nat_alt)
  moreover have "length pre + 3 - 1 = length pre + 2" by simp
  ultimately show ?thesis
    using assms n start by (simp add: message_store_trailing_whitespace_bytes_def Let_def)
qed

text \<open>The premises of the two lemmas, decided for all the wide white space.\<close>

fun wide_sequence :: "u32 \<Rightarrow> byte list \<Rightarrow> bool" where
  "wide_sequence cp [b0, b1] = (b0 AND 0xE0 = 0xC0 \<and> \<not> is_continuation b0 \<and> is_continuation b1 \<and> b1 AND 0x80 \<noteq> 0 \<and>
     push_bit 6 (ucast (b0 AND 0x1F)) OR ucast (b1 AND 0x3F) = cp \<and> \<not> cp < 0x80 \<and> \<not> 0xD800 \<le> cp)"
| "wide_sequence cp [b0, b1, b2] = (b0 AND 0xE0 \<noteq> 0xC0 \<and> b0 AND 0xF0 = 0xE0 \<and> \<not> is_continuation b0 \<and>
     is_continuation b1 \<and> is_continuation b2 \<and> b2 AND 0x80 \<noteq> 0 \<and>
     push_bit 6 (push_bit 6 (ucast (b0 AND 0x0F)) OR ucast (b1 AND 0x3F)) OR ucast (b2 AND 0x3F) = cp \<and>
     \<not> cp < 0x800 \<and> \<not> 0xD800 \<le> cp)"
| "wide_sequence cp _ = False"

lemma wide_spaces_sequences: "list_all (\<lambda>cp. wide_sequence cp (utf8_encode cp)) wide_spaces"
  by code_simp

lemma trailing_wide_sequence:
  assumes "wide_sequence cp bs" "message_store_is_unicode_whitespace cp"
  shows "message_store_trailing_whitespace_bytes (pre @ bs @ post) (length pre + length bs) = length bs"
  using assms
proof (cases rule: wide_sequence.cases [of "(cp, bs)"])
  case (1 cp' b0 b1)
  with assms trailing_wide [of b0 b1 cp pre post] show ?thesis by (simp add: numeral_2_eq_2)
next
  case (2 cp' b0 b1 b2)
  with assms trailing_wide3 [of b0 b1 b2 cp pre post] show ?thesis by (simp add: numeral_3_eq_3)
qed auto

lemma trailing_whitespace_complete:
  assumes "message_store_is_unicode_whitespace cp"
  shows "message_store_trailing_whitespace_bytes (pre @ utf8_encode cp @ post) (length pre + length (utf8_encode cp)) =
    length (utf8_encode cp)"
proof (cases "cp \<in> set wide_spaces")
  case False
  with assms have cp: "cp \<le> 0x7F" "isspace (char_of (unat cp))" by (auto simp: whitespace_cases)
  then have lt: "unat cp < 128" by (simp add: word_le_nat_alt)
  have enc: "utf8_encode cp = [ucast cp]" using lt by (simp add: utf8_encode_def word_less_nat_alt)
  have u: "unat (ucast cp :: byte) = unat cp" using lt by (simp add: unsigned_ucast_eq take_bit_nat_eq_self)
  have "unat cp \<in> {9, 10, 11, 12, 13, 32}"
    using cp(2) lt by (auto simp: isspace_def char_code_def of_char_of)
  then have "(ucast cp :: byte) \<in> {9, 10, 11, 12, 13, 32}" using u by (auto simp: word_unat_eq_iff)
  then have "(ucast cp :: byte) AND 0x80 = 0" by auto
  moreover have "ucast (ucast cp :: byte) = cp"
    by (simp only: word_unat_eq_iff unat_ucast_byte u)
  ultimately show ?thesis using assms by (simp add: message_store_trailing_whitespace_bytes_def enc nth_append)
next
  case True
  then have "wide_sequence cp (utf8_encode cp)" using wide_spaces_sequences by (simp add: list_all_iff)
  from trailing_wide_sequence [OF this assms] show ?thesis .
qed

text \<open>The loop removes the whole run of white space and nothing else.\<close>

lemma ms_trim_len_run:
  assumes "len \<le> length m"
  shows "ms_trim_len m len \<le> len \<and> message_store_trailing_whitespace_bytes m (ms_trim_len m len) = 0 \<and>
    (\<exists>cps. (\<forall>cp \<in> set cps. message_store_is_unicode_whitespace cp) \<and>
       take len m = take (ms_trim_len m len) m @ concat (map utf8_encode cps))"
  using assms
proof (induction m len rule: ms_trim_len.induct)
  case (1 m len)
  let ?n = "message_store_trailing_whitespace_bytes m len"
  show ?case
  proof (cases "0 < len \<and> ?n \<noteq> 0")
    case False
    then have "ms_trim_len m len = len" by (subst ms_trim_len.simps) (auto simp: Let_def)
    moreover have "?n = 0" using False by (cases "len = 0") (auto simp: message_store_trailing_whitespace_bytes_def)
    ultimately show ?thesis by (auto intro: exI [of _ "[]"])
  next
    case True
    then have eq: "ms_trim_len m len = ms_trim_len m (len - ?n)" by (subst ms_trim_len.simps) (simp add: Let_def)
    have le: "?n \<le> len" by (rule trailing_whitespace_bytes_le)
    obtain cp where cp: "message_store_is_unicode_whitespace cp" "drop (len - ?n) (take len m) = utf8_encode cp"
      using trailing_whitespace_sound [OF refl _ 1(2)] True by auto
    have le': "len - ?n \<le> length m" using 1(2) by simp
    from "1.IH" [OF _ refl _ le'] True obtain cps where
      ih: "ms_trim_len m (len - ?n) \<le> len - ?n"
        "message_store_trailing_whitespace_bytes m (ms_trim_len m (len - ?n)) = 0"
        "\<forall>cp \<in> set cps. message_store_is_unicode_whitespace cp"
        "take (len - ?n) m = take (ms_trim_len m (len - ?n)) m @ concat (map utf8_encode cps)" by blast
    have "take len m = take (len - ?n) (take len m) @ drop (len - ?n) (take len m)"
      by (rule append_take_drop_id [symmetric])
    then have "take len m = take (ms_trim_len m len) m @ concat (map utf8_encode (cps @ [cp]))"
      using ih(4) cp(2) eq by (simp add: min_absorb1)
    with ih cp(1) eq show ?thesis by (intro conjI exI [of _ "cps @ [cp]"]) auto
  qed
qed


text \<open>
C16: What the store keeps of a message is the message without its trailing white space, exactly: the
bytes cut off are the UTF-8 encodings of white space code points (ASCII and Unicode), and what is left does not
end with one. No byte of a truncated or overlong sequence is ever taken for white space.
\<close>
theorem message_trim_exact:
  "(\<exists>cps. (\<forall>cp \<in> set cps. message_store_is_unicode_whitespace cp) \<and>
      bytes_of_string message = bytes_of_string (ms_trimmed message) @ concat (map utf8_encode cps)) \<and>
   \<not> (\<exists>cp pre. message_store_is_unicode_whitespace cp \<and>
      bytes_of_string (ms_trimmed message) = pre @ utf8_encode cp)"
proof -
  let ?m = "bytes_of_string message"
  let ?n = "ms_trim_len ?m (length message)"
  note run = ms_trim_len_run [of "length message" ?m]
  have tr: "bytes_of_string (ms_trimmed message) = take ?n ?m" by (simp add: ms_trimmed_def take_map)
  have "False" if w: "message_store_is_unicode_whitespace cp" and e: "take ?n ?m = pre @ utf8_encode cp" for cp pre
  proof -
    have m: "?m = pre @ utf8_encode cp @ drop ?n ?m" using append_take_drop_id [of ?n ?m] e by simp
    have "?n = length (take ?n ?m)" using run by simp
    then have n: "?n = length pre + length (utf8_encode cp)" unfolding e by simp
    have "message_store_trailing_whitespace_bytes ?m ?n = length (utf8_encode cp)"
      using trailing_whitespace_complete [OF w, of pre "drop ?n ?m"] unfolding m [symmetric] n [symmetric] .
    moreover have "message_store_trailing_whitespace_bytes ?m ?n = 0" using run by simp
    moreover have "length (utf8_encode cp) \<noteq> 0" by (simp add: utf8_encode_def)
    ultimately show False by simp
  qed
  with run tr show ?thesis by auto
qed

theorem message_trim_exact_witness:
  "\<exists>cps. (\<forall>cp \<in> set cps. message_store_is_unicode_whitespace cp) \<and>
     bytes_of_string ''hi'' @ [0x20, 0xE2, 0x80, 0x83] = bytes_of_string ''hi'' @ concat (map utf8_encode cps)"
proof -
  let ?msg = "''hi '' @ string_of_bytes [0xE2, 0x80, 0x83]"
  have e: "ms_trimmed ?msg = ''hi''" "bytes_of_string ?msg = bytes_of_string ''hi'' @ [0x20, 0xE2, 0x80, 0x83]"
    by code_simp+
  from conjunct1 [OF message_trim_exact [of ?msg]] show ?thesis unfolding e .
qed

section \<open>The store as a cell\<close>

text \<open>
  What the users of the store rely on: a write makes its value, in normal form, the current one and
  advances the version.
\<close>

locale message_cell =
  fixes put :: "'m \<Rightarrow> 's \<Rightarrow> 's" and cur :: "'s \<Rightarrow> 'm option" and ver :: "'s \<Rightarrow> u64"
    and norm :: "'m \<Rightarrow> 'm" and ready :: "'s \<Rightarrow> bool"
  assumes put_ready: "ready s \<Longrightarrow> ready (put m s)"
    and put_cur: "ready s \<Longrightarrow> cur (put m s) = Some (norm m)"
    and put_ver: "ready s \<Longrightarrow> ver (put m s) = ver s + 1"
begin

lemma puts_ready: "ready s \<Longrightarrow> ready (fold put ms s)"
  by (induction ms arbitrary: s) (auto simp: put_ready)

lemma puts_ver: "ready s \<Longrightarrow> ver (fold put ms s) = ver s + of_nat (length ms)"
  by (induction ms arbitrary: s) (auto simp: put_ready put_ver)

lemma puts_cur: "ready s \<Longrightarrow> cur (fold put ms s) = (if ms = [] then cur s else Some (norm (last ms)))"
  by (induction ms arbitrary: s) (auto simp: put_ready put_cur)

end

definition store_put :: "string \<Rightarrow> message_store_state \<Rightarrow> message_store_state" where
  "store_put m st = snd (message_store_set True m st)"

interpretation cell: message_cell store_put ms_message ms_version ms_trimmed ms_initialized
  by unfold_locales (simp_all add: store_put_def message_store_set_def)

text \<open>
  The abstract state is the list of the messages accepted since the store was opened. Operations that do not
  get their memory leave it alone, as does the shutdown.
\<close>

primrec accepted :: "ms_op \<Rightarrow> string list" where
  "accepted (MsSet alloc message) = (if alloc then [message] else [])"
| "accepted MsShutdown = []"

definition tracks :: "string list \<Rightarrow> message_store_state \<Rightarrow> bool" where
  "tracks hist st \<longleftrightarrow> ms_initialized st \<and> ms_version st = of_nat (length hist) \<and>
     ms_message st = (if hist = [] then None else Some (ms_trimmed (last hist)))"

lemma tracks_op: "tracks hist st \<Longrightarrow> tracks (hist @ accepted op) (ms_run_op op st)"
  by (cases op) (auto simp: tracks_def message_store_set_def message_store_shutdown_def)

lemma tracks_ops: "tracks hist st \<Longrightarrow> tracks (hist @ concat (map accepted ops)) (ms_run_ops ops st)"
proof (induction ops arbitrary: hist st)
  case (Cons op ops)
  from Cons.IH [OF tracks_op [OF Cons.prems]] show ?case by (simp add: ms_run_ops_def)
qed (simp add: ms_run_ops_def)

text \<open>
C17: The store refines the history of accepted messages: after any sequence of critical sections of any
threads, in any order, with memory failing or not, the current message is the last accepted one,
trimmed, and the version counts the accepted ones (modulo 2 to the 64); a snapshot returns just that pair.
\<close>
theorem message_store_refines_history:
  assumes "message_store_init ok message_store_zero = (0, st0)"
    and "st = ms_run_ops ops st0" and "hist = concat (map accepted ops)"
  shows "message_store_get_snapshot True v st =
    (0, \<lparr>snap_message = map_option ms_trimmed (if hist = [] then None else Some (last hist)),
        snap_has_message = (hist \<noteq> []), snap_version = of_nat (length hist)\<rparr>)"
proof -
  have "tracks [] st0"
    using assms(1) by (auto simp: tracks_def message_store_init_def message_store_zero_def split: if_splits)
  from tracks_ops [OF this, of ops] have "tracks hist st" by (simp add: assms)
  then show ?thesis by (auto simp: tracks_def message_store_get_snapshot_def)
qed

theorem message_store_refines_history_witness:
  "let st0 = snd (message_store_init True message_store_zero);
       st = ms_run_ops [MsSet True ''one '', MsSet False ''two'', MsShutdown, MsSet True ''three''] st0 in
   message_store_get_snapshot True 7 st =
     (0, \<lparr>snap_message = Some (ms_trimmed ''three''), snap_has_message = True, snap_version = 2\<rparr>)"
  using message_store_refines_history [OF _ refl refl, where ok = True and v = 7 and
      ops = "[MsSet True ''one '', MsSet False ''two'', MsShutdown, MsSet True ''three'']"
      and ?st0.0 = "snd (message_store_init True message_store_zero)"]
  by (simp add: message_store_init_def message_store_zero_def)


section \<open>Waiting\<close>

text \<open>The operations that run while a thread waits, up to the event that ends the wait.\<close>

primrec event_ops :: "wait_event \<Rightarrow> ms_op list" where
  "event_ops ClockFails = []"
| "event_ops (Wakes ops) = ops"
| "event_ops (TimesOut ops) = ops"
| "event_ops (WaitFails ops) = ops"

lemma ms_wait_loop_history:
  assumes "ms_wait_loop known evs st = (ok, st')" "tracks hist st"
  shows "\<exists>more. tracks (hist @ more) st'"
  using assms
proof (induction known evs st arbitrary: hist rule: ms_wait_loop.induct)
  case (1 known st)
  then show ?case by (auto intro: exI [of _ "[]"])
next
  case (2 known e es st)
  note step = tracks_ops [OF "2.prems"(2), of "event_ops e"]
  show ?case
  proof (cases "ms_version st > known \<or> ms_shutting_down st \<or> (\<forall>ops. e \<noteq> Wakes ops)")
    case True
    then have "st' = st \<or> st' = ms_run_ops (event_ops e) st"
      using "2.prems"(1) by (cases e) (auto split: if_splits)
    with step "2.prems"(2) show ?thesis by (auto intro: exI [of _ "[]"])
  next
    case False
    then obtain ops where e: "e = Wakes ops" by auto
    with False "2.prems"(1) have "ms_wait_loop known es (ms_run_ops ops st) = (ok, st')" by auto
    from "2.IH" [OF _ _ e this, of "hist @ concat (map accepted ops)"] False step e
    show ?thesis by auto
  qed
qed

text \<open>
C18: A wait that returns success reports the store as it is when it returns. If it reports a message,
that is the last accepted one and the version that goes with it, newer than the version the caller
knew; if it reports none, there is no newer message: an update made before or during the wait is
never lost, whatever the other threads do and however the waits end.
\<close>
theorem message_wait_reports_current:
  assumes "tracks hist st" "message_store_wait_for_update known evs alloc st = (0, snap, st')"
  shows "\<exists>more. tracks (hist @ more) st' \<and> snap_version snap = of_nat (length (hist @ more)) \<and>
    (if known < of_nat (length (hist @ more))
     then snap_message snap = Some (ms_trimmed (last (hist @ more))) \<and> snap_has_message snap
     else snap_message snap = None \<and> \<not> snap_has_message snap)"
proof -
  have init: "ms_initialized st" using assms(1) by (simp add: tracks_def)
  obtain ok st1 where lp: "ms_wait_loop known evs st = (ok, st1)" by fastforce
  from ms_wait_loop_history [OF lp assms(1)] obtain more where t: "tracks (hist @ more) st1" by blast
  have ok and st1: "st' = st1" using assms(2) lp init
    by (auto simp: message_store_wait_for_update_def Let_def split: bool.splits option.splits if_splits)
  have "hist @ more \<noteq> []" if "known < of_nat (length (hist @ more))" using that by (intro notI) simp
  then show ?thesis
    using assms(2) lp init \<open>ok\<close> t unfolding st1
    by (intro exI [of _ more])
      (auto simp: message_store_wait_for_update_def tracks_def Let_def split: option.splits if_splits)
qed

theorem message_wait_reports_current_witness:
  "let st = snd (message_store_init True message_store_zero);
       (rc, snap, st') = message_store_wait_for_update 0 [Wakes [], Wakes [MsSet True ''news'']] True st in
   \<exists>more. tracks more st' \<and> snap_version snap = of_nat (length more) \<and> snap_message snap = Some (ms_trimmed (last more))"
proof -
  let ?st = "snd (message_store_init True message_store_zero)"
  have t: "tracks [] ?st" by (simp add: tracks_def message_store_init_def message_store_zero_def)
  obtain rc snap st' where r: "message_store_wait_for_update 0 [Wakes [], Wakes [MsSet True ''news'']] True ?st = (rc, snap, st')"
    by (metis prod_cases3)
  then have v: "rc = 0" "snap_version snap = 1"
    by (auto simp: message_store_wait_for_update_def message_store_init_def message_store_zero_def ms_run_ops_def
        message_store_set_def)
  from message_wait_reports_current [OF t r [unfolded v]] v r show ?thesis
    by (auto split: if_splits)
qed

text \<open>
C19: A waiter is woken. Spurious wake-ups change nothing; as soon as a wake-up comes with an accepted
message that makes the version exceed the one the caller knows, the call returns that message at
once, without consulting the clock again; and after a shutdown it returns at the next wake-up.
\<close>
theorem message_wait_wakes:
  assumes "tracks hist st" "\<not> ms_shutting_down st" "of_nat (length hist) \<le> known"
    and "st' = ms_run_ops ops st" "now = hist @ concat (map accepted ops)"
  shows "(known < of_nat (length now) \<longrightarrow>
      message_store_wait_for_update known (replicate k (Wakes []) @ Wakes ops # evs) True st =
        (0, \<lparr>snap_message = Some (ms_trimmed (last now)), snap_has_message = True, snap_version = of_nat (length now)\<rparr>, st')) \<and>
    (ms_shutting_down st' \<and> \<not> known < of_nat (length now) \<longrightarrow>
      message_store_wait_for_update known (replicate k (Wakes []) @ Wakes ops # evs) True st =
        (0, \<lparr>snap_message = None, snap_has_message = False, snap_version = of_nat (length now)\<rparr>, st'))"
proof -
  have t: "tracks now st'" using tracks_ops [OF assms(1)] assms(4,5) by simp
  have le: "\<not> ms_version st > known" using assms(1,3) by (simp add: tracks_def not_less)
  have end1: "ms_wait_loop known evs st' = (True, st')" if "known < of_nat (length now) \<or> ms_shutting_down st'"
    using that t by (cases evs) (auto simp: tracks_def)
  have "ms_wait_loop known (replicate k (Wakes []) @ Wakes ops # evs) st = ms_wait_loop known evs st'"
    using le assms(2,4) by (induction k) (auto simp: ms_run_ops_def)
  moreover have "now \<noteq> []" if "known < of_nat (length now)" using that by (intro notI) simp
  ultimately show ?thesis
    using end1 t assms(1) by (auto simp: message_store_wait_for_update_def tracks_def Let_def)
qed

theorem message_wait_wakes_witness:
  "let st = snd (message_store_init True message_store_zero) in
   message_store_wait_for_update 0 (replicate 3 (Wakes []) @ Wakes [MsSet True ''a'', MsSet True ''b''] # [ClockFails]) True st =
     (0, \<lparr>snap_message = Some (ms_trimmed ''b''), snap_has_message = True, snap_version = 2\<rparr>,
      ms_run_ops [MsSet True ''a'', MsSet True ''b''] st)"
proof -
  let ?st = "snd (message_store_init True message_store_zero)"
  have t: "tracks [] ?st" "\<not> ms_shutting_down ?st"
    by (simp_all add: tracks_def message_store_init_def message_store_zero_def)
  from message_wait_wakes [OF t _ refl refl, where known = 0 and k = 3 and
      ops = "[MsSet True ''a'', MsSet True ''b'']" and evs = "[ClockFails]"]
  show ?thesis by simp
qed

end
