(* ===== verification/Http_Codec.thy ===== *)
theory Http_Codec
  imports App_Service Message_Facts
begin

text \<open>
  \<^verbatim>\<open>src/http.c\<close>, the part below the requests: the growing buffer, numbers, percent encoding, the query
  string, JSON strings and the UTF-8 and UTF-16 escapes in them. A \<^verbatim>\<open>char *\<close> is a C string; the buffer may also
  hold a zero character, and is read as the C string before it.
\<close>

unbundle bit_operations_syntax

section \<open>The buffer\<close>

text \<open>\<^verbatim>\<open>len\<close> is the length of \<open>hb_data\<close>; the terminating zero is not part of it.\<close>

record http_buf =
  hb_data :: string
  hb_cap :: nat

definition http_buf_zero :: http_buf where
  "http_buf_zero = \<lparr>hb_data = [], hb_cap = 0\<rparr>"

definition SIZE_MAX :: nat where "SIZE_MAX = 2 ^ 64 - 1"

text \<open>The doubling loop; the capacity it starts from is at least 1.\<close>

function http_buf_grow :: "nat \<Rightarrow> nat \<Rightarrow> nat option" where
  "http_buf_grow new_cap need =
     (if 0 < new_cap \<and> new_cap < need then
        if new_cap > SIZE_MAX div 2 then None else http_buf_grow (new_cap * 2) need
      else Some new_cap)"
  by pat_completeness auto
termination
  by (relation "measure (\<lambda>(new_cap, need). need - new_cap)") auto

declare http_buf_grow.simps [simp del]

definition http_buf_reserve :: "http_buf \<Rightarrow> nat \<Rightarrow> world \<Rightarrow> bool \<times> http_buf \<times> world" where
  "http_buf_reserve buf need w =
     (if hb_cap buf \<ge> need then (True, buf, w)
      else case http_buf_grow (if hb_cap buf = 0 then 256 else hb_cap buf) need of
        None \<Rightarrow> (False, buf, w)
      | Some new_cap \<Rightarrow>
         (case malloc w of
            (False, w1) \<Rightarrow> (False, buf, w1)
          | (True, w1) \<Rightarrow> (True, buf\<lparr>hb_cap := new_cap\<rparr>, w1)))"

text \<open>\<open>None\<close> is the return value 1: every caller then frees the buffer.\<close>

definition http_buf_append :: "http_buf \<Rightarrow> string \<Rightarrow> world \<Rightarrow> http_buf option \<times> world" where
  "http_buf_append buf dat w =
     (case http_buf_reserve buf (length (hb_data buf) + length dat + 1) w of
        (False, b, w1) \<Rightarrow> (None, w1)
      | (True, b, w1) \<Rightarrow> (Some (b\<lparr>hb_data := hb_data b @ dat\<rparr>), w1))"

text \<open>A chain of appends, the first failure ends it: \<^verbatim>\<open>http_buf_append_str(..) != 0 || ...\<close>.\<close>

primrec http_buf_append_all :: "string list \<Rightarrow> http_buf \<Rightarrow> world \<Rightarrow> http_buf option \<times> world" where
  "http_buf_append_all [] buf w = (Some buf, w)"
| "http_buf_append_all (s # ss) buf w =
     (case http_buf_append buf s w of
        (None, w1) \<Rightarrow> (None, w1)
      | (Some b, w1) \<Rightarrow> http_buf_append_all ss b w1)"

section \<open>Numbers, names, queries\<close>

fun http_ascii_starts_with :: "string \<Rightarrow> string \<Rightarrow> bool" where
  "http_ascii_starts_with s [] = True"
| "http_ascii_starts_with [] (p # ps) = False"
| "http_ascii_starts_with (c # s) (p # ps) = (if tolower c \<noteq> tolower p then False else http_ascii_starts_with s ps)"

fun http_parse_u64_loop :: "string \<Rightarrow> u64 \<Rightarrow> u64 option" where
  "http_parse_u64_loop [] v = Some v"
| "http_parse_u64_loop (c # s) v =
     (if \<not> isdigit c then None
      else if v > (- 1 - of_nat (digit_val c)) div 10 then None
      else http_parse_u64_loop s (v * 10 + of_nat (digit_val c)))"

definition http_parse_u64 :: "string \<Rightarrow> u64 option" where
  "http_parse_u64 s = (if s = [] then None else http_parse_u64_loop s 0)"

definition hex_val :: "char \<Rightarrow> nat" where
  "hex_val c = (if isdigit c then char_code c - 48 else 10 + char_code (tolower c) - 97)"

text \<open>
  \<open>out\<close> is the buffer filled so far. A zero character that \<^verbatim>\<open>%00\<close> decodes to ends the C string.
\<close>

fun http_decode_name_loop :: "nat \<Rightarrow> string \<Rightarrow> string \<Rightarrow> string option" where
  "http_decode_name_loop out_cap [] out = Some out"
| "http_decode_name_loop out_cap (c # s) out =
     (if length out + 1 \<ge> out_cap then None
      else if c = CHR ''%'' then
        (case s of
           a # b # rest \<Rightarrow>
             if \<not> isxdigit a \<or> \<not> isxdigit b then None
             else http_decode_name_loop out_cap rest (out @ [char_of (hex_val a * 16 + hex_val b)])
         | _ \<Rightarrow> None)
      else http_decode_name_loop out_cap s (out @ [c]))"

definition http_decode_name :: "string \<Rightarrow> nat \<Rightarrow> string option" where
  "http_decode_name encoded out_cap =
     (if out_cap = 0 then None else map_option cstr (http_decode_name_loop out_cap encoded []))"

text \<open>The return value 0, 1 or 2 and the C string in \<open>out\<close>.\<close>

function http_query_loop :: "string \<Rightarrow> string \<Rightarrow> nat \<Rightarrow> int \<times> string" where
  "http_query_loop query key out_cap =
     (if query = [] then (1, [])
      else
        let amp = strchr query (CHR ''&'');
            entry = (case amp of Some i \<Rightarrow> take i query | None \<Rightarrow> query);
            eq = strchr entry (CHR ''='');
            nm = (case eq of Some i \<Rightarrow> take i entry | None \<Rightarrow> entry);
            v = (case eq of Some i \<Rightarrow> drop (Suc i) entry | None \<Rightarrow> [])
        in if nm = key then (if length v \<ge> out_cap then (2, []) else (0, v))
           else case amp of None \<Rightarrow> (1, []) | Some i \<Rightarrow> http_query_loop (drop (Suc i) query) key out_cap)"
  by pat_completeness auto
termination
  by (relation "measure (\<lambda>(query, key, out_cap). length query)") auto

declare http_query_loop.simps [simp del]

definition http_query_get_value :: "string \<Rightarrow> string \<Rightarrow> nat \<Rightarrow> int \<times> string" where
  "http_query_get_value query key out_cap =
     (if out_cap = 0 then (1, [])
      else if query = [] then (1, [])
      else http_query_loop query key out_cap)"

definition http_build_relative_child_path :: "nat \<Rightarrow> string \<Rightarrow> string \<Rightarrow> string option" where
  "http_build_relative_child_path out_cap base nm =
     (if out_cap = 0 then None
      else snprintf_checked out_cap (if base = [] then nm else base @ ''/'' @ nm))"

fun http_path_kind_name :: "fs_path_kind \<Rightarrow> string" where
  "http_path_kind_name FS_PATH_KIND_FILE = ''file''"
| "http_path_kind_name FS_PATH_KIND_DIR = ''dir''"
| "http_path_kind_name FS_PATH_KIND_SYMLINK = ''symlink''"
| "http_path_kind_name FS_PATH_KIND_OTHER = ''other''"

definition http_relative_basename :: "string \<Rightarrow> string" where
  "http_relative_basename path =
     (case strrchr path (CHR ''/'') of Some i \<Rightarrow> drop (Suc i) path | None \<Rightarrow> path)"

section \<open>JSON\<close>

definition hex_digit :: "nat \<Rightarrow> char" where
  "hex_digit d = (if d < 10 then char_of (48 + d) else char_of (87 + d))"

text \<open>\<^verbatim>\<open>\u%04x\<close> of a character below 32.\<close>

definition json_u00 :: "char \<Rightarrow> string" where
  "json_u00 c = [CHR 0x5C] @ ''u00'' @ [hex_digit (char_code c div 16), hex_digit (char_code c mod 16)]"

definition http_json_escape_char :: "char \<Rightarrow> string" where
  "http_json_escape_char c =
     (if c = CHR 0x5C then [CHR 0x5C, CHR 0x5C]
      else if c = CHR 0x22 then [CHR 0x5C, CHR 0x22]
      else if c = CHR 0x08 then [CHR 0x5C, CHR ''b'']
      else if c = CHR 0x0C then [CHR 0x5C, CHR ''f'']
      else if c = CHR 0x0A then [CHR 0x5C, CHR ''n'']
      else if c = CHR 0x0D then [CHR 0x5C, CHR ''r'']
      else if c = CHR 0x09 then [CHR 0x5C, CHR ''t'']
      else if char_code c < 32 then json_u00 c
      else [c])"

definition http_json_escape :: "http_buf \<Rightarrow> string \<Rightarrow> world \<Rightarrow> http_buf option \<times> world" where
  "http_json_escape buf txt w = http_buf_append_all (map http_json_escape_char txt) buf w"

definition http_json_skip_ws :: "string \<Rightarrow> string" where
  "http_json_skip_ws p = dropWhile isspace p"

definition http_json_parse_hex4 :: "string \<Rightarrow> u16 option" where
  "http_json_parse_hex4 p =
     (if length p \<ge> 4 \<and> list_all isxdigit (take 4 p)
      then Some (foldl (\<lambda>v c. v * 16 + of_nat (hex_val c)) 0 (take 4 p)) else None)"

text \<open>The bytes that \<^verbatim>\<open>http_buf_append_utf8\<close> appends; \<open>None\<close> above the last code point.\<close>

definition http_utf8_bytes :: "u32 \<Rightarrow> byte list option" where
  "http_utf8_bytes cp =
     (if cp \<le> 0x7F then Some [ucast cp]
      else if cp \<le> 0x7FF then Some [ucast (0xC0 OR drop_bit 6 cp), ucast (0x80 OR (cp AND 0x3F))]
      else if cp \<le> 0xFFFF then
        Some [ucast (0xE0 OR drop_bit 12 cp), ucast (0x80 OR (drop_bit 6 cp AND 0x3F)), ucast (0x80 OR (cp AND 0x3F))]
      else if cp \<le> 0x10FFFF then
        Some [ucast (0xF0 OR drop_bit 18 cp), ucast (0x80 OR (drop_bit 12 cp AND 0x3F)),
              ucast (0x80 OR (drop_bit 6 cp AND 0x3F)), ucast (0x80 OR (cp AND 0x3F))]
      else None)"

text \<open>The code point of an escape \<^verbatim>\<open>\uXXXX\<close> whose digits stand at the head of \<open>p\<close>, and the text after it.\<close>

definition json_code_point :: "string \<Rightarrow> (u32 \<times> string) option" where
  "json_code_point p =
     (case http_json_parse_hex4 p of
        None \<Rightarrow> None
      | Some code_unit \<Rightarrow>
          let p' = drop 4 p in
          if code_unit \<ge> 0xD800 \<and> code_unit \<le> 0xDBFF then
            (if take 2 p' \<noteq> [CHR 0x5C, CHR ''u''] then None
             else case http_json_parse_hex4 (drop 2 p') of
               None \<Rightarrow> None
             | Some low \<Rightarrow>
                 if low < 0xDC00 \<or> low > 0xDFFF then None
                 else Some (0x10000 + (push_bit 10 (ucast (code_unit - 0xD800)) OR ucast (low - 0xDC00)), drop 6 p'))
          else if code_unit \<ge> 0xDC00 \<and> code_unit \<le> 0xDFFF then None
          else Some (ucast code_unit, p'))"

text \<open>One character or escape at the head of the text: what is appended, and the text after it.\<close>

definition json_string_item :: "string \<Rightarrow> (string \<times> string) option" where
  "json_string_item p =
     (case p of
        [] \<Rightarrow> None
      | c # p1 \<Rightarrow>
          if c \<noteq> CHR 0x5C then Some ([c], p1)
          else case p1 of
            [] \<Rightarrow> None
          | e # p2 \<Rightarrow>
              if e = CHR 0x22 \<or> e = CHR 0x5C \<or> e = CHR ''/'' then Some ([e], p2)
              else if e = CHR ''b'' then Some ([CHR 0x08], p2)
              else if e = CHR ''f'' then Some ([CHR 0x0C], p2)
              else if e = CHR ''n'' then Some ([CHR 0x0A], p2)
              else if e = CHR ''r'' then Some ([CHR 0x0D], p2)
              else if e = CHR ''t'' then Some ([CHR 0x09], p2)
              else if e = CHR ''u'' then
                (case json_code_point p2 of
                   None \<Rightarrow> None
                 | Some (cp, p3) \<Rightarrow>
                    (case http_utf8_bytes cp of None \<Rightarrow> None | Some bs \<Rightarrow> Some (string_of_bytes bs, p3)))
              else None)"

lemma json_code_point_shorter: "json_code_point p = Some (cp, p') \<Longrightarrow> length p' < length p"
  by (auto simp: json_code_point_def http_json_parse_hex4_def Let_def split: option.splits if_splits)

lemma json_string_item_shorter: "json_string_item p = Some (s, p') \<Longrightarrow> length p' < length p"
  by (auto simp: json_string_item_def split: list.splits if_splits option.splits dest!: json_code_point_shorter)

function json_string_loop :: "string \<Rightarrow> http_buf \<Rightarrow> world \<Rightarrow> (string \<times> string) option \<times> world" where
  "json_string_loop p buf w =
     (case p of
        [] \<Rightarrow> (None, w)
      | c # p1 \<Rightarrow>
          if c = CHR 0x22 then
            (case http_buf_append buf [NUL] w of
               (None, w1) \<Rightarrow> (None, w1)
             | (Some b, w1) \<Rightarrow> (Some (cstr (hb_data b), p1), w1))
          else case json_string_item p of
            None \<Rightarrow> (None, w)
          | Some (s, rest) \<Rightarrow>
             (case http_buf_append buf s w of
                (None, w1) \<Rightarrow> (None, w1)
              | (Some b, w1) \<Rightarrow> json_string_loop rest b w1))"
  by pat_completeness auto
termination
  by (relation "measure (\<lambda>(p, buf, w). length p)") (auto dest!: json_string_item_shorter)

declare json_string_loop.simps [simp del]

text \<open>The string and the text after its closing quote.\<close>

definition http_json_parse_string :: "string \<Rightarrow> world \<Rightarrow> (string \<times> string) option \<times> world" where
  "http_json_parse_string p w =
     (case p of
        [] \<Rightarrow> (None, w)
      | c # p1 \<Rightarrow> if c \<noteq> CHR 0x22 then (None, w) else json_string_loop p1 http_buf_zero w)"

text \<open>The body, as it came over the connection, may hold zero bytes; the copy is read as a C string.\<close>

definition http_parse_message_json :: "string \<Rightarrow> world \<Rightarrow> string option \<times> world" where
  "http_parse_message_json body w =
     (case malloc w of
        (False, w1) \<Rightarrow> (None, w1)
      | (True, w1) \<Rightarrow>
          let p0 = http_json_skip_ws (cstr body) in
          if p0 = [] \<or> hd p0 \<noteq> CHR ''{'' then (None, w1)
          else case http_json_parse_string (http_json_skip_ws (tl p0)) w1 of
            (None, w2) \<Rightarrow> (None, w2)
          | (Some (key, p1), w2) \<Rightarrow>
              let p2 = http_json_skip_ws p1 in
              if p2 = [] \<or> hd p2 \<noteq> CHR '':'' then (None, w2)
              else case http_json_parse_string (http_json_skip_ws (tl p2)) w2 of
                (None, w3) \<Rightarrow> (None, w3)
              | (Some (v, p3), w3) \<Rightarrow>
                  let p4 = http_json_skip_ws p3 in
                  if p4 = [] \<or> hd p4 \<noteq> CHR ''}'' then (None, w3)
                  else if http_json_skip_ws (tl p4) \<noteq> [] then (None, w3)
                  else if key \<noteq> ''message'' then (None, w3)
                  else (Some v, w3))"


section \<open>The buffer holds what was appended\<close>

text \<open>The text and its terminating zero fit the allocation.\<close>

definition hb_ok :: "http_buf \<Rightarrow> bool" where
  "hb_ok buf \<longleftrightarrow> (if hb_cap buf = 0 then hb_data buf = [] else length (hb_data buf) < hb_cap buf)"

text \<open>Only outcomes of \<^verbatim>\<open>malloc\<close> are used up.\<close>

definition mem_step :: "world \<Rightarrow> world \<Rightarrow> bool" where
  "mem_step w w' \<longleftrightarrow> (\<exists>bs. w' = w\<lparr>mem := bs\<rparr> \<and> set bs \<subseteq> set (mem w))"

lemma mem_step_refl [simp, intro]: "mem_step w w"
  by (auto simp: mem_step_def intro: exI [of _ "mem w"])

lemma mem_step_trans [trans]: "mem_step w w' \<Longrightarrow> mem_step w' w'' \<Longrightarrow> mem_step w w''"
  by (fastforce simp: mem_step_def)

lemma mem_step_malloc: "malloc w = (b, w') \<Longrightarrow> mem_step w w'"
  by (auto simp: mem_step_def elim!: malloc_effect)

lemma mem_step_frame [frame_simps]:
  "mem_step w w' \<Longrightarrow> sk w' = sk w" "mem_step w w' \<Longrightarrow> fs w' = fs w" "mem_step w w' \<Longrightarrow> store w' = store w"
  "mem_step w w' \<Longrightarrow> pid w' = pid w" "mem_step w w' \<Longrightarrow> splice_direct w' = splice_direct w"
  by (auto simp: mem_step_def)

lemma mem_step_calm: "mem_step w w' \<Longrightarrow> False \<notin> set (mem w) \<Longrightarrow> False \<notin> set (mem w')"
  by (auto simp: mem_step_def)

lemma http_buf_grow_bounds:
  "http_buf_grow c need = Some n \<Longrightarrow> 0 < c \<Longrightarrow> need \<le> n \<and> c \<le> n \<and> (c < need \<longrightarrow> n < 2 * need)"
proof (induction c need rule: http_buf_grow.induct)
  case (1 c need)
  show ?case
  proof (cases "c < need")
    case True
    with "1.prems" have g: "\<not> c > SIZE_MAX div 2" "http_buf_grow (c * 2) need = Some n"
      by (simp_all add: http_buf_grow.simps [of c need] split: if_splits)
    with "1.IH" True "1.prems" have ih: "need \<le> n" "c * 2 \<le> n" "c * 2 < need \<longrightarrow> n < 2 * need" by auto
    moreover have "\<not> c * 2 < need \<Longrightarrow> n = c * 2" using g(2) by (simp add: http_buf_grow.simps [of "c * 2" need])
    ultimately show ?thesis using True by (cases "c * 2 < need") auto
  next
    case False
    with "1.prems" show ?thesis by (simp add: http_buf_grow.simps [of c need])
  qed
qed

lemma http_buf_grow_succeeds: "need \<le> 2 ^ 62 \<Longrightarrow> \<exists>n. http_buf_grow c need = Some n"
proof (induction c need rule: http_buf_grow.induct)
  case (1 c need)
  then show ?case by (subst http_buf_grow.simps) (auto simp: SIZE_MAX_def)
qed

lemma http_buf_append_effect:
  assumes "http_buf_append buf s w = (r, w')"
  shows "mem_step w w'"
    and "r = Some b \<Longrightarrow> hb_data b = hb_data buf @ s"
    and "r = Some b \<Longrightarrow> hb_ok buf \<Longrightarrow> hb_ok b"
    and "r = Some b \<Longrightarrow> hb_cap b \<le> max (hb_cap buf) (max 256 (2 * (length (hb_data b) + 1)))"
    and "False \<notin> set (mem w) \<Longrightarrow> length (hb_data buf) + length s < 2 ^ 62 \<Longrightarrow> r \<noteq> None"
proof -
  let ?need = "length (hb_data buf) + length s + 1"
  let ?c = "if hb_cap buf = 0 then 256 else hb_cap buf"
  consider (fits) "hb_cap buf \<ge> ?need" "r = Some (buf\<lparr>hb_data := hb_data buf @ s\<rparr>)" "w' = w"
    | (full) "hb_cap buf < ?need" "http_buf_grow ?c ?need = None" "r = None" "w' = w"
    | (nomem) "hb_cap buf < ?need" "malloc w = (False, w')" "r = None"
    | (grown) n where "hb_cap buf < ?need" "http_buf_grow ?c ?need = Some n" "malloc w = (True, w')"
        "r = Some (buf\<lparr>hb_cap := n, hb_data := hb_data buf @ s\<rparr>)"
    using assms
    by (auto simp: http_buf_append_def http_buf_reserve_def not_le split: if_splits option.splits prod.splits bool.splits)
  note cs = this
  have pos: "0 < ?c" by simp
  show "mem_step w w'" using cs by cases (auto intro: mem_step_malloc)
  show "hb_data b = hb_data buf @ s" if "r = Some b" using cs that by cases auto
  show "hb_ok b" if "r = Some b" "hb_ok buf"
    using cs
  proof cases
    case (grown n)
    with http_buf_grow_bounds [OF grown(2) pos] that show ?thesis by (auto simp: hb_ok_def split: if_splits)
  qed (use that in \<open>auto simp: hb_ok_def split: if_splits\<close>)
  show "hb_cap b \<le> max (hb_cap buf) (max 256 (2 * (length (hb_data b) + 1)))" if "r = Some b"
    using cs
  proof cases
    case (grown n)
    have "?c < ?need \<or> n = ?c" using grown(2) pos by (auto simp: http_buf_grow.simps split: if_splits)
    with http_buf_grow_bounds [OF grown(2) pos] grown that show ?thesis by (auto split: if_splits)
  qed (use that in auto)
  show "r \<noteq> None" if m: "False \<notin> set (mem w)" "length (hb_data buf) + length s < 2 ^ 62"
    using cs
  proof cases
    case full
    with http_buf_grow_succeeds [of ?need ?c] m show ?thesis by auto
  next
    case nomem
    from nomem(2) m(1) show ?thesis by (auto elim!: malloc_effect)
  qed auto
qed

lemma http_buf_append_all_effect:
  assumes "http_buf_append_all ss buf w = (r, w')"
  shows "mem_step w w'"
    and "r = Some b \<Longrightarrow> hb_data b = hb_data buf @ concat ss"
    and "r = Some b \<Longrightarrow> hb_ok buf \<Longrightarrow> hb_ok b"
    and "False \<notin> set (mem w) \<Longrightarrow> length (hb_data buf) + length (concat ss) < 2 ^ 62 \<Longrightarrow> r \<noteq> None"
proof -
  have "mem_step w w' \<and> (\<forall>b. r = Some b \<longrightarrow> hb_data b = hb_data buf @ concat ss \<and> (hb_ok buf \<longrightarrow> hb_ok b)) \<and>
    (False \<notin> set (mem w) \<and> length (hb_data buf) + length (concat ss) < 2 ^ 62 \<longrightarrow> r \<noteq> None)"
    using assms
  proof (induction ss arbitrary: buf w)
    case Nil
    then show ?case by auto
  next
    case (Cons s ss)
    obtain x w1 where a: "http_buf_append buf s w = (x, w1)" by fastforce
    note e = http_buf_append_effect [OF a]
    show ?case
    proof (cases x)
      case None
      with Cons.prems a e show ?thesis by auto
    next
      case (Some b1)
      with Cons.prems a have "http_buf_append_all ss b1 w1 = (r, w')" by simp
      from Cons.IH [OF this] have ih: "mem_step w1 w'"
        "\<forall>b. r = Some b \<longrightarrow> hb_data b = hb_data b1 @ concat ss \<and> (hb_ok b1 \<longrightarrow> hb_ok b)"
        "False \<notin> set (mem w1) \<and> length (hb_data b1) + length (concat ss) < 2 ^ 62 \<longrightarrow> r \<noteq> None" by blast+
      have d: "hb_data b1 = hb_data buf @ s" by (rule e(2) [OF Some])
      show ?thesis
      proof (intro conjI impI allI)
        show "mem_step w w'" by (rule mem_step_trans [OF e(1) ih(1)])
        show "hb_data b = hb_data buf @ concat (s # ss)" if "r = Some b" for b using that ih(2) d by simp
        show "hb_ok b" if "r = Some b" "hb_ok buf" for b using that ih(2) e(3) [OF Some] by blast
        show "r \<noteq> None" if "False \<notin> set (mem w) \<and> length (hb_data buf) + length (concat (s # ss)) < 2 ^ 62"
          using that ih(3) d mem_step_calm [OF e(1)] by simp
      qed
    qed
  qed
  then show "mem_step w w'" "r = Some b \<Longrightarrow> hb_data b = hb_data buf @ concat ss" "r = Some b \<Longrightarrow> hb_ok buf \<Longrightarrow> hb_ok b"
    "False \<notin> set (mem w) \<Longrightarrow> length (hb_data buf) + length (concat ss) < 2 ^ 62 \<Longrightarrow> r \<noteq> None"
    by blast+
qed

text \<open>
  The buffer never overflows: after every append the text and its terminating zero fit the allocated
capacity, the buffer holds exactly the old text followed by the new one, the capacity is at most
twice what is needed (or the initial 256), and with memory available the append succeeds.
\<close>
lemma http_buf_append_within:
  assumes "http_buf_append buf s w = (r, w')" "hb_ok buf"
  shows "(\<forall>b. r = Some b \<longrightarrow> hb_ok b \<and> hb_data b = hb_data buf @ s \<and> length (hb_data b) < hb_cap b \<and>
      hb_cap b \<le> max (hb_cap buf) (max 256 (2 * (length (hb_data b) + 1)))) \<and>
    (False \<notin> set (mem w) \<and> length (hb_data buf) + length s < 2 ^ 62 \<longrightarrow> r \<noteq> None)"
proof -
  have "length (hb_data b) < hb_cap b" if "r = Some b" for b
  proof -
    have "hb_cap b \<noteq> 0"
      using assms(1) that
      by (auto simp: http_buf_append_def http_buf_reserve_def split: if_splits option.splits prod.splits bool.splits
          dest!: http_buf_grow_bounds)
    with http_buf_append_effect(3) [OF assms(1) that assms(2)] show ?thesis by (simp add: hb_ok_def)
  qed
  with http_buf_append_effect [OF assms(1)] assms(2) show ?thesis by blast
qed


section \<open>Numbers\<close>

lemma digit_val_le: "isdigit c \<Longrightarrow> digit_val c \<le> 9"
  by (auto simp: isdigit_def digit_val_def)

lemma digits_val_Cons:
  "foldl (\<lambda>acc c. acc * 10 + digit_val c) v ds = v * 10 ^ length ds + digits_val ds"
proof (induction ds arbitrary: v rule: rev_induct)
  case Nil
  show ?case by (simp add: digits_val_def)
next
  case (snoc c ds)
  from snoc [of v] snoc [of 0] show ?case by (simp add: digits_val_def algebra_simps)
qed

lemma http_parse_u64_loop_iff:
  assumes "list_all isdigit s"
  shows "http_parse_u64_loop s v =
    (let n = foldl (\<lambda>acc c. acc * 10 + digit_val c) (unat v) s in if n < 2 ^ 64 then Some (of_nat n) else None)"
  using assms
proof (induction s arbitrary: v)
  case Nil
  have "unat v < 2 ^ 64" using unsigned_less [of v, where 'a = nat] by simp
  then show ?case by simp
next
  case (Cons c s)
  define d where "d = digit_val c"
  have d9: "d \<le> 9" using Cons.prems digit_val_le by (simp add: d_def)
  have ud: "unat (of_nat d :: u64) = d" using d9 by (simp add: unat_of_nat)
  have "unat (- 1 :: u64) = 2 ^ 64 - 1" by (simp add: unsigned_minus_1_eq_mask mask_eq_exp_minus_1)
  then have sub: "unat (- 1 - of_nat d :: u64) = 2 ^ 64 - 1 - d"
    using ud by (simp add: unat_sub)
  have test: "(v > (- 1 - of_nat d) div 10) = (unat v * 10 + d \<ge> 2 ^ 64)"
    using d9 unfolding word_less_nat_alt unat_div sub by auto
  show ?case
  proof (cases "unat v * 10 + d < 2 ^ 64")
    case True
    then have "unat (v * 10 + of_nat d) = unat v * 10 + d"
      by (simp add: unat_word_ariths ud)
    with True Cons test show ?thesis by (simp add: d_def [symmetric] del: of_nat_unat)
  next
    case False
    have "unat v * 10 + d \<le> foldl (\<lambda>acc c. acc * 10 + digit_val c) (unat v * 10 + d) s"
      unfolding digits_val_Cons by (simp add: trans_le_add1)
    with False Cons.prems test show ?thesis by (simp add: d_def [symmetric])
  qed
qed

text \<open>
C38: A content length is read exactly: the text is accepted when it is a non-empty run of digits whose value fits 64 bits,
and then the result is that value; a longer number is refused and never wraps around.
\<close>
theorem http_parse_u64_exact:
  "http_parse_u64 s =
     (if s \<noteq> [] \<and> list_all isdigit s \<and> digits_val s < 2 ^ 64 then Some (of_nat (digits_val s)) else None)"
proof (cases "list_all isdigit s")
  case True
  then show ?thesis
    using http_parse_u64_loop_iff [OF True, of 0] by (simp add: http_parse_u64_def digits_val_def [symmetric] Let_def)
next
  case False
  have "\<not> list_all isdigit t \<Longrightarrow> http_parse_u64_loop t v = None" for t v
    by (induction t v rule: http_parse_u64_loop.induct) auto
  with False show ?thesis by (auto simp: http_parse_u64_def)
qed

section \<open>Percent encoding\<close>

text \<open>The encoding a browser uses: some characters stand for themselves, the others are two hexadecimal digits.\<close>

definition percent_encode :: "(char \<Rightarrow> bool) \<Rightarrow> string \<Rightarrow> string" where
  "percent_encode safe s =
     concat (map (\<lambda>c. if safe c then [c]
                      else [CHR ''%'', hex_digit (char_code c div 16), hex_digit (char_code c mod 16)]) s)"

lemma hex_digit_back:
  assumes "d < 16"
  shows "isxdigit (hex_digit d) \<and> hex_val (hex_digit d) = d"
proof (cases "d < 10")
  case True
  then have "char_code (hex_digit d) = 48 + d" by (simp add: hex_digit_def char_code_def of_char_of)
  with True show ?thesis by (simp add: isxdigit_def hex_val_def isdigit_def)
next
  case False
  with assms have "char_code (hex_digit d) = 87 + d" by (simp add: hex_digit_def char_code_def of_char_of)
  with False assms show ?thesis by (simp add: isxdigit_def hex_val_def isdigit_def tolower_def)
qed

lemma hex_pair_back: "char_of (hex_val (hex_digit (char_code c div 16)) * 16 + hex_val (hex_digit (char_code c mod 16))) = c"
proof -
  have "char_code c < 256" by (simp add: char_code_def)
  then have "char_code c div 16 < 16" "char_code c mod 16 < 16" by auto
  then show ?thesis using hex_digit_back by (simp add: char_code_def)
qed

lemma hex_pair_digits: "isxdigit (hex_digit (char_code c div 16))" "isxdigit (hex_digit (char_code c mod 16))"
proof -
  have "char_code c < 256" by (simp add: char_code_def)
  then have "char_code c div 16 < 16" "char_code c mod 16 < 16" by auto
  then show "isxdigit (hex_digit (char_code c div 16))" "isxdigit (hex_digit (char_code c mod 16))"
    using hex_digit_back by auto
qed

lemma http_decode_name_loop_encoded:
  assumes "\<not> safe (CHR ''%'')" "length out + length s < cap"
  shows "http_decode_name_loop cap (percent_encode safe s) out = Some (out @ s)"
  using assms(2)
proof (induction s arbitrary: out)
  case Nil
  show ?case by (simp add: percent_encode_def)
next
  case (Cons c s)
  have "http_decode_name_loop cap (percent_encode safe (c # s)) out =
      http_decode_name_loop cap (percent_encode safe s) (out @ [c])"
    using assms(1) Cons.prems hex_pair_digits [of c] hex_pair_back [of c] by (auto simp: percent_encode_def)
  with Cons show ?case by simp
qed

text \<open>
  Percent decoding undoes percent encoding: whichever characters the browser leaves as they are, every file name
without a zero byte that fits the buffer is decoded to itself.
\<close>
lemma http_decode_name_round_trip:
  assumes "\<not> safe (CHR ''%'')" "cstring s" "length s < cap"
  shows "http_decode_name (percent_encode safe s) cap = Some s"
  using assms http_decode_name_loop_encoded [where safe = safe and out = "[]" and s = s and cap = cap]
  by (simp add: http_decode_name_def)

section \<open>Query strings\<close>

text \<open>The entries of a query, split at the ampersands, each a name and a value.\<close>

definition query_entry :: "string \<Rightarrow> string \<times> string" where
  "query_entry e =
     (case strchr e (CHR ''='') of Some i \<Rightarrow> (take i e, drop (Suc i) e) | None \<Rightarrow> (e, []))"

definition query_entries :: "string \<Rightarrow> (string \<times> string) list" where
  "query_entries q = (if q = [] then [] else map query_entry (split_on (CHR ''&'') q))"

lemma http_query_loop_lookup:
  assumes "key \<noteq> []"
  shows "http_query_loop q key cap =
    (case map_of (query_entries q) key of None \<Rightarrow> (1, []) | Some v \<Rightarrow> if length v \<ge> cap then (2, []) else (0, v))"
proof (induction q rule: measure_induct_rule [of length])
  case (less q)
  show ?case
  proof (cases "q = []")
    case True
    then show ?thesis by (simp add: http_query_loop.simps query_entries_def)
  next
    case ne: False
    show ?thesis
    proof (cases "strchr q (CHR ''&'')")
      case None
      then have "split_on (CHR ''&'') q = [q]" by (intro split_on_none) (simp add: strchr_None_iff)
      with ne None show ?thesis
        by (subst http_query_loop.simps) (auto simp: query_entries_def query_entry_def Let_def split: option.splits)
    next
      case (Some i)
      note sp = strchr_SomeD [OF Some]
      have e: "split_on (CHR ''&'') q = take i q # split_on (CHR ''&'') (drop (Suc i) q)"
        by (subst sp(1), subst split_on_append_sep, subst split_on_none [OF sp(2)]) simp
      have ih: "http_query_loop (drop (Suc i) q) key cap =
          (case map_of (query_entries (drop (Suc i) q)) key of
             None \<Rightarrow> (1, []) | Some v \<Rightarrow> if length v \<ge> cap then (2, []) else (0, v))"
        using sp(3) by (intro less) simp
      have tl: "map_of (map query_entry (split_on (CHR ''&'') (drop (Suc i) q))) key =
          map_of (query_entries (drop (Suc i) q)) key"
        using assms by (auto simp: query_entries_def query_entry_def)
      obtain nm v where nv: "query_entry (take i q) = (nm, v)" by fastforce
      have "http_query_loop q key cap =
          (if nm = key then (if length v \<ge> cap then (2, []) else (0, v)) else http_query_loop (drop (Suc i) q) key cap)"
        using ne Some nv by (subst http_query_loop.simps) (auto simp: query_entry_def Let_def split: option.splits)
      moreover have "map_of (query_entries q) key = (if nm = key then Some v else map_of (query_entries (drop (Suc i) q)) key)"
        using ne nv tl by (simp add: query_entries_def e)
      ultimately show ?thesis using ih by simp
    qed
  qed
qed

text \<open>
C39: The value of a query parameter is the value of the first entry with that name among the entries between the ampersands; the
result is 1 when there is none and 2 when the value does not fit the buffer.
\<close>
theorem http_query_get_value_lookup:
  assumes "key \<noteq> []" "0 < cap"
  shows "http_query_get_value q key cap =
    (case map_of (query_entries q) key of None \<Rightarrow> (1, []) | Some v \<Rightarrow> if length v \<ge> cap then (2, []) else (0, v))"
  using http_query_loop_lookup [OF assms(1), of q cap] assms(2)
  by (simp add: http_query_get_value_def query_entries_def)


section \<open>Escapes\<close>

text \<open>Four hexadecimal digits of a 16-bit number, and the escape of a code point as JSON prescribes it: UTF-16.\<close>

definition hex4 :: "nat \<Rightarrow> string" where
  "hex4 n = [hex_digit (n div 4096 mod 16), hex_digit (n div 256 mod 16), hex_digit (n div 16 mod 16), hex_digit (n mod 16)]"


lemma hex4_sum: "n < 65536 \<Longrightarrow>
  ((n div 4096 mod 16 * 16 + n div 256 mod 16) * 16 + n div 16 mod 16) * 16 + n mod 16 = (n :: nat)"
proof -
  assume "n < 65536"
  then have "n div 4096 mod 16 = n div 4096" by (intro mod_less) (simp add: less_mult_imp_div_less)
  moreover have "n div 4096 * 16 + n div 256 mod 16 = n div 256"
    using div_mult_mod_eq [of "n div 256" 16] by (simp add: div_mult2_eq [symmetric])
  moreover have "n div 256 * 16 + n div 16 mod 16 = n div 16"
    using div_mult_mod_eq [of "n div 16" 16] by (simp add: div_mult2_eq [symmetric])
  ultimately show ?thesis by simp
qed

lemma hex4_back:
  assumes "n < 65536"
  shows "http_json_parse_hex4 (hex4 n @ rest) = Some (of_nat n)"
proof -
  have d: "isxdigit (hex_digit (k mod 16))" "hex_val (hex_digit (k mod 16)) = k mod 16" for k :: nat
    using hex_digit_back [of "k mod 16"] by simp_all
  have "foldl (\<lambda>v c. v * 16 + of_nat (hex_val c)) (0 :: u16) (hex4 n) =
      of_nat (((n div 4096 mod 16 * 16 + n div 256 mod 16) * 16 + n div 16 mod 16) * 16 + n mod 16)"
    by (simp add: hex4_def d)
  also have "\<dots> = of_nat n" by (simp only: hex4_sum [OF assms])
  finally show ?thesis by (simp add: http_json_parse_hex4_def hex4_def d)
qed

lemma length_hex4 [simp]: "length (hex4 n) = 4"
  by (simp add: hex4_def)




lemma u16_range: "n < 65536 \<Longrightarrow> unat (of_nat n :: u16) = n"
  by (simp add: unat_of_nat)

lemma json_code_point_bmp:
  assumes "n < 65536" "n < 0xD800 \<or> 0xDFFF < n"
  shows "json_code_point (hex4 n @ rest) = Some (of_nat n, rest)"
proof -
  have u: "unat (of_nat n :: u16) = n" by (rule u16_range [OF assms(1)])
  have "ucast (of_nat n :: u16) = (of_nat n :: u32)"
    unfolding word_unat_eq_iff unsigned_ucast_eq u using assms(1) by (simp add: unat_of_nat take_bit_nat_eq_self)
  with assms u hex4_back [OF assms(1)] show ?thesis
    by (auto simp: json_code_point_def Let_def word_le_nat_alt)
qed



section \<open>JSON strings\<close>

lemma char_code_inj: "char_code c = char_code d \<longleftrightarrow> c = d"
  by (simp add: char_code_def)

lemma json_string_item_escape:
  "json_string_item (http_json_escape_char c @ rest) = Some ([c], rest)"
  "\<exists>x xs. http_json_escape_char c = x # xs \<and> x \<noteq> CHR 0x22" "length (http_json_escape_char c) \<le> 6"
proof -
  show "\<exists>x xs. http_json_escape_char c = x # xs \<and> x \<noteq> CHR 0x22" "length (http_json_escape_char c) \<le> 6"
    by (simp_all add: http_json_escape_char_def json_u00_def)
  show "json_string_item (http_json_escape_char c @ rest) = Some ([c], rest)"
  proof (cases "http_json_escape_char c = json_u00 c")
    case True
    have n: "char_code c < 32"
      using True by (auto simp: http_json_escape_char_def json_u00_def split: if_splits)
    have "json_u00 c = [CHR 0x5C, CHR ''u''] @ hex4 (char_code c)"
    proof -
      have "hex_digit 0 = CHR ''0''" by code_simp
      moreover have "char_code c div 16 mod 16 = char_code c div 16" using n by (intro mod_less) auto
      ultimately show ?thesis using n by (simp add: json_u00_def hex4_def)
    qed
    moreover have "json_code_point (hex4 (char_code c) @ rest) = Some (of_nat (char_code c), rest)"
      using n by (intro json_code_point_bmp) auto
    moreover have "http_utf8_bytes (of_nat (char_code c)) = Some [byte_of_char c]"
    proof -
      have u: "unat (of_nat (char_code c) :: u32) = char_code c" using n by (simp add: unat_of_nat)
      have "ucast (of_nat (char_code c) :: u32) = (of_nat (char_code c) :: byte)"
        unfolding word_unat_eq_iff unsigned_ucast_eq u using n by (simp add: unat_of_nat take_bit_nat_eq_self)
      moreover have "(of_nat (char_code c) :: u32) \<le> 0x7F" unfolding word_le_nat_alt u using n by simp
      ultimately show ?thesis by (simp add: http_utf8_bytes_def byte_of_char_def char_code_def)
    qed
    ultimately show ?thesis using True by (simp add: json_string_item_def)
  next
    case False
    then show ?thesis
      by (auto simp: http_json_escape_char_def json_string_item_def split: if_splits)
  qed
qed

lemma length_escape: "length (concat (map http_json_escape_char m)) \<le> 6 * length m"
  by (induction m) (auto simp: json_string_item_escape(3) intro: add_le_mono)

lemma json_string_loop_escaped:
  assumes "False \<notin> set (mem w)" "length (hb_data buf) + length m < 2 ^ 61"
  shows "\<exists>w'. json_string_loop (concat (map http_json_escape_char m) @ CHR 0x22 # rest) buf w =
      (Some (cstr (hb_data buf @ m), rest), w') \<and> mem_step w w'"
  using assms
proof (induction m arbitrary: buf w)
  case Nil
  obtain r w' where a: "http_buf_append buf [NUL] w = (r, w')" by fastforce
  have "r \<noteq> None" using Nil by (intro http_buf_append_effect(5) [OF a]) simp_all
  then obtain b where "r = Some b" "hb_data b = hb_data buf @ [NUL]" "mem_step w w'"
    using http_buf_append_effect(1,2) [OF a] by blast
  moreover have "cstr (hb_data buf @ [NUL]) = cstr (hb_data buf)"
    by (simp add: cstr_def takeWhile_tail)
  ultimately show ?case using a by (subst json_string_loop.simps) simp
next
  case (Cons c m)
  obtain x xs where e: "http_json_escape_char c = x # xs" "x \<noteq> CHR 0x22" using json_string_item_escape(2) by blast
  let ?rest = "concat (map http_json_escape_char m) @ CHR 0x22 # rest"
  have item: "json_string_item (x # xs @ ?rest) = Some ([c], ?rest)"
    using json_string_item_escape(1) [of c ?rest] e by simp
  obtain r w1 where a: "http_buf_append buf [c] w = (r, w1)" by fastforce
  have "r \<noteq> None" using Cons.prems by (intro http_buf_append_effect(5) [OF a]) simp_all
  then obtain b where b: "r = Some b" "hb_data b = hb_data buf @ [c]" "mem_step w w1"
    using http_buf_append_effect(1,2) [OF a] by blast
  have "json_string_loop (concat (map http_json_escape_char (c # m)) @ CHR 0x22 # rest) buf w = json_string_loop ?rest b w1"
    using e item a b by (subst json_string_loop.simps) simp
  moreover obtain w' where "json_string_loop ?rest b w1 = (Some (cstr (hb_data b @ m), rest), w')" "mem_step w1 w'"
    using Cons.IH [of w1 b] Cons.prems b mem_step_calm by auto
  ultimately show ?case using b mem_step_trans by auto
qed

text \<open>
C35: A message survives its JSON form: escaping a message of the store, whatever bytes it holds, and reading the
payload \<^verbatim>\<open>{"message":"..."}\<close> back gives the same message, with memory available.
\<close>
theorem message_json_round_trip:
  assumes "cstring m" "length m < 2 ^ 60" "False \<notin> set (mem w)"
  shows "\<exists>w'. http_parse_message_json
      (''{'' @ [CHR 0x22] @ ''message'' @ [CHR 0x22] @ '':'' @ [CHR 0x22] @
       concat (map http_json_escape_char m) @ [CHR 0x22] @ ''}'') w = (Some m, w') \<and> mem_step w w'"
proof -
  obtain w1 where m1: "malloc w = (True, w1)" "mem_step w w1"
    using assms(3) by (metis (full_types) malloc_effect mem_step_malloc surj_pair)
  let ?body = "''{'' @ [CHR 0x22] @ ''message'' @ [CHR 0x22] @ '':'' @ [CHR 0x22] @
       concat (map http_json_escape_char m) @ [CHR 0x22] @ ''}''"
  have nonul: "cstring (http_json_escape_char c)" if "c \<noteq> NUL" for c
  proof -
    have "\<not> isxdigit NUL" by code_simp
    then have "hex_digit (char_code c div 16) \<noteq> NUL" "hex_digit (char_code c mod 16) \<noteq> NUL"
      using hex_pair_digits [of c] by auto
    then show ?thesis using that by (simp add: http_json_escape_char_def json_u00_def)
  qed
  have "cstring (concat (map http_json_escape_char m))"
    using assms(1) by (induction m) (simp_all add: nonul)
  then have c: "cstr ?body = ?body" by (intro cstr_cstring) simp
  have key: "concat (map http_json_escape_char ''message'') = ''message''" by code_simp
  obtain w2 where w2: "json_string_loop (''message'' @ CHR 0x22 # '':'' @ CHR 0x22 #
       concat (map http_json_escape_char m) @ CHR 0x22 # ''}'') http_buf_zero w1 =
      (Some (''message'', '':'' @ CHR 0x22 # concat (map http_json_escape_char m) @ CHR 0x22 # ''}''), w2)" "mem_step w1 w2"
    using json_string_loop_escaped [of w1 http_buf_zero "''message''"] mem_step_calm [OF m1(2) assms(3)]
    unfolding key by (force simp: http_buf_zero_def)
  obtain w3 where w3: "json_string_loop (concat (map http_json_escape_char m) @ CHR 0x22 # ''}'') http_buf_zero w2 =
      (Some (m, ''}''), w3)" "mem_step w2 w3"
    using json_string_loop_escaped [of w2 http_buf_zero m "''}''"] mem_step_calm [OF w2(2)] mem_step_calm [OF m1(2) assms(3)]
      assms(1,2) by (auto simp: http_buf_zero_def)
  have sp: "\<not> isspace (CHR ''{'')" "\<not> isspace (CHR 0x22)" "\<not> isspace (CHR '':'')" "\<not> isspace (CHR ''}'')" by code_simp+
  have "http_parse_message_json ?body w = (Some m, w3)"
    unfolding http_parse_message_json_def c using m1(1) w2(1) w3(1) sp
    by (simp add: http_json_skip_ws_def http_json_parse_string_def Let_def)
  with m1(2) w2(2) w3(2) show ?thesis by (blast intro: mem_step_trans)
qed


section \<open>Witnesses\<close>

definition calm_world :: world where
  "calm_world = \<lparr>sk = \<lparr>sock_fd = 5, rx_data = [], rx_sched = [], tx_data = [], tx_sched = []\<rparr>,
     fs = \<lparr>nodes = Map.empty, fds = Map.empty, next_fd = 6, fs_sched = [], fs_now = 0\<rparr>, mem = [], store = message_store_zero,
     pid = 1, splice_direct = False\<rparr>"

lemma calm_world_mem [simp]: "mem calm_world = []"
  by (simp add: calm_world_def)

lemma http_buf_append_within_example:
  "\<exists>b. fst (http_buf_append http_buf_zero ''hello'' calm_world) = Some b \<and> hb_data b = ''hello'' \<and> hb_ok b"
  using http_buf_append_within [where buf = http_buf_zero and s = "''hello''" and w = calm_world, OF surjective_pairing]
  by (auto simp: hb_ok_def http_buf_zero_def)

lemma http_decode_name_round_trip_example:
  "http_decode_name (percent_encode (\<lambda>c. c \<noteq> CHR ''%'' \<and> c \<noteq> CHR '' '') ''a b%.txt'') 1024 = Some ''a b%.txt''"
  by (rule http_decode_name_round_trip) simp_all

theorem http_query_get_value_lookup_witness:
  "http_query_get_value ''a=1&path=docs&path=x'' ''path'' 1024 = (0, ''docs'')"
  using http_query_get_value_lookup [where key = "''path''" and cap = 1024 and q = "''a=1&path=docs&path=x''"]
  by (simp add: query_entries_def query_entry_def)


theorem message_json_round_trip_witness:
  "\<exists>w'. http_parse_message_json
      (''{'' @ [CHR 0x22] @ ''message'' @ [CHR 0x22] @ '':'' @ [CHR 0x22] @
       concat (map http_json_escape_char [CHR ''h'', CHR 0x22, CHR 0x0A]) @ [CHR 0x22] @ ''}'') calm_world =
      (Some [CHR ''h'', CHR 0x22, CHR 0x0A], w')"
  using message_json_round_trip [where m = "[CHR ''h'', CHR 0x22, CHR 0x0A]" and w = calm_world] by fastforce

end
