(* ===== verification/Http.thy ===== *)
theory Http
  imports Http_Codec Server
begin

text \<open>
  \<^verbatim>\<open>src/http.c\<close>: requests, responses and the handlers, and \<^verbatim>\<open>webui_find_asset\<close> of \<^verbatim>\<open>src/webui.c\<close>. The parser of
  \<^verbatim>\<open>src/third_party/picohttpparser\<close> and the directory stream of the C library are parameters, and so are the texts of
  the web page. A handler that returns is \<open>Some\<close> of its return code; only the message stream may go on
  for ever. The receive timeout is not modelled: a receive that times out is one that fails.
\<close>

section \<open>What is outside\<close>

text \<open>The request as \<^verbatim>\<open>phr_parse_request\<close> delimits it; a header with no name continues the one before.\<close>

record phr_request =
  phr_method :: string
  phr_path :: string
  phr_minor_version :: int
  phr_headers :: "(string option \<times> string) list"

record webui_texts =
  webui_index_html :: string
  webui_app_js :: string
  webui_styles_css :: string
  webui_favicon_svg :: string

text \<open>
  \<open>phr\<close>: \<open>None\<close> where \<^verbatim>\<open>phr_parse_request\<close> returns 0 or less. \<open>readdir\<close>: the names that \<^verbatim>\<open>readdir\<close>
  gives for a directory, in its order.
\<close>

record http_env =
  phr :: "string \<Rightarrow> phr_request option"
  readdir :: "fsys \<Rightarrow> path \<Rightarrow> string list"
  webui :: webui_texts

section \<open>Receiving\<close>

definition HF_HTTP_HEADER_MAX :: nat where "HF_HTTP_HEADER_MAX = 16384"
definition HF_HTTP_PATH_MAX :: nat where "HF_HTTP_PATH_MAX = 1024"
definition HF_HTTP_CONTENT_TYPE_MAX :: nat where "HF_HTTP_CONTENT_TYPE_MAX = 128"
definition HF_HTTP_UPLOAD_MAX :: u64 where "HF_HTTP_UPLOAD_MAX = 16 * 1024 * 1024 * 1024"

record http_request =
  rq_method :: string
  rq_path :: string
  rq_query :: string
  rq_content_type :: string
  rq_content_length :: u64
  rq_has_content_length :: bool
  rq_has_transfer_encoding :: bool

definition http_request_zero :: http_request where
  "http_request_zero = \<lparr>rq_method = [], rq_path = [], rq_query = [], rq_content_type = [], rq_content_length = 0,
     rq_has_content_length = False, rq_has_transfer_encoding = False\<rparr>"

lemma recv_length: "recv n s = (Inr bs, s') \<Longrightarrow> length bs \<le> n"
  by (auto simp: recv_def split: list.splits rx_event.splits)

function http_discard_body :: "nat \<Rightarrow> sock \<Rightarrow> bool \<times> sock" where
  "http_discard_body remaining s =
     (if remaining > 0 then
        case recv (min 4096 remaining) s of
          (Inl e, s1) \<Rightarrow> (False, s1)
        | (Inr bs, s1) \<Rightarrow> if bs = [] then (False, s1) else http_discard_body (remaining - length bs) s1
      else (True, s))"
  by pat_completeness auto
termination
proof (relation "measure fst", goal_cases)
  case (2 remaining s p s1 bs)
  then show ?case by (cases bs) auto
qed simp

declare http_discard_body.simps [simp del]

text \<open>The return value -1, 0, 1 or 2, and the block read.\<close>

function http_read_header_loop :: "nat \<Rightarrow> string \<Rightarrow> sock \<Rightarrow> int \<times> string \<times> sock" where
  "http_read_header_loop out_cap out s =
     (if length out + 1 < out_cap then
        case recv 1 s of
          (Inl e, s1) \<Rightarrow> (- 1, out, s1)
        | (Inr bs, s1) \<Rightarrow>
            (case bs of
               [] \<Rightarrow> (1, out, s1)
             | b # _ \<Rightarrow>
                let out' = out @ [char_of_byte b] in
                if length out' \<ge> 4 \<and> drop (length out' - 4) out' = [CHR 0x0D, CHR 0x0A, CHR 0x0D, CHR 0x0A]
                then (0, out', s1)
                else http_read_header_loop out_cap out' s1)
      else (2, out, s))"
  by pat_completeness auto
termination
  by (relation "measure (\<lambda>(out_cap, out, s). out_cap - length out)") auto

declare http_read_header_loop.simps [simp del]

definition http_read_header_block :: "nat \<Rightarrow> sock \<Rightarrow> int \<times> string \<times> sock" where
  "http_read_header_block out_cap s = (if out_cap < 5 then (1, [], s) else http_read_header_loop out_cap [] s)"

section \<open>Parsing a request\<close>

fun http_header_name_equals :: "string \<Rightarrow> string \<Rightarrow> bool" where
  "http_header_name_equals hdr [] = (hdr = [])"
| "http_header_name_equals [] (c # cs) = False"
| "http_header_name_equals (h # hs) (c # cs) =
     (if tolower h \<noteq> tolower c then False else http_header_name_equals hs cs)"

definition http_copy_header_value :: "nat \<Rightarrow> string \<Rightarrow> string option" where
  "http_copy_header_value dst_cap src = (if dst_cap = 0 \<or> length src \<ge> dst_cap then None else Some (cstr src))"

text \<open>One header; \<open>None\<close> is the return value 1.\<close>

definition http_parse_header :: "string option \<times> string \<Rightarrow> http_request \<Rightarrow> http_request option" where
  "http_parse_header hdr req =
     (case fst hdr of
        None \<Rightarrow> None
      | Some nm \<Rightarrow>
          if http_header_name_equals nm ''Content-Length'' then
            (case http_copy_header_value HF_HTTP_CONTENT_TYPE_MAX (snd hdr) of
               None \<Rightarrow> None
             | Some v \<Rightarrow>
                (case http_parse_u64 v of
                   None \<Rightarrow> None
                 | Some n \<Rightarrow> Some (req\<lparr>rq_content_length := n, rq_has_content_length := True\<rparr>)))
          else if http_header_name_equals nm ''Content-Type'' then
            (case http_copy_header_value HF_HTTP_CONTENT_TYPE_MAX (snd hdr) of
               None \<Rightarrow> None
             | Some v \<Rightarrow> Some (req\<lparr>rq_content_type := v\<rparr>))
          else if http_header_name_equals nm ''Transfer-Encoding'' then
            Some (req\<lparr>rq_has_transfer_encoding := True\<rparr>)
          else Some req)"

primrec http_parse_headers :: "(string option \<times> string) list \<Rightarrow> http_request \<Rightarrow> http_request option" where
  "http_parse_headers [] req = Some req"
| "http_parse_headers (h # hs) req =
     (case http_parse_header h req of None \<Rightarrow> None | Some req' \<Rightarrow> http_parse_headers hs req')"

text \<open>\<open>Inl\<close> is the return value 1 or 2.\<close>

definition http_parse_request :: "http_env \<Rightarrow> string \<Rightarrow> int + http_request" where
  "http_parse_request env header_block =
     (case phr env (cstr header_block) of
        None \<Rightarrow> Inl 1
      | Some p \<Rightarrow>
          if phr_minor_version p \<noteq> 1 then Inl 2
          else if length (phr_method p) \<ge> 8 \<or> length (phr_path p) \<ge> HF_HTTP_PATH_MAX then Inl 1
          else
            case http_parse_headers (phr_headers p)
                   (http_request_zero\<lparr>rq_method := cstr (phr_method p), rq_path := cstr (phr_path p)\<rparr>) of
              None \<Rightarrow> Inl 1
            | Some req \<Rightarrow>
               (case strchr (rq_path req) (CHR ''?'') of
                  None \<Rightarrow> Inr req
                | Some i \<Rightarrow>
                    if length (drop (Suc i) (rq_path req)) \<ge> HF_HTTP_PATH_MAX then Inl 1
                    else Inr (req\<lparr>rq_query := drop (Suc i) (rq_path req), rq_path := take i (rq_path req)\<rparr>)))"

section \<open>Responses\<close>

abbreviation CRLF :: string where
  "CRLF \<equiv> [CHR 0x0D, CHR 0x0A]"

definition http_response_header :: "nat \<Rightarrow> string \<Rightarrow> string \<Rightarrow> nat \<Rightarrow> string \<Rightarrow> string" where
  "http_response_header status_code reason content_type body_len extra =
     ''HTTP/1.1 '' @ show_nat status_code @ '' '' @ reason @ CRLF @
     ''Content-Type: '' @ content_type @ CRLF @
     ''Content-Length: '' @ show_nat body_len @ CRLF @
     ''Connection: close'' @ CRLF @ extra @ CRLF"

text \<open>\<open>True\<close> is the return value 0. \<open>extra_headers\<close> is \<open>None\<close> for \<^verbatim>\<open>NULL\<close>.\<close>

definition http_send_response ::
  "nat \<Rightarrow> string \<Rightarrow> string \<Rightarrow> string \<Rightarrow> string option \<Rightarrow> world \<Rightarrow> bool \<times> world" where
  "http_send_response status_code reason content_type body extra_headers w =
     (case snprintf_checked 1024 (http_response_header status_code reason content_type (length body)
             (case extra_headers of None \<Rightarrow> [] | Some e \<Rightarrow> e)) of
        None \<Rightarrow> (False, w)
      | Some header \<Rightarrow>
         (case send_all (bytes_of_string header) (sk w) of
            (n, s1) \<Rightarrow>
              if n \<noteq> int (length header) then (False, w\<lparr>sk := s1\<rparr>)
              else if length body > 0 then
                (case send_all (bytes_of_string body) s1 of
                   (m, s2) \<Rightarrow> (m = int (length body), w\<lparr>sk := s2\<rparr>))
              else (True, w\<lparr>sk := s1\<rparr>)))"

definition sse_headers :: string where
  "sse_headers =
     ''HTTP/1.1 200 OK'' @ CRLF @ ''Content-Type: text/event-stream; charset=utf-8'' @ CRLF @
     ''Cache-Control: no-cache'' @ CRLF @ ''Connection: close'' @ CRLF @ ''X-Accel-Buffering: no'' @ CRLF @ CRLF"

definition http_send_text :: "string \<Rightarrow> world \<Rightarrow> bool \<times> world" where
  "http_send_text txt w =
     (case send_all (bytes_of_string txt) (sk w) of (n, s1) \<Rightarrow> (n = int (length txt), w\<lparr>sk := s1\<rparr>))"

definition http_send_sse_headers :: "world \<Rightarrow> bool \<times> world" where
  "http_send_sse_headers w = http_send_text sse_headers w"

text \<open>The pieces appended for the lines of the message.\<close>

function sse_lines :: "string \<Rightarrow> string list" where
  "sse_lines line =
     (case strchr line (CHR 0x0A) of
        None \<Rightarrow> [line]
      | Some i \<Rightarrow> take i line # (CHR 0x0A # ''data: '') # sse_lines (drop (Suc i) line))"
  by pat_completeness auto
termination
  by (relation "measure length") (auto dest: strchr_SomeD)

declare sse_lines.simps [simp del]

definition http_send_sse_message_event :: "string option \<Rightarrow> world \<Rightarrow> bool \<times> world" where
  "http_send_sse_message_event message w =
     (case http_buf_append_all
             ([''event: message'' @ [CHR 0x0A], ''data: ''] @
              (case message of None \<Rightarrow> [] | Some m \<Rightarrow> sse_lines m) @ [[CHR 0x0A, CHR 0x0A]])
             http_buf_zero w of
        (None, w1) \<Rightarrow> (False, w1)
      | (Some event, w1) \<Rightarrow> http_send_text (hb_data event) w1)"

definition http_send_sse_keepalive :: "world \<Rightarrow> bool \<times> world" where
  "http_send_sse_keepalive w = http_send_text ('': keep-alive'' @ [CHR 0x0A, CHR 0x0A]) w"

text \<open>The escape of an error text leaves the short forms of backspace and form feed out.\<close>

definition json_error_char :: "char \<Rightarrow> string" where
  "json_error_char c =
     (if c = CHR 0x5C then [CHR 0x5C, CHR 0x5C]
      else if c = CHR 0x22 then [CHR 0x5C, CHR 0x22]
      else if c = CHR 0x0A then [CHR 0x5C, CHR ''n'']
      else if c = CHR 0x0D then [CHR 0x5C, CHR ''r'']
      else if c = CHR 0x09 then [CHR 0x5C, CHR ''t'']
      else if char_code c < 32 then json_u00 c
      else [c])"

abbreviation JSON_TYPE :: string where
  "JSON_TYPE \<equiv> ''application/json; charset=utf-8''"

definition http_send_json_error :: "nat \<Rightarrow> string \<Rightarrow> string \<Rightarrow> world \<Rightarrow> bool \<times> world" where
  "http_send_json_error status_code reason message w =
     (case http_buf_append_all ([''{\"error\":\"''] @ map json_error_char message @ [''\"}'']) http_buf_zero w of
        (None, w1) \<Rightarrow> (False, w1)
      | (Some body, w1) \<Rightarrow> http_send_response status_code reason JSON_TYPE (hb_data body) None w1)"


section \<open>Listing a directory\<close>

record http_file_entry =
  fe_name :: string
  fe_path :: string
  fe_kind :: fs_path_kind
  fe_size :: u64
  fe_mtime :: u64

text \<open>\<^verbatim>\<open>strcmp\<close>, by the codes of the first characters that differ.\<close>

fun strcmp :: "string \<Rightarrow> string \<Rightarrow> int" where
  "strcmp [] [] = 0"
| "strcmp [] (d # ds) = - 1"
| "strcmp (c # cs) [] = 1"
| "strcmp (c # cs) (d # ds) =
     (if char_code c < char_code d then - 1 else if char_code c > char_code d then 1 else strcmp cs ds)"

definition http_file_entry_cmp :: "http_file_entry \<Rightarrow> http_file_entry \<Rightarrow> int" where
  "http_file_entry_cmp a b =
     (if fe_mtime a < fe_mtime b then 1
      else if fe_mtime a > fe_mtime b then - 1
      else strcmp (fe_name a) (fe_name b))"

text \<open>
  \<^verbatim>\<open>qsort\<close>. The names of a directory differ, so that the comparison is a total order on its entries
  and every sorting function gives this list.
\<close>

fun insort_entry :: "http_file_entry \<Rightarrow> http_file_entry list \<Rightarrow> http_file_entry list" where
  "insort_entry e [] = [e]"
| "insort_entry e (x # xs) = (if http_file_entry_cmp e x \<le> 0 then e # x # xs else x # insort_entry e xs)"

definition sort_entries :: "http_file_entry list \<Rightarrow> http_file_entry list" where
  "sort_entries es = foldr insort_entry es []"

text \<open>
  The loop over \<^verbatim>\<open>readdir\<close>. \<open>cap\<close> is the capacity of the array \<open>entries\<close>; \<open>None\<close> is the jump to
  \<^verbatim>\<open>CLEANUP\<close> with the exit code 1.
\<close>

fun http_list_loop ::
  "string \<Rightarrow> string \<Rightarrow> string list \<Rightarrow> nat \<Rightarrow> http_file_entry list \<Rightarrow> world \<Rightarrow> http_file_entry list option \<times> world" where
  "http_list_loop dir relative_dir [] cap entries w = (Some entries, w)"
| "http_list_loop dir relative_dir (nm # nms) cap entries w =
     (if nm = ''.'' \<or> nm = ''..'' then http_list_loop dir relative_dir nms cap entries w
      else case fs_join_path 4096 dir nm of
        None \<Rightarrow> (None, w)
      | Some full_path \<Rightarrow>
         (case http_build_relative_child_path HF_HTTP_PATH_MAX relative_dir nm of
            None \<Rightarrow> (None, w)
          | Some relative_path \<Rightarrow>
             (case fs_stat_path full_path (fs w) of
                (None, f1) \<Rightarrow> http_list_loop dir relative_dir nms cap entries (w\<lparr>fs := f1\<rparr>)
              | (Some info, f1) \<Rightarrow>
                  let w1 = w\<lparr>fs := f1\<rparr>;
                      (ok2, w2) = (if length entries = cap then malloc w1 else (True, w1));
                      cap' = (if length entries = cap then (if cap = 0 then 8 else cap * 2) else cap)
                  in if \<not> ok2 then (None, w2)
                     else case malloc w2 of
                       (False, w3) \<Rightarrow> (None, w3)
                     | (True, w3) \<Rightarrow>
                        (case malloc w3 of
                           (False, w4) \<Rightarrow> (None, w4)
                         | (True, w4) \<Rightarrow>
                             http_list_loop dir relative_dir nms cap'
                               (entries @ [\<lparr>fe_name = nm, fe_path = relative_path, fe_kind = info_kind info,
                                  fe_size = (if info_kind info = FS_PATH_KIND_FILE then info_size info else 0),
                                  fe_mtime = info_mtime info\<rparr>]) w4))))"

definition http_list_files ::
  "http_env \<Rightarrow> string \<Rightarrow> string \<Rightarrow> world \<Rightarrow> http_file_entry list option \<times> world" where
  "http_list_files env dir relative_dir w =
     (case posix_opendir dir (fs w) of
        (Inl e, f1) \<Rightarrow> (None, w\<lparr>fs := f1\<rparr>)
      | (Inr d, f1) \<Rightarrow>
         (case http_list_loop dir relative_dir (readdir env f1 d) 0 [] (w\<lparr>fs := f1\<rparr>) of
            (None, w1) \<Rightarrow> (None, w1)
          | (Some entries, w1) \<Rightarrow> (Some (sort_entries entries), w1)))"

text \<open>The pieces of the JSON text of an entry.\<close>

definition entry_pieces :: "http_file_entry \<Rightarrow> string list" where
  "entry_pieces e =
     [''{\"name\":\"''] @ map http_json_escape_char (fe_name e) @
     [''\",\"path\":\"''] @ map http_json_escape_char (fe_path e) @
     [''\",\"kind\":\"''] @ map http_json_escape_char (http_path_kind_name (fe_kind e)) @
     [''\",\"size\":'', show_nat (unat (fe_size e)), '',\"mtime\":'', show_nat (unat (fe_mtime e)), ''}'']"

primrec entries_pieces :: "bool \<Rightarrow> http_file_entry list \<Rightarrow> string list" where
  "entries_pieces first [] = []"
| "entries_pieces first (e # es) = (if first then [] else ['','']) @ entry_pieces e @ entries_pieces False es"

definition http_build_files_json :: "http_env \<Rightarrow> string \<Rightarrow> string \<Rightarrow> world \<Rightarrow> http_buf option \<times> world" where
  "http_build_files_json env dir relative_dir w =
     (case http_list_files env dir relative_dir w of
        (None, w1) \<Rightarrow> (None, w1)
      | (Some entries, w1) \<Rightarrow>
          http_buf_append_all ([''[''] @ entries_pieces True entries @ ['']'']) http_buf_zero w1)"

section \<open>Handlers\<close>

text \<open>The name in the header of a download: at most 511 characters, with those that would end the quoted string replaced.\<close>

definition http_safe_name :: "string \<Rightarrow> string" where
  "http_safe_name nm =
     map (\<lambda>c. if c = CHR 0x22 \<or> c = CHR 0x5C \<or> c = CHR 0x0D \<or> c = CHR 0x0A then CHR ''_'' else c) (take 511 nm)"

definition http_download_header :: "u64 \<Rightarrow> string \<Rightarrow> string" where
  "http_download_header sz nm =
     ''HTTP/1.1 200 OK'' @ CRLF @ ''Content-Type: application/octet-stream'' @ CRLF @
     ''Content-Length: '' @ show_nat (unat sz) @ CRLF @
     ''Content-Disposition: attachment; filename=\"'' @ http_safe_name nm @ ''\"'' @ CRLF @
     ''Connection: close'' @ CRLF @ CRLF"

definition http_send_file :: "server_opt \<Rightarrow> string \<Rightarrow> world \<Rightarrow> bool \<times> world" where
  "http_send_file opt relative_path w =
     (if \<not> fs_validate_relative_path relative_path
      then http_send_json_error 400 ''Bad Request'' ''invalid file path'' w
      else case app_prepare_download (so_path opt) relative_path (fs w) of
        (Inl e, f1) \<Rightarrow> http_send_json_error 404 ''Not Found'' ''file not found'' (w\<lparr>fs := f1\<rparr>)
      | (Inr dl, f1) \<Rightarrow>
          let w1 = w\<lparr>fs := f1\<rparr>;
              (ok, w2) =
                (case snprintf_checked 1024
                        (http_download_header (info_size (dl_info dl)) (http_relative_basename relative_path)) of
                   None \<Rightarrow> (False, w1)
                 | Some header \<Rightarrow>
                    (case http_send_text header w1 of
                       (False, w2) \<Rightarrow> (False, w2)
                     | (True, w2) \<Rightarrow>
                        (case net_send_file_best_effort (dl_fd dl) (info_size (dl_info dl)) w2 of
                           (r, w3) \<Rightarrow> (r = NET_SEND_FILE_OK, w3))))
          in (ok, w2\<lparr>fs := app_download_cleanup (dl_fd dl) (fs w2)\<rparr>))"

record webui_asset =
  wa_path :: string
  wa_content_type :: string
  wa_body :: string

definition webui_assets :: "webui_texts \<Rightarrow> webui_asset list" where
  "webui_assets t =
     [\<lparr>wa_path = ''/'', wa_content_type = ''text/html; charset=utf-8'', wa_body = webui_index_html t\<rparr>,
      \<lparr>wa_path = ''/app.js'', wa_content_type = ''application/javascript; charset=utf-8'', wa_body = webui_app_js t\<rparr>,
      \<lparr>wa_path = ''/styles.css'', wa_content_type = ''text/css; charset=utf-8'', wa_body = webui_styles_css t\<rparr>,
      \<lparr>wa_path = ''/favicon.svg'', wa_content_type = ''image/svg+xml'', wa_body = webui_favicon_svg t\<rparr>]"

definition webui_find_asset :: "webui_texts \<Rightarrow> string \<Rightarrow> webui_asset option" where
  "webui_find_asset t path = find (\<lambda>a. path = wa_path a) (webui_assets t)"

definition http_handle_webui_asset :: "webui_asset \<Rightarrow> world \<Rightarrow> bool \<times> world" where
  "http_handle_webui_asset asset w = http_send_response 200 ''OK'' (wa_content_type asset) (wa_body asset) None w"

text \<open>The directory that is listed: \<open>None\<close> for a path that is refused.\<close>

definition http_list_path :: "http_request \<Rightarrow> string option" where
  "http_list_path req =
     (case http_query_get_value (rq_query req) ''path'' HF_HTTP_PATH_MAX of
        (rc, encoded_path) \<Rightarrow>
          if rc = 0 then
            (case http_decode_name encoded_path HF_HTTP_PATH_MAX of
               None \<Rightarrow> None
             | Some relative_dir \<Rightarrow>
                 if relative_dir \<noteq> [] \<and> \<not> fs_validate_relative_path relative_dir then None else Some relative_dir)
          else Some [])"

definition http_handle_files_list :: "http_env \<Rightarrow> server_opt \<Rightarrow> http_request \<Rightarrow> world \<Rightarrow> bool \<times> world" where
  "http_handle_files_list env opt req w =
     (case http_list_path req of
        None \<Rightarrow> http_send_json_error 400 ''Bad Request'' ''invalid path'' w
      | Some relative_dir \<Rightarrow>
         (case fs_join_relative_path 4096 (so_path opt) (Some relative_dir) of
            None \<Rightarrow> http_send_json_error 400 ''Bad Request'' ''invalid path'' w
          | Some dir_path \<Rightarrow>
             (case fs_stat_path dir_path (fs w) of
                (None, f1) \<Rightarrow> http_send_json_error 404 ''Not Found'' ''path not found'' (w\<lparr>fs := f1\<rparr>)
              | (Some info, f1) \<Rightarrow>
                  let w1 = w\<lparr>fs := f1\<rparr>;
                      (is_dir, w2) =
                        (if info_kind info = FS_PATH_KIND_DIR then (True, w1)
                         else if relative_dir = [] \<and> info_kind info = FS_PATH_KIND_SYMLINK
                         then (case posix_opendir dir_path (fs w1) of (r, f2) \<Rightarrow> (\<not> isl r, w1\<lparr>fs := f2\<rparr>))
                         else (False, w1))
                  in if \<not> is_dir then http_send_json_error 400 ''Bad Request'' ''path is not a directory'' w2
                     else case http_build_files_json env dir_path relative_dir w2 of
                       (None, w3) \<Rightarrow> http_send_json_error 500 ''Internal Server Error'' ''failed to list files'' w3
                     | (Some body, w3) \<Rightarrow> http_send_response 200 ''OK'' JSON_TYPE (hb_data body) None w3)))"

definition http_handle_messages_post :: "server_opt \<Rightarrow> http_request \<Rightarrow> world \<Rightarrow> bool \<times> world" where
  "http_handle_messages_post opt req w =
     (if rq_has_transfer_encoding req
      then http_send_json_error 501 ''Not Implemented'' ''transfer-encoding not supported'' w
      else if \<not> rq_has_content_length req
      then http_send_json_error 411 ''Length Required'' ''content-length required'' w
      else if unat (rq_content_length req) > HF_PROTOCOL_MAX_TEXT_MESSAGE_SIZE
      then http_send_json_error 413 ''Payload Too Large'' ''message too large'' w
      else if \<not> http_ascii_starts_with (rq_content_type req) ''application/json''
      then http_send_json_error 415 ''Unsupported Media Type'' ''content-type must be application/json'' w
      else case malloc w of
        (False, w1) \<Rightarrow> http_send_json_error 500 ''Internal Server Error'' ''allocation failed'' w1
      | (True, w1) \<Rightarrow>
         (case recv_all (unat (rq_content_length req)) (sk w1) of
            (n, body, s2) \<Rightarrow>
              let w2 = w1\<lparr>sk := s2\<rparr> in
              if n \<noteq> int (unat (rq_content_length req)) then (False, w2)
              else case http_parse_message_json (string_of_bytes body) w2 of
                (None, w3) \<Rightarrow>
                  (False, snd (http_send_json_error 400 ''Bad Request'' ''invalid message payload'' w3))
              | (Some message, w3) \<Rightarrow>
                 (case app_submit_message message w3 of
                    (r, w4) \<Rightarrow>
                      if r \<noteq> PROTOCOL_OK
                      then (False, snd (http_send_json_error 500 ''Internal Server Error'' ''failed to store message'' w4))
                      else case http_buf_append http_buf_zero ''{\"ok\":true}'' w4 of
                        (None, w5) \<Rightarrow> (False, w5)
                      | (Some response, w5) \<Rightarrow>
                          http_send_response 201 ''Created'' JSON_TYPE (hb_data response) None w5)))"

text \<open>\<^verbatim>\<open>message_store_get_snapshot\<close> on the global store: its \<^verbatim>\<open>malloc\<close> is called when there is a message.\<close>

definition global_store_snapshot :: "u64 \<Rightarrow> world \<Rightarrow> int \<times> snapshot \<times> world" where
  "global_store_snapshot version0 w =
     (let (alloc, w1) =
            (if ms_initialized (store w) \<and> ms_message (store w) \<noteq> None then malloc w else (False, w));
          (rc, snap) = message_store_get_snapshot alloc version0 (store w1)
      in (rc, snap, w1))"

definition http_handle_messages_latest_get :: "world \<Rightarrow> bool \<times> world" where
  "http_handle_messages_latest_get w =
     (case global_store_snapshot 0 w of
        (rc, snap, w1) \<Rightarrow>
          if rc \<noteq> 0 then http_send_json_error 500 ''Internal Server Error'' ''failed to load message'' w1
          else case http_buf_append_all
                 ([''{\"has_message\":'', if snap_has_message snap then ''true'' else ''false'', '',\"message\":\"''] @
                  (if snap_has_message snap then map http_json_escape_char (the (snap_message snap)) else []) @ [''\"}''])
                 http_buf_zero w1 of
            (None, w2) \<Rightarrow> (False, w2)
          | (Some response, w2) \<Rightarrow> http_send_response 200 ''OK'' JSON_TYPE (hb_data response) None w2)"


text \<open>
  The message stream. A round of the loop is given by what happens while it waits and by what
  \<^verbatim>\<open>shutdown_requested\<close> answers after it; the result \<open>None\<close> says that the handler still runs when the rounds are
  used up.
\<close>

record stream_round =
  sr_waits :: "wait_event list"
  sr_shutdown :: bool

text \<open>\<^verbatim>\<open>message_store_wait_for_update\<close> on the global store: its \<^verbatim>\<open>malloc\<close> is called when there is a message to copy.\<close>

definition global_store_wait :: "u64 \<Rightarrow> wait_event list \<Rightarrow> world \<Rightarrow> int \<times> snapshot \<times> world" where
  "global_store_wait ver evs w =
     (let (alloc, w1) =
            (if snap_message (fst (snd (message_store_wait_for_update ver evs True (store w)))) \<noteq> None
             then malloc w else (False, w));
          (rc, snap, st) = message_store_wait_for_update ver evs alloc (store w)
      in (rc, snap, w1\<lparr>store := st\<rparr>))"

fun http_stream_loop :: "u64 \<Rightarrow> stream_round list \<Rightarrow> world \<Rightarrow> int option \<times> world" where
  "http_stream_loop ver [] w = (None, w)"
| "http_stream_loop ver (r # rs) w =
     (case global_store_wait ver (sr_waits r) w of
        (rc, snap, w1) \<Rightarrow>
          if rc \<noteq> 0 then (Some 1, w1)
          else if sr_shutdown r then (Some 0, w1)
          else if snap_message snap = None \<and> \<not> snap_has_message snap then
            (case http_send_sse_keepalive w1 of
               (False, w2) \<Rightarrow> (Some 1, w2)
             | (True, w2) \<Rightarrow> http_stream_loop (snap_version snap) rs w2)
          else
            (case http_send_sse_message_event (snap_message snap) w1 of
               (False, w2) \<Rightarrow> (Some 1, w2)
             | (True, w2) \<Rightarrow> http_stream_loop (snap_version snap) rs w2))"

definition http_handle_messages_stream :: "stream_round list \<Rightarrow> world \<Rightarrow> int option \<times> world" where
  "http_handle_messages_stream rounds w =
     (case http_send_sse_headers w of
        (False, w1) \<Rightarrow> (Some 1, w1)
      | (True, w1) \<Rightarrow>
         (case global_store_snapshot 0 w1 of
            (rc, snap, w2) \<Rightarrow>
              if rc \<noteq> 0 then (Some 1, w2)
              else case (if snap_has_message snap then http_send_sse_message_event (snap_message snap) w2
                         else (True, w2)) of
                (False, w3) \<Rightarrow> (Some 1, w3)
              | (True, w3) \<Rightarrow> http_stream_loop (snap_version snap) rounds w3))"

text \<open>The pieces of the answer to an upload.\<close>

definition put_pieces :: "string \<Rightarrow> fs_path_info \<Rightarrow> string list" where
  "put_pieces relative_path info =
     [''{\"name\":\"''] @ map http_json_escape_char (http_relative_basename relative_path) @
     [''\",\"path\":\"''] @ map http_json_escape_char relative_path @
     [''\",\"kind\":\"file\",\"size\":'', show_nat (unat (info_size info)),
      '',\"mtime\":'', show_nat (unat (info_mtime info)), ''}'']"

definition http_handle_file_put :: "server_opt \<Rightarrow> http_request \<Rightarrow> string \<Rightarrow> world \<Rightarrow> bool \<times> world" where
  "http_handle_file_put opt req relative_path w =
     (if rq_has_transfer_encoding req
      then http_send_json_error 501 ''Not Implemented'' ''transfer-encoding not supported'' w
      else if \<not> rq_has_content_length req
      then http_send_json_error 411 ''Length Required'' ''content-length required'' w
      else if rq_content_length req > HF_HTTP_UPLOAD_MAX
      then http_send_json_error 413 ''Payload Too Large'' ''upload too large'' w
      else if \<not> http_ascii_starts_with (rq_content_type req) ''application/octet-stream''
      then http_send_json_error 415 ''Unsupported Media Type'' ''content-type must be application/octet-stream''
             (w\<lparr>sk := snd (http_discard_body (unat (rq_content_length req)) (sk w))\<rparr>)
      else if \<not> fs_validate_relative_path relative_path
      then http_send_json_error 400 ''Bad Request'' ''invalid file path''
             (w\<lparr>sk := snd (http_discard_body (unat (rq_content_length req)) (sk w))\<rparr>)
      else case app_receive_file (so_path opt) relative_path (rq_content_length req) APP_UPLOAD_HTTP 4096 w of
        (Inl e, w1) \<Rightarrow>
          if e = PROTOCOL_ERR_MSG_TOO_LARGE
          then http_send_json_error 413 ''Payload Too Large'' ''upload too large'' w1
          else if e = PROTOCOL_ERR_INVALID_ARGUMENT
          then http_send_json_error 400 ''Bad Request'' ''invalid file path'' w1
          else http_send_json_error 500 ''Internal Server Error'' ''failed to save file'' w1
      | (Inr saved_path, w1) \<Rightarrow>
         (case fs_stat_path saved_path (fs w1) of
            (None, f2) \<Rightarrow> http_send_json_error 500 ''Internal Server Error'' ''saved file missing'' (w1\<lparr>fs := f2\<rparr>)
          | (Some info, f2) \<Rightarrow>
              let w2 = w1\<lparr>fs := f2\<rparr> in
              if info_kind info \<noteq> FS_PATH_KIND_FILE
              then http_send_json_error 500 ''Internal Server Error'' ''saved file missing'' w2
              else case http_buf_append_all (put_pieces relative_path info) http_buf_zero w2 of
                (None, w3) \<Rightarrow> (False, w3)
              | (Some response, w3) \<Rightarrow> http_send_response 201 ''Created'' JSON_TYPE (hb_data response) None w3))"

section \<open>Routes\<close>

text \<open>The return code of a handler that always returns.\<close>

definition returned :: "bool \<times> world \<Rightarrow> int option \<times> world" where
  "returned r = (Some (if fst r then 0 else 1), snd r)"

datatype http_route = RouteFilesList | RouteMessagesPost | RouteMessagesLatest | RouteMessagesStream

definition http_exact_routes :: "(string \<times> string \<times> http_route) list" where
  "http_exact_routes =
     [(''/api/files'', ''GET'', RouteFilesList),
      (''/api/messages'', ''POST'', RouteMessagesPost),
      (''/api/messages/latest'', ''GET'', RouteMessagesLatest),
      (''/api/messages/stream'', ''GET'', RouteMessagesStream)]"

fun http_run_route ::
  "http_env \<Rightarrow> stream_round list \<Rightarrow> http_route \<Rightarrow> server_opt \<Rightarrow> http_request \<Rightarrow> world \<Rightarrow> int option \<times> world" where
  "http_run_route env rounds RouteFilesList opt req w = returned (http_handle_files_list env opt req w)"
| "http_run_route env rounds RouteMessagesPost opt req w = returned (http_handle_messages_post opt req w)"
| "http_run_route env rounds RouteMessagesLatest opt req w = returned (http_handle_messages_latest_get w)"
| "http_run_route env rounds RouteMessagesStream opt req w = http_handle_messages_stream rounds w"

text \<open>\<open>None\<close> of the outer option is the return value -1: no route has this path.\<close>

primrec http_dispatch_loop ::
  "http_env \<Rightarrow> stream_round list \<Rightarrow> (string \<times> string \<times> http_route) list \<Rightarrow> server_opt \<Rightarrow> http_request \<Rightarrow> world \<Rightarrow>
   (int option \<times> world) option" where
  "http_dispatch_loop env rounds [] opt req w = None"
| "http_dispatch_loop env rounds (r # rs) opt req w =
     (case r of (path, meth, route) \<Rightarrow>
        if rq_path req \<noteq> path then http_dispatch_loop env rounds rs opt req w
        else if rq_method req \<noteq> meth
        then Some (returned (http_send_json_error 405 ''Method Not Allowed'' ''method not allowed'' w))
        else Some (http_run_route env rounds route opt req w))"

definition http_dispatch_exact_route ::
  "http_env \<Rightarrow> stream_round list \<Rightarrow> server_opt \<Rightarrow> http_request \<Rightarrow> world \<Rightarrow> (int option \<times> world) option" where
  "http_dispatch_exact_route env rounds opt req w = http_dispatch_loop env rounds http_exact_routes opt req w"

definition http_dispatch_file_route :: "server_opt \<Rightarrow> http_request \<Rightarrow> world \<Rightarrow> (int option \<times> world) option" where
  "http_dispatch_file_route opt req w =
     (if \<not> prefix ''/api/files/'' (rq_path req) then None
      else case http_decode_name (drop 11 (rq_path req)) HF_HTTP_PATH_MAX of
        None \<Rightarrow> Some (returned (http_send_json_error 400 ''Bad Request'' ''invalid file name'' w))
      | Some route_name \<Rightarrow>
          if rq_method req = ''GET'' then Some (returned (http_send_file opt route_name w))
          else if rq_method req = ''PUT'' then Some (returned (http_handle_file_put opt req route_name w))
          else Some (returned (http_send_json_error 405 ''Method Not Allowed'' ''method not allowed'' w)))"

definition handle_http_connection ::
  "http_env \<Rightarrow> stream_round list \<Rightarrow> server_opt \<Rightarrow> world \<Rightarrow> int option \<times> world" where
  "handle_http_connection env rounds opt w =
     (case http_read_header_block HF_HTTP_HEADER_MAX (sk w) of
        (read_res, header_block, s1) \<Rightarrow>
          let w1 = w\<lparr>sk := s1\<rparr> in
          if read_res = - 1 then (Some 1, w1)
          else if read_res = 1 then (Some 1, w1)
          else if read_res = 2
          then returned (http_send_json_error 431 ''Request Header Fields Too Large'' ''header too large'' w1)
          else case http_parse_request env header_block of
            Inl parse_res \<Rightarrow>
              if parse_res = 1 then returned (http_send_json_error 400 ''Bad Request'' ''invalid request'' w1)
              else returned (http_send_json_error 505 ''HTTP Version Not Supported'' ''only HTTP/1.1 is supported'' w1)
          | Inr req \<Rightarrow>
             (case (if rq_method req = ''GET'' then webui_find_asset (webui env) (rq_path req) else None) of
                Some asset \<Rightarrow> returned (http_handle_webui_asset asset w1)
              | None \<Rightarrow>
                 (case http_dispatch_exact_route env rounds opt req w1 of
                    Some res \<Rightarrow> res
                  | None \<Rightarrow>
                     (case http_dispatch_file_route opt req w1 of
                        Some res \<Rightarrow> res
                      | None \<Rightarrow> returned (http_send_json_error 404 ''Not Found'' ''route not found'' w1)))))"

end
