(* ===== verification/Http_Facts.thy ===== *)
theory Http_Facts
  imports Http
begin

text \<open>
  Facts on the handlers of \<^verbatim>\<open>src/http.c\<close>: what each of them may change and send, so that a request can be
  judged by the status line of its answer.
\<close>

section \<open>Steps\<close>

text \<open>No entry, descriptor or message changes; the connection may move on.\<close>

definition web_step :: "world \<Rightarrow> world \<Rightarrow> bool" where
  "web_step w w' \<longleftrightarrow> fs_untouched (fs w) (fs w') \<and> io_frame w w'"

lemma web_step_refl [simp, intro]: "web_step w w"
  by (simp add: web_step_def)

lemma web_step_trans [trans]: "web_step w w' \<Longrightarrow> web_step w' w'' \<Longrightarrow> web_step w w''"
  by (auto simp: web_step_def intro: fs_untouched_trans io_frame_trans)

lemma web_step_of:
  "tx_step w w' \<Longrightarrow> web_step w w'" "rx_step w w' \<Longrightarrow> web_step w w'" "mem_step w w' \<Longrightarrow> web_step w w'"
  "fs_untouched (fs w) f \<Longrightarrow> web_step w (w\<lparr>fs := f\<rparr>)"
  by (auto simp: web_step_def tx_step_def rx_step_def mem_step_def io_frame_def)

lemma mem_step_tx: "mem_step w w' \<Longrightarrow> tx_step w w'"
  by (auto simp: mem_step_def tx_step_def io_frame_def)

lemma web_step_frame [frame_simps]:
  assumes "web_step w w'"
  shows "nodes (fs w') = nodes (fs w)" "fds (fs w') = fds (fs w)" "store w' = store w" "pid w' = pid w"
    "splice_direct w' = splice_direct w" "sock_fd (sk w') = sock_fd (sk w)" "fs_ok (fs w) \<Longrightarrow> fs_ok (fs w')"
    "set (mem w') \<subseteq> set (mem w)" "set (fs_sched (fs w')) \<subseteq> set (fs_sched (fs w))"
  using assms by (auto simp: web_step_def fs_untouched_def io_frame_def fs_ok_def)

section \<open>Sending\<close>

text \<open>A beginning of \<open>out\<close> was sent, all of it when \<open>ok\<close>.\<close>

definition answers :: "string \<Rightarrow> world \<Rightarrow> bool \<Rightarrow> world \<Rightarrow> bool" where
  "answers out w ok w' \<longleftrightarrow> tx_step w w' \<and>
     (\<exists>k \<le> length out. tx_data (sk w') = tx_data (sk w) @ take k (bytes_of_string out) \<and> (ok \<longrightarrow> k = length out))"

lemma answers_ok: "answers out w True w' \<Longrightarrow> tx_data (sk w') = tx_data (sk w) @ bytes_of_string out"
  by (auto simp: answers_def)

lemma http_send_text_answers:
  assumes "http_send_text t w = (ok, w')"
  shows "answers t w ok w'" "tx_quiet (sk w) \<Longrightarrow> ok"
proof -
  obtain rc s' where s: "send_all (bytes_of_string t) (sk w) = (rc, s')" by fastforce
  then obtain k es where k: "k \<le> length (bytes_of_string t)"
    "s' = (sk w)\<lparr>tx_data := tx_data (sk w) @ take k (bytes_of_string t), tx_sched := es\<rparr>"
    "set es \<subseteq> set (tx_sched (sk w))" "rc = - 1 \<or> rc = int k" "tx_quiet (sk w) \<longrightarrow> rc = int (length (bytes_of_string t))"
    by (rule send_allE)
  have r: "ok = (rc = int (length t))" "w' = w\<lparr>sk := s'\<rparr>" using assms s by (simp_all add: http_send_text_def)
  have "tx_step w w'" using k(2,3) r(2) by (simp add: tx_step_def tx_only_def io_frame_def)
  with r k show "answers t w ok w'" unfolding answers_def by (intro conjI exI [of _ k]) auto
  show "tx_quiet (sk w) \<Longrightarrow> ok" using k(5) r(1) by simp
qed

lemma answers_append:
  assumes "answers a w ok1 w1" "ok1 \<Longrightarrow> answers b w1 ok w'" "\<not> ok1 \<Longrightarrow> w' = w1 \<and> \<not> ok"
  shows "answers (a @ b) w ok w'"
proof (cases ok1)
  case True
  from assms(1) True have 1: "tx_step w w1" "tx_data (sk w1) = tx_data (sk w) @ bytes_of_string a"
    by (auto simp: answers_def)
  from assms(2) [OF True] obtain k where "tx_step w1 w'" "k \<le> length b"
    "tx_data (sk w') = tx_data (sk w1) @ take k (bytes_of_string b)" "ok \<longrightarrow> k = length b" by (auto simp: answers_def)
  with 1 show ?thesis
    unfolding answers_def by (intro conjI exI [of _ "length a + k"]) (auto intro: tx_step_trans)
next
  case False
  from assms(1) obtain k where "tx_step w w1" "k \<le> length a" "tx_data (sk w1) = tx_data (sk w) @ take k (bytes_of_string a)"
    by (auto simp: answers_def)
  with False assms(3) show ?thesis unfolding answers_def by (intro conjI exI [of _ k]) auto
qed

lemma answers_mem:
  assumes "mem_step w w1" "answers out w1 ok w'"
  shows "answers out w ok w'"
  using assms mem_step_frame(1) [OF assms(1)] tx_step_trans [OF mem_step_tx [OF assms(1)]]
  by (auto simp: answers_def)

lemma answers_nothing: "mem_step w w' \<Longrightarrow> answers out w False w'"
  using mem_step_frame(1) mem_step_tx by (fastforce simp: answers_def intro: exI [of _ 0])

lemma http_send_response_text:
  "http_send_response st reason ct body None w =
     (let h = http_response_header st reason ct (length body) [] in
      if length h < 1024 then
        (case http_send_text h w of
           (False, w1) \<Rightarrow> (False, w1)
         | (True, w1) \<Rightarrow> if body = [] then (True, w1) else http_send_text body w1)
      else (False, w))"
  by (auto simp: http_send_response_def http_send_text_def snprintf_checked_def Let_def split: prod.splits)

lemma http_send_response_answers:
  assumes "http_send_response st reason ct body None w = (ok, w')"
  shows "answers (http_response_header st reason ct (length body) [] @ body) w ok w'"
    and "tx_quiet (sk w) \<Longrightarrow> length (http_response_header st reason ct (length body) []) < 1024 \<Longrightarrow> ok"
proof -
  let ?h = "http_response_header st reason ct (length body) []"
  obtain ok1 w1 where h: "http_send_text ?h w = (ok1, w1)" by fastforce
  obtain ok2 w2 where b: "http_send_text body w1 = (ok2, w2)" by fastforce
  note a1 = http_send_text_answers [OF h] and a2 = http_send_text_answers [OF b]
  have eq: "(ok, w') = (if \<not> length ?h < 1024 then (False, w) else if \<not> ok1 then (False, w1)
      else if body = [] then (True, w1) else (ok2, w2))"
    using assms h b unfolding http_send_response_text Let_def
    by (cases "length ?h < 1024"; cases ok1; cases "body = []") (simp_all only: if_True if_False prod.case bool.case simp_thms)
  show "answers (?h @ body) w ok w'"
  proof (cases "length ?h < 1024")
    case True
    have "answers body w1 True w1" if "body = []" using that by (simp add: answers_def)
    with eq True a1(1) a2(1) show ?thesis by (intro answers_append [of ?h w ok1 w1]) (auto split: if_splits)
  next
    case False
    with eq show ?thesis by (auto intro: answers_nothing)
  qed
  assume q: "tx_quiet (sk w)" "length ?h < 1024"
  have "tx_quiet (sk w1)" using a1(1) q(1) tx_step_tx_quiet by (auto simp: answers_def)
  with eq q a1(2) a2(2) show ok by (auto split: if_splits)
qed

definition json_error_body :: "string \<Rightarrow> string" where
  "json_error_body message = ''{\"error\":\"'' @ concat (map json_error_char message) @ ''\"}''"

definition json_error_text :: "nat \<Rightarrow> string \<Rightarrow> string \<Rightarrow> string" where
  "json_error_text st reason message =
     http_response_header st reason JSON_TYPE (length (json_error_body message)) [] @ json_error_body message"

lemma http_send_json_error_answers:
  assumes "http_send_json_error st reason message w = (ok, w')"
  shows "answers (json_error_text st reason message) w ok w'"
proof -
  let ?ss = "[''{\"error\":\"''] @ map json_error_char message @ [''\"}'']"
  obtain r w1 where b: "http_buf_append_all ?ss http_buf_zero w = (r, w1)" by fastforce
  note e = http_buf_append_all_effect [OF b]
  show ?thesis
  proof (cases r)
    case None
    with assms b e(1) show ?thesis by (auto simp: http_send_json_error_def intro: answers_nothing)
  next
    case (Some body)
    with e(2) [of body] have "hb_data body = json_error_body message"
      by (simp add: json_error_body_def http_buf_zero_def)
    with assms b Some have "http_send_response st reason JSON_TYPE (json_error_body message) None w1 = (ok, w')"
      by (simp add: http_send_json_error_def)
    from answers_mem [OF e(1) http_send_response_answers(1) [OF this]] show ?thesis by (simp add: json_error_text_def)
  qed
qed

section \<open>The status line\<close>

definition status_line :: "nat \<Rightarrow> string" where
  "status_line st = ''HTTP/1.1 '' @ show_nat st @ '' ''"

text \<open>What was sent begins with the status line, unless the connection broke before its end.\<close>

definition opens :: "nat \<Rightarrow> world \<Rightarrow> world \<Rightarrow> bool" where
  "opens st w w' \<longleftrightarrow>
     (\<exists>k rest. tx_data (sk w') = tx_data (sk w) @ take k (bytes_of_string (status_line st)) @ rest \<and>
        (k < length (status_line st) \<longrightarrow> rest = []))"

definition created :: "world \<Rightarrow> world \<Rightarrow> bool" where
  "created w w' \<longleftrightarrow> prefix (tx_data (sk w) @ bytes_of_string (status_line 201)) (tx_data (sk w'))"

lemma status_line_prefix:
  assumes "prefix (status_line a) (status_line b @ rest)"
  shows "a = b"
proof -
  from assms obtain zs where "show_nat b @ '' '' @ rest = show_nat a @ '' '' @ zs"
    by (auto simp: status_line_def prefix_def)
  moreover have "\<not> isdigit (CHR '' '')" by code_simp
  then have "takeWhile isdigit (show_nat n @ '' '' @ x) = show_nat n" for n x
    using show_nat_digits [of _ n] by (subst takeWhile_append2) auto
  ultimately have "show_nat b = show_nat a" by metis
  then show ?thesis by (metis digits_val_show_nat)
qed

lemma opens_status:
  assumes "opens st w w'" "prefix (tx_data (sk w) @ bytes_of_string (status_line st')) (tx_data (sk w'))"
  shows "st = st'"
proof -
  obtain k rest where k: "tx_data (sk w') = tx_data (sk w) @ take k (bytes_of_string (status_line st)) @ rest"
    "k < length (status_line st) \<longrightarrow> rest = []" using assms(1) by (auto simp: opens_def)
  from assms(2) k(1) have "prefix (bytes_of_string (status_line st')) (take k (bytes_of_string (status_line st)) @ rest)"
    by simp
  moreover have "prefix (take k (bytes_of_string (status_line st)) @ rest) (bytes_of_string (status_line st @ string_of_bytes rest))"
  proof (cases "k < length (status_line st)")
    case True
    with k(2) show ?thesis by (simp add: prefix_def) (metis append_assoc append_take_drop_id)
  qed simp
  ultimately have "prefix (bytes_of_string (status_line st')) (bytes_of_string (status_line st @ string_of_bytes rest))"
    by (rule prefix_order.trans)
  then have "prefix (status_line st') (status_line st @ string_of_bytes rest)"
    by (metis map_mono_prefix string_of_bytes_of_string)
  then show ?thesis using status_line_prefix by blast
qed

lemma opens_created: "opens st w w' \<Longrightarrow> created w w' \<Longrightarrow> st = 201"
  using opens_status by (simp add: created_def)

lemma answers_opens:
  assumes "answers (status_line st @ tail) w ok w'" "tx_data (sk w) = tx_data (sk w0)"
  shows "opens st w0 w'"
proof -
  let ?s = "bytes_of_string (status_line st)"
  from assms obtain k where k: "tx_data (sk w') = tx_data (sk w0) @ take k (?s @ bytes_of_string tail)"
    by (auto simp: answers_def)
  show ?thesis
    unfolding opens_def k
    by (intro exI [of _ k] exI [of _ "take (k - length ?s) (bytes_of_string tail)"]) simp
qed

lemma header_status_line:
  "http_response_header st reason ct n [] @ body = status_line st @ drop (length (status_line st)) (http_response_header st reason ct n [] @ body)"
  by (simp add: http_response_header_def status_line_def)

lemma json_error_effect:
  assumes "http_send_json_error st reason message w = (ok, w')"
  shows "tx_step w w'" "tx_data (sk w) = tx_data (sk w0) \<Longrightarrow> opens st w0 w'"
proof -
  note a = http_send_json_error_answers [OF assms]
  from a show "tx_step w w'" by (simp add: answers_def)
  show "opens st w0 w'" if "tx_data (sk w) = tx_data (sk w0)"
    using a that unfolding json_error_text_def by (subst (asm) header_status_line) (rule answers_opens)
qed

lemma response_effect:
  assumes "http_send_response st reason ct body None w = (ok, w')"
  shows "tx_step w w'" "tx_data (sk w) = tx_data (sk w0) \<Longrightarrow> opens st w0 w'"
proof -
  note a = http_send_response_answers(1) [OF assms]
  from a show "tx_step w w'" by (simp add: answers_def)
  show "opens st w0 w'" if "tx_data (sk w) = tx_data (sk w0)"
    using a that by (subst (asm) header_status_line) (rule answers_opens)
qed


section \<open>Reading\<close>

lemma recv_rx_only: "recv n s = (r, s') \<Longrightarrow> rx_only s s'"
  by (auto simp: rx_only_def elim!: recv_cases)

lemma sk_rx_step: "rx_only (sk w) s' \<Longrightarrow> rx_step w (w\<lparr>sk := s'\<rparr>)"
  by (auto simp: rx_step_def io_frame_def rx_only_def)

lemma http_discard_body_rx: "http_discard_body n s = (ok, s') \<Longrightarrow> rx_only s s'"
proof (induction n s rule: http_discard_body.induct)
  case (1 n s)
  obtain r s1 where r: "recv (min 4096 n) s = (r, s1)" by fastforce
  note rx = recv_rx_only [OF r]
  show ?case
  proof (cases "n > 0 \<and> (\<exists>bs. r = Inr bs \<and> bs \<noteq> [])")
    case True
    then obtain bs where b: "n > 0" "r = Inr bs" "bs \<noteq> []" by blast
    with "1.prems" r have "http_discard_body (n - length bs) s1 = (ok, s')"
      by (simp add: http_discard_body.simps [of n s])
    from "1.IH" [OF b(1) r [symmetric] b(2,3) this] rx show ?thesis by (rule rx_only_trans [rotated])
  next
    case False
    with "1.prems" r have "s' = s \<or> s' = s1"
      by (auto simp: http_discard_body.simps [of n s] split: if_splits sum.splits)
    with rx show ?thesis by auto
  qed
qed

lemma fs_stat_path_effect:
  assumes "fs_stat_path p f = (r, f')"
  shows "fs_untouched f f'"
    and "r = Some info \<Longrightarrow> info_kind info = FS_PATH_KIND_FILE \<Longrightarrow>
      \<exists>c m. nodes f (canon p) = Some (FileN c m) \<and> info_size info = of_nat (length c) \<and> info_mtime info = m"
    and "fs_quiet f \<Longrightarrow> nodes f (canon p) = Some (FileN c m) \<Longrightarrow>
      r = Some \<lparr>info_kind = FS_PATH_KIND_FILE, info_size = of_nat (length c), info_mtime = m\<rparr>"
    and "r = Some info \<Longrightarrow> \<exists>n. nodes f (canon p) = Some n \<and> info_mtime info = node_mtime n \<and>
      (info_kind info = FS_PATH_KIND_DIR) = is_dir n"
    and "fs_quiet f \<Longrightarrow> nodes f (canon p) = Some n \<Longrightarrow> r \<noteq> None"
  using assms fs_quiet_no_fail [of f]
  by (auto simp: fs_stat_path_def posix_lstat_def fs_untouched_def elim!: fs_popE
      split: prod.splits fs_event.splits option.splits node.splits) blast+

section \<open>Uploads\<close>

lemma http_handle_file_put_effect:
  assumes "http_handle_file_put opt req rel w = (ok, w')"
    and "fs_ok (fs w)" "\<not> splice_direct w" "0 \<le> sock_fd (sk w)"
  shows "web_step w w' \<and> (\<exists>st. st \<noteq> 201 \<and> opens st w w') \<or>
    (\<exists>r w1. fs_validate_relative_path rel \<and> rq_content_length req \<le> HF_HTTP_UPLOAD_MAX \<and>
       transfer_done (so_path opt) rel (rq_content_length req) w r w1 \<and> web_step w1 w' \<and>
       (\<exists>st. opens st w w' \<and> (st = 201 \<longrightarrow> (\<exists>p. r = Inr p))))"
proof -
  have refused: "web_step w w' \<and> (\<exists>st. st \<noteq> 201 \<and> opens st w w')"
    if e: "http_send_json_error st reason msg w1 = (ok, w')" and "st \<noteq> 201" "rx_step w w1" for st reason msg w1
  proof -
    have "tx_data (sk w1) = tx_data (sk w)" using that(3) by (simp add: rx_step_def rx_only_def)
    with json_error_effect(1) [OF e] json_error_effect(2) [OF e, of w] that(2,3) show ?thesis
      by (blast intro: web_step_trans web_step_of)
  qed
  define s1 where "s1 = snd (http_discard_body (unat (rq_content_length req)) (sk w))"
  have d: "rx_step w (w\<lparr>sk := s1\<rparr>)"
    unfolding s1_def by (rule sk_rx_step [OF http_discard_body_rx [OF surjective_pairing]])
  consider "rq_has_transfer_encoding req" | "\<not> rq_has_transfer_encoding req" "\<not> rq_has_content_length req"
    | "\<not> rq_has_transfer_encoding req" "rq_has_content_length req" "rq_content_length req > HF_HTTP_UPLOAD_MAX"
    | "\<not> rq_has_transfer_encoding req" "rq_has_content_length req" "\<not> rq_content_length req > HF_HTTP_UPLOAD_MAX"
      "\<not> (http_ascii_starts_with (rq_content_type req) ''application/octet-stream'' \<and> fs_validate_relative_path rel)"
    | (go) "\<not> rq_has_transfer_encoding req" "rq_has_content_length req" "\<not> rq_content_length req > HF_HTTP_UPLOAD_MAX"
      "http_ascii_starts_with (rq_content_type req) ''application/octet-stream''" "fs_validate_relative_path rel" by blast
  then show ?thesis
  proof cases
    case go
    obtain r w1 where rv: "app_receive_file (so_path opt) rel (rq_content_length req) APP_UPLOAD_HTTP 4096 w = (r, w1)"
      by fastforce
    have td: "transfer_done (so_path opt) rel (rq_content_length req) w r w1"
      by (rule app_receive_file_done [OF rv assms(2-4)]) simp
    then have tx: "tx_data (sk w1) = tx_data (sk w)" by (simp add: transfer_done_def rx_only_def)
    have "web_step w1 w' \<and> (\<exists>st. opens st w w' \<and> (st = 201 \<longrightarrow> (\<exists>p. r = Inr p)))"
    proof (cases r)
      case (Inl e)
      with assms(1) rv go obtain st reason msg where
        "http_send_json_error st reason msg w1 = (ok, w')" "st \<noteq> 201"
        by (auto simp: http_handle_file_put_def split: if_splits)
      with json_error_effect(1) [of st reason msg w1 ok w'] json_error_effect(2) [of st reason msg w1 ok w' w] tx
      show ?thesis by (auto intro: web_step_of)
    next
      case (Inr p)
      obtain i f2 where st: "fs_stat_path p (fs w1) = (i, f2)" by fastforce
      define w2 where "w2 = w1\<lparr>fs := f2\<rparr>"
      have w2: "web_step w1 w2" "tx_data (sk w2) = tx_data (sk w)"
        using fs_stat_path_effect(1) [OF st] tx by (auto simp: w2_def intro: web_step_of)
      have put: "http_handle_file_put opt req rel w =
          (case i of
             None \<Rightarrow> http_send_json_error 500 ''Internal Server Error'' ''saved file missing'' w2
           | Some info \<Rightarrow>
               if info_kind info \<noteq> FS_PATH_KIND_FILE
               then http_send_json_error 500 ''Internal Server Error'' ''saved file missing'' w2
               else case http_buf_append_all (put_pieces rel info) http_buf_zero w2 of
                 (None, w3) \<Rightarrow> (False, w3)
               | (Some response, w3) \<Rightarrow> http_send_response 201 ''Created'' JSON_TYPE (hb_data response) None w3)"
        using rv go Inr st by (cases i) (simp_all add: http_handle_file_put_def w2_def Let_def)
      show ?thesis
      proof (cases "\<exists>info. i = Some info \<and> info_kind info = FS_PATH_KIND_FILE")
        case False
        then have e: "http_send_json_error 500 ''Internal Server Error'' ''saved file missing'' w2 = (ok, w')"
          using put assms(1) by (cases i) auto
        from json_error_effect(1) [OF e] json_error_effect(2) [OF e, of w] w2 Inr show ?thesis
          by (blast intro: web_step_trans web_step_of)
      next
        case True
        then obtain info r3 w3 where i: "i = Some info" "info_kind info = FS_PATH_KIND_FILE"
          and b1: "http_buf_append_all (put_pieces rel info) http_buf_zero w2 = (r3, w3)" by fastforce
        then have b: "http_buf_append_all (put_pieces rel info) http_buf_zero w2 = (r3, w3)"
          "if r3 = None then w' = w3 else http_send_response 201 ''Created'' JSON_TYPE (hb_data (the r3)) None w3 = (ok, w')"
          using put assms(1) by (cases r3; simp)+
        have m: "mem_step w2 w3" by (rule http_buf_append_all_effect(1) [OF b(1)])
        then have tx3: "tx_data (sk w3) = tx_data (sk w)" using w2(2) mem_step_frame(1) [OF m] by simp
        show ?thesis
        proof (cases r3)
          case None
          have "opens 201 w w3" using tx3 by (auto simp: opens_def status_line_def intro: exI [of _ 0])
          with None b m w2 Inr show ?thesis by (auto intro: web_step_trans web_step_of)
        next
          case (Some b3)
          with b have "http_send_response 201 ''Created'' JSON_TYPE (hb_data b3) None w3 = (ok, w')" by simp
          note re = response_effect [OF this]
          have "web_step w1 w'"
            by (rule web_step_trans [OF w2(1) web_step_trans [OF web_step_of(3) [OF m] web_step_of(1) [OF re(1)]]])
          moreover have "opens 201 w w'" by (rule re(2) [OF tx3])
          ultimately show ?thesis using Inr by blast
        qed
      qed
    qed
    with td go(3,5) show ?thesis
      by (intro disjI2 exI [of _ r] exI [of _ w1]) (simp add: not_less)
  qed (use assms(1) refused d s1_def in \<open>auto simp: http_handle_file_put_def split: if_splits\<close>)
qed


section \<open>Messages\<close>

lemma json_string_loop_effect:
  "json_string_loop p buf w = (r, w') \<Longrightarrow> mem_step w w' \<and> (\<forall>v rest. r = Some (v, rest) \<longrightarrow> cstring v)"
proof (induction p buf w rule: json_string_loop.induct)
  case (1 p buf w)
  show ?case
  proof (cases p)
    case Nil
    with "1.prems" show ?thesis by (simp add: json_string_loop.simps [of "[]"])
  next
    case (Cons c p1)
    show ?thesis
    proof (cases "c = CHR 0x22")
      case True
      obtain x w1 where a: "http_buf_append buf [NUL] w = (x, w1)" by fastforce
      with "1.prems" Cons True have "w' = w1 \<and> (\<forall>v rest. r = Some (v, rest) \<longrightarrow> cstring v)"
        by (auto simp: json_string_loop.simps [of "_ # _"] split: option.splits)
      with http_buf_append_effect(1) [OF a] show ?thesis by simp
    next
      case False
      show ?thesis
      proof (cases "json_string_item p")
        case None
        with "1.prems" Cons False show ?thesis by (simp add: json_string_loop.simps [of "_ # _"])
      next
        case it: (Some it)
        obtain s rest where i: "it = (s, rest)" by fastforce
        obtain x w1 where a: "http_buf_append buf s w = (x, w1)" by fastforce
        note m = http_buf_append_effect(1) [OF a]
        show ?thesis
        proof (cases x)
          case None
          with "1.prems" Cons False it i a m show ?thesis by (simp add: json_string_loop.simps [of "_ # _"])
        next
          case (Some b)
          with "1.prems" Cons False it i a have "json_string_loop rest b w1 = (r, w')"
            by (simp add: json_string_loop.simps [of "_ # _"])
          from "1.IH" [OF Cons False it i [symmetric] a [symmetric] Some this] m show ?thesis
            by (blast intro: mem_step_trans)
        qed
      qed
    qed
  qed
qed

lemma http_json_parse_string_effect:
  "http_json_parse_string p w = (r, w') \<Longrightarrow> mem_step w w' \<and> (\<forall>v rest. r = Some (v, rest) \<longrightarrow> cstring v)"
  by (auto simp: http_json_parse_string_def split: list.splits if_splits dest: json_string_loop_effect)

lemma http_parse_message_json_effect:
  assumes "http_parse_message_json body w = (r, w')"
  shows "mem_step w w'" "r = Some m \<Longrightarrow> cstring m"
proof -
  obtain b w1 where m1: "malloc w = (b, w1)" by fastforce
  note s1 = mem_step_malloc [OF m1]
  define p0 where "p0 = http_json_skip_ws (cstr body)"
  obtain k w2 where k: "http_json_parse_string (http_json_skip_ws (tl p0)) w1 = (k, w2)" by fastforce
  note s2 = http_json_parse_string_effect [OF k]
  have "mem_step w w' \<and> (\<forall>m. r = Some m \<longrightarrow> cstring m)"
  proof (cases "b \<and> p0 \<noteq> [] \<and> hd p0 = CHR ''{'' \<and> k \<noteq> None")
    case False
    with assms have "r = None" "w' = w1 \<or> w' = w2"
      by (auto simp: http_parse_message_json_def m1 p0_def [symmetric] k Let_def split: bool.splits if_splits option.splits)
    with s1 s2 show ?thesis by (blast intro: mem_step_trans)
  next
    case True
    then obtain key p1 where kp: "k = Some (key, p1)" by auto
    define p2 where "p2 = http_json_skip_ws p1"
    obtain v w3 where v: "http_json_parse_string (http_json_skip_ws (tl p2)) w2 = (v, w3)" by fastforce
    note s3 = http_json_parse_string_effect [OF v]
    from True assms kp have "(w' = w2 \<or> w' = w3) \<and> (\<forall>m. r = Some m \<longrightarrow> (\<exists>rest. v = Some (m, rest)))"
      by (auto simp: http_parse_message_json_def m1 p0_def [symmetric] k Let_def p2_def [symmetric] v
          split: if_splits option.splits)
    with s1 s2 s3 show ?thesis by (blast intro: mem_step_trans)
  qed
  then show "mem_step w w'" "r = Some m \<Longrightarrow> cstring m" by blast+
qed


lemma opens_silent: "tx_data (sk w') = tx_data (sk w) \<Longrightarrow> opens st w w'"
  by (auto simp: opens_def status_line_def intro: exI [of _ 0])

text \<open>An answer other than \<^verbatim>\<open>201\<close>, or none, and nothing changed.\<close>

definition turned_down :: "world \<Rightarrow> world \<Rightarrow> bool" where
  "turned_down w w' \<longleftrightarrow> web_step w w' \<and> (\<exists>st. st \<noteq> 201 \<and> opens st w w')"

lemma turned_down_error:
  assumes "http_send_json_error st reason msg w1 = r" "st \<noteq> 201" "web_step w w1" "tx_data (sk w1) = tx_data (sk w)"
  shows "turned_down w (snd r)"
proof -
  note e = json_error_effect [OF assms(1) [THEN trans [OF _ surjective_pairing]]]
  have "web_step w (snd r)" by (rule web_step_trans [OF assms(3) web_step_of(1) [OF e(1)]])
  with e(2) [OF assms(4)] assms(2) show ?thesis by (auto simp: turned_down_def)
qed

lemma turned_down_response:
  assumes "http_send_response st reason ct body None w1 = r" "st \<noteq> 201" "web_step w w1" "tx_data (sk w1) = tx_data (sk w)"
  shows "turned_down w (snd r)"
proof -
  note e = response_effect [OF assms(1) [THEN trans [OF _ surjective_pairing]]]
  have "web_step w (snd r)" by (rule web_step_trans [OF assms(3) web_step_of(1) [OF e(1)]])
  with e(2) [OF assms(4)] assms(2) show ?thesis by (auto simp: turned_down_def)
qed

lemma turned_down_silent: "web_step w w' \<Longrightarrow> tx_data (sk w') = tx_data (sk w) \<Longrightarrow> turned_down w w'"
  unfolding turned_down_def by (intro conjI exI [of _ 500]) (auto intro: opens_silent)

text \<open>The message was stored; it was read from the body of the request.\<close>

definition message_posted :: "http_request \<Rightarrow> world \<Rightarrow> world \<Rightarrow> bool" where
  "message_posted req w w' \<longleftrightarrow>
     (\<exists>body rest m w2 w3. rx_data (sk w) = body @ rest \<and> length body = unat (rq_content_length req) \<and>
        http_parse_message_json (string_of_bytes body) w2 = (Some m, w3) \<and>
        cstring m \<and> length m \<le> HF_PROTOCOL_MAX_TEXT_MESSAGE_SIZE \<and>
        store w' = (store w)\<lparr>ms_message := Some (ms_trimmed m), ms_version := ms_version (store w) + 1\<rparr>) \<and>
     nodes (fs w') = nodes (fs w) \<and> fds (fs w') = fds (fs w)"

lemma http_handle_messages_post_effect:
  assumes "http_handle_messages_post opt req w = (ok, w')"
  shows "turned_down w w' \<or> message_posted req w w' \<and> opens 201 w w'"
proof (cases "rq_has_transfer_encoding req \<or> \<not> rq_has_content_length req \<or>
    unat (rq_content_length req) > HF_PROTOCOL_MAX_TEXT_MESSAGE_SIZE \<or>
    \<not> http_ascii_starts_with (rq_content_type req) ''application/json''")
  case True
  then obtain st reason msg where "http_send_json_error st reason msg w = (ok, w')" "st \<noteq> 201"
    using assms by (auto simp: http_handle_messages_post_def split: if_splits)
  then show ?thesis using turned_down_error [of st reason msg w "(ok, w')" w] by simp
next
  case False
  let ?n = "unat (rq_content_length req)"
  obtain b w1 where m1: "malloc w = (b, w1)" by fastforce
  note s1 = mem_step_malloc [OF m1]
  obtain n body s2 where rv: "recv_all ?n (sk w1) = (n, body, s2)" by (metis prod_cases3)
  define w2 where "w2 = w1\<lparr>sk := s2\<rparr>"
  note s2 = recv_all_step [OF rv, folded w2_def]
  have ws2: "web_step w w2" by (rule web_step_trans [OF web_step_of(3) [OF s1] web_step_of(2) [OF s2(1)]])
  have tx2: "tx_data (sk w2) = tx_data (sk w)" using s2(1) mem_step_frame(1) [OF s1] by (simp add: rx_step_def rx_only_def)
  obtain x w3 where x: "http_parse_message_json (string_of_bytes body) w2 = (x, w3)" by fastforce
  note s3 = http_parse_message_json_effect [OF x]
  have ws3: "web_step w w3" "tx_data (sk w3) = tx_data (sk w)"
    using web_step_trans [OF ws2 web_step_of(3) [OF s3(1)]] tx2 mem_step_frame(1) [OF s3(1)] by simp_all
  show ?thesis
  proof (cases "b \<and> n = int ?n \<and> x \<noteq> None")
    case bad: False
    have "w' = snd (http_send_json_error 500 ''Internal Server Error'' ''allocation failed'' w1) \<and> \<not> b \<or> w' = w2 \<or>
        w' = snd (http_send_json_error 400 ''Bad Request'' ''invalid message payload'' w3)"
      using assms False bad m1 rv x
      by (auto simp: http_handle_messages_post_def w2_def Let_def split: bool.splits if_splits option.splits)
    then show ?thesis
      using turned_down_error [OF refl _ web_step_of(3) [OF s1]] turned_down_error [OF refl _ ws3] turned_down_silent [OF ws2 tx2]
        mem_step_frame(1) [OF s1] by auto
  next
    case True
    then obtain m where m: "x = Some m" by auto
    obtain r w4 where sub: "app_submit_message m w3 = (r, w4)" by fastforce
    note s4 = app_submit_message_effect [OF sub]
    have ws4: "web_step w w4" if "r \<noteq> PROTOCOL_OK"
    proof -
      have "web_step w3 w4" using s4(1-5) s4(7) [OF that] by (auto simp: web_step_def io_frame_def fs_untouched_def)
      with ws3(1) show ?thesis by (rule web_step_trans)
    qed
    obtain y w5 where y: "http_buf_append http_buf_zero ''{\"ok\":true}'' w4 = (y, w5)" by fastforce
    note s5 = http_buf_append_effect(1) [OF y]
    have post: "(ok, w') = (if r \<noteq> PROTOCOL_OK
        then (False, snd (http_send_json_error 500 ''Internal Server Error'' ''failed to store message'' w4))
        else case y of None \<Rightarrow> (False, w5) | Some response \<Rightarrow> http_send_response 201 ''Created'' JSON_TYPE (hb_data response) None w5)"
      using assms False True m m1 rv x sub y by (auto simp: http_handle_messages_post_def w2_def Let_def split: option.splits)
    show ?thesis
    proof (cases "r = PROTOCOL_OK")
      case r: False
      with post ws4 s4(1) ws3(2) turned_down_error [OF refl _ ws4] show ?thesis by simp
    next
      case r: True
      have st5: "sk w5 = sk w3" "fs w5 = fs w3" "store w5 = store w4" using s4(1,2) mem_step_frame [OF s5] by simp_all
      have w': "tx_step w5 w' \<and> opens 201 w w'"
      proof (cases y)
        case None
        with post r st5 ws3(2) show ?thesis by (auto intro: opens_silent)
      next
        case (Some resp)
        with post r have e: "http_send_response 201 ''Created'' JSON_TYPE (hb_data resp) None w5 = (ok, w')" by simp
        show ?thesis using response_effect(1) [OF e] response_effect(2) [OF e, of w] st5 ws3(2) by simp
      qed
      have "store w' = store w4" "fs w' = fs w3" using w' st5 by (auto simp: tx_step_def io_frame_def)
      moreover have "store w3 = store w" "nodes (fs w3) = nodes (fs w)" "fds (fs w3) = fds (fs w)"
        using web_step_frame [OF ws3(1)] by simp_all
      moreover have "length body = ?n \<and> rx_data (sk w) = body @ rx_data s2" using s2(2) True mem_step_frame(1) [OF s1] by simp
      ultimately have "message_posted req w w'"
        using s4(6) [OF r] s3(2) [OF m] x m unfolding message_posted_def by auto
      with w' show ?thesis by blast
    qed
  qed
qed


section \<open>Listings and other reads\<close>

text \<open>A step of the server alone: nothing is received or sent.\<close>

definition local_step :: "world \<Rightarrow> world \<Rightarrow> bool" where
  "local_step w w' \<longleftrightarrow> web_step w w' \<and> sk w' = sk w"

lemma local_step_refl [simp, intro]: "local_step w w"
  by (simp add: local_step_def)

lemma local_step_trans [trans]: "local_step w w' \<Longrightarrow> local_step w' w'' \<Longrightarrow> local_step w w''"
  by (auto simp: local_step_def intro: web_step_trans)

lemma local_step_of:
  "mem_step w w' \<Longrightarrow> local_step w w'" "malloc w = (b, w') \<Longrightarrow> local_step w w'"
  "fs_untouched (fs w) f \<Longrightarrow> local_step w (w\<lparr>fs := f\<rparr>)"
  using mem_step_frame(1) mem_step_malloc by (auto simp: local_step_def intro: web_step_of)

lemma http_list_loop_local: "http_list_loop dir rel nms cap es w = (r, w') \<Longrightarrow> local_step w w'"
proof (induction nms arbitrary: cap es w)
  case Nil
  then show ?case by simp
next
  case (Cons nm nms)
  note IH = Cons.IH
  show ?case
  proof (cases "nm = ''.'' \<or> nm = ''..'' \<or> fs_join_path 4096 dir nm = None \<or>
      http_build_relative_child_path HF_HTTP_PATH_MAX rel nm = None")
    case True
    with Cons.prems IH show ?thesis by (auto split: if_splits option.splits)
  next
    case False
    then obtain full rp where p: "fs_join_path 4096 dir nm = Some full"
      "http_build_relative_child_path HF_HTTP_PATH_MAX rel nm = Some rp" "\<not> (nm = ''.'' \<or> nm = ''..'')" by auto
    obtain i f1 where st: "fs_stat_path full (fs w) = (i, f1)" by fastforce
    define w1 where "w1 = w\<lparr>fs := f1\<rparr>"
    have s1: "local_step w w1" unfolding w1_def by (rule local_step_of(3) [OF fs_stat_path_effect(1) [OF st]])
    define b2 where "b2 = (if length es = cap then malloc w1 else (True, w1))"
    have s2: "local_step w1 (snd b2)"
      using local_step_of(2) [of w1 "fst (malloc w1)" "snd (malloc w1)"] by (simp add: b2_def)
    obtain b3 w3 where m3: "malloc (snd b2) = (b3, w3)" by fastforce
    obtain b4 w4 where m4: "malloc w3 = (b4, w4)" by fastforce
    note s3 = local_step_of(2) [OF m3] and s4 = local_step_of(2) [OF m4]
    have "w' = snd b2 \<or> w' = w3 \<or> w' = w4 \<or>
      (\<exists>cap es. http_list_loop dir rel nms cap es w1 = (r, w')) \<or> (\<exists>cap es. http_list_loop dir rel nms cap es w4 = (r, w'))"
      using Cons.prems p st m3 m4
      by (auto simp: w1_def [symmetric] b2_def [symmetric] Let_def split: option.splits if_splits bool.splits prod.splits)
    then show ?thesis using s1 s2 s3 s4 IH by (blast intro: local_step_trans)
  qed
qed

lemma http_list_files_local:
  assumes "http_list_files env dir rel w = (r, w')"
  shows "local_step w w'"
proof -
  obtain d f1 where o: "posix_opendir dir (fs w) = (d, f1)" by fastforce
  have s1: "local_step w (w\<lparr>fs := f1\<rparr>)" by (rule local_step_of(3) [OF posix_opendir_effect [OF o]])
  show ?thesis
  proof (cases d)
    case (Inl e)
    with assms o s1 show ?thesis by (simp add: http_list_files_def)
  next
    case (Inr p)
    obtain x w1 where l: "http_list_loop dir rel (readdir env f1 p) 0 [] (w\<lparr>fs := f1\<rparr>) = (x, w1)" by fastforce
    with assms o Inr have "w' = w1" by (auto simp: http_list_files_def split: option.splits)
    with http_list_loop_local [OF l] s1 show ?thesis by (blast intro: local_step_trans)
  qed
qed

lemma http_build_files_json_local:
  assumes "http_build_files_json env dir rel w = (r, w')"
  shows "local_step w w'"
proof -
  obtain x w1 where l: "http_list_files env dir rel w = (x, w1)" by fastforce
  note s1 = http_list_files_local [OF l]
  show ?thesis
  proof (cases x)
    case None
    with assms l s1 show ?thesis by (simp add: http_build_files_json_def)
  next
    case (Some es)
    with assms l have "http_buf_append_all ([''[''] @ entries_pieces True es @ ['']'']) http_buf_zero w1 = (r, w')"
      by (simp add: http_build_files_json_def)
    from local_step_trans [OF s1 local_step_of(1) [OF http_buf_append_all_effect(1) [OF this]]] show ?thesis .
  qed
qed

lemma turned_down_local:
  "http_send_json_error st reason msg w1 = r \<Longrightarrow> st \<noteq> 201 \<Longrightarrow> local_step w w1 \<Longrightarrow> turned_down w (snd r)"
  "http_send_response st reason ct body None w1 = r \<Longrightarrow> st \<noteq> 201 \<Longrightarrow> local_step w w1 \<Longrightarrow> turned_down w (snd r)"
  by (auto simp: local_step_def intro: turned_down_error turned_down_response)

lemma http_handle_files_list_effect:
  assumes "http_handle_files_list env opt req w = (ok, w')"
  shows "turned_down w w'"
proof -
  have err: "turned_down w w'" if "http_send_json_error st reason msg w1 = (ok, w')" "st \<noteq> 201" "local_step w w1" for st reason msg w1
    using turned_down_local(1) [OF that] by simp
  have resp: "turned_down w w'" if "http_send_response st reason ct body None w1 = (ok, w')" "st \<noteq> 201" "local_step w w1"
    for st reason ct body w1
    using turned_down_local(2) [OF that] by simp
  show ?thesis
  proof (cases "\<exists>rel dir. http_list_path req = Some rel \<and> fs_join_relative_path 4096 (so_path opt) (Some rel) = Some dir")
    case False
    with assms err show ?thesis by (auto simp: http_handle_files_list_def split: option.splits)
  next
    case True
    then obtain rel dir where d: "http_list_path req = Some rel" "fs_join_relative_path 4096 (so_path opt) (Some rel) = Some dir"
      by blast
    obtain i f1 where st: "fs_stat_path dir (fs w) = (i, f1)" by fastforce
    define w1 where "w1 = w\<lparr>fs := f1\<rparr>"
    have s1: "local_step w w1" unfolding w1_def by (rule local_step_of(3) [OF fs_stat_path_effect(1) [OF st]])
    show ?thesis
    proof (cases i)
      case None
      with assms d st err [OF _ _ s1] show ?thesis by (auto simp: http_handle_files_list_def w1_def)
    next
      case (Some info)
      define b where "b = (if info_kind info = FS_PATH_KIND_DIR then (True, w1)
         else if rel = [] \<and> info_kind info = FS_PATH_KIND_SYMLINK
         then (case posix_opendir dir (fs w1) of (r, f2) \<Rightarrow> (\<not> isl r, w1\<lparr>fs := f2\<rparr>)) else (False, w1))"
      have "local_step w1 (snd b)"
        by (auto simp: b_def split: prod.splits intro: local_step_of(3) posix_opendir_effect)
      with s1 have s2: "local_step w (snd b)" by (rule local_step_trans)
      obtain ok1 w2 where b: "b = (ok1, w2)" by fastforce
      obtain x w3 where x: "http_build_files_json env dir rel w2 = (x, w3)" by fastforce
      have s3: "local_step w w3" using s2 http_build_files_json_local [OF x] b by (auto intro: local_step_trans)
      have eq: "http_handle_files_list env opt req w =
          (case b of (dir_ok, w2) \<Rightarrow>
             if \<not> dir_ok then http_send_json_error 400 ''Bad Request'' ''path is not a directory'' w2
             else (case http_build_files_json env dir rel w2 of
               (None, w3) \<Rightarrow> http_send_json_error 500 ''Internal Server Error'' ''failed to list files'' w3
             | (Some body, w3) \<Rightarrow> http_send_response 200 ''OK'' JSON_TYPE (hb_data body) None w3))"
        unfolding b_def w1_def http_handle_files_list_def d st Some Let_def option.case prod.case ..
      consider "\<not> ok1" "http_send_json_error 400 ''Bad Request'' ''path is not a directory'' w2 = (ok, w')"
        | "x = None" "http_send_json_error 500 ''Internal Server Error'' ''failed to list files'' w3 = (ok, w')"
        | body where "http_send_response 200 ''OK'' JSON_TYPE body None w3 = (ok, w')"
        using assms unfolding eq b prod.case by (cases ok1; cases x) (auto simp: x)
      then show ?thesis
      proof cases
        case 1
        show ?thesis by (rule err [OF 1(2)]) (use s2 b in simp_all)
      next
        case 2
        show ?thesis by (rule err [OF 2(2)]) (use s3 in simp_all)
      next
        case 3
        show ?thesis by (rule resp [OF 3]) (use s3 in simp_all)
      qed
    qed
  qed
qed

end
