(* ===== verification/Examples.thy ===== *)
theory Examples
  imports App_Service Cli
begin

text \<open>
  Concrete worlds for the witnesses: a server with one file in its receive directory and a client
  with one file of its own. Calls on both are cut short and interrupted, none fails for good.
\<close>

definition demo_fs :: fsys where
  "demo_fs = \<lparr>nodes = [[''/'', ''srv''] \<mapsto> DirN 0, [''/'', ''srv'', ''a''] \<mapsto> FileN [7, 8, 9] 3],
     fds = Map.empty, next_fd = 5, fs_sched = [FsGo, FsShort 1], fs_now = 11\<rparr>"

definition demo_world :: "byte list \<Rightarrow> world" where
  "demo_world rx =
     \<lparr>sk = \<lparr>sock_fd = 4, rx_data = rx, rx_sched = [RxUpTo 2, RxFail EINTR, RxUpTo 0],
           tx_data = [], tx_sched = [TxUpTo 3, TxFail EINTR]\<rparr>,
      fs = demo_fs, mem = [True],
      store = \<lparr>ms_message = None, ms_version = 0, ms_initialized = True, ms_shutting_down = False\<rparr>,
      pid = 42, splice_direct = False\<rparr>"

definition demo_opt :: server_opt where
  "demo_opt = \<lparr>so_path = ''/srv'', so_port = 8888, so_pid = 42\<rparr>"

lemma demo_world_ok:
  "fs_ok (fs (demo_world rx))" "fs_sizes_ok (fs (demo_world rx))" "\<not> splice_direct (demo_world rx)"
  "0 \<le> sock_fd (sk (demo_world rx))" "so_path demo_opt \<noteq> []" "rx_calm (demo_world rx)"
  "tx_quiet (sk (demo_world rx))" "ms_initialized (store (demo_world rx))" "rx_data (sk (demo_world rx)) = rx"
  "tx_data (sk (demo_world rx)) = []"
  by (auto simp: demo_world_def demo_fs_def fs_ok_def fs_sizes_ok_def demo_opt_def rx_calm_def rx_quiet_def
      fs_quiet_def tx_quiet_def split: if_splits)

definition home_fs :: fsys where
  "home_fs = \<lparr>nodes = [[''/'', ''home'', ''b''] \<mapsto> FileN [1, 2, 3, 4, 5] 2], fds = Map.empty, next_fd = 6,
     fs_sched = [FsShort 2], fs_now = 20\<rparr>"

definition home_world :: "byte list \<Rightarrow> world" where
  "home_world rx =
     \<lparr>sk = \<lparr>sock_fd = 5, rx_data = rx, rx_sched = [RxUpTo 0], tx_data = [], tx_sched = [TxFail EINTR]\<rparr>,
      fs = home_fs, mem = [], store = message_store_zero, pid = 77, splice_direct = False\<rparr>"

lemma home_world_ok:
  "fs_ok (fs (home_world rx))" "fs_sizes_ok (fs (home_world rx))" "\<not> splice_direct (home_world rx)"
  "0 \<le> sock_fd (sk (home_world rx))" "rx_calm (home_world rx)" "tx_quiet (sk (home_world rx))"
  "rx_data (sk (home_world rx)) = rx" "tx_data (sk (home_world rx)) = []"
  by (auto simp: home_world_def home_fs_def fs_ok_def fs_sizes_ok_def rx_calm_def rx_quiet_def
      fs_quiet_def tx_quiet_def split: if_splits)

end
