(* ===== verification/Http_Session.thy ===== *)
theory Http_Session
  imports Http_Facts Message_Facts Examples
begin

text \<open>
  Whole HTTP connections (\<^verbatim>\<open>handle_http_connection\<close> of \<^verbatim>\<open>src/http.c\<close>): the request head, downloads, the
  message stream, and what any connection may change.
\<close>

section \<open>The request head\<close>

lemma http_read_header_loop_effect:
  "http_read_header_loop cap out s = (rc, block, s') \<Longrightarrow>
     rx_only s s' \<and> (\<exists>bs. block = out @ string_of_bytes bs \<and> rx_data s = bs @ rx_data s')"
proof (induction cap out s rule: http_read_header_loop.induct)
  case (1 cap out s)
  note unf = http_read_header_loop.simps [of cap out s]
  obtain r s1 where r: "recv 1 s = (r, s1)" by fastforce
  note rx = recv_rx_only [OF r]
  show ?case
  proof (cases "length out + 1 < cap")
    case False
    with "1.prems" unf show ?thesis by auto
  next
    case True
    from r show ?thesis
    proof (cases rule: recv_cases)
      case (fail e es)
      with "1.prems" unf True r rx show ?thesis by auto
    next
      case (data k es)
      show ?thesis
      proof (cases "take k (rx_data s)")
        case Nil
        with data have "rx_data s1 = rx_data s" by auto
        with "1.prems" unf True r rx data(4) Nil show ?thesis by auto
      next
        case (Cons b bs)
        with data(2,3) have k: "bs = []" "rx_data s = b # rx_data s1" using data(5)
          by (cases k; cases "rx_data s"; auto)+
        define out' where "out' = out @ [char_of_byte b]"
        show ?thesis
        proof (cases "length out' \<ge> 4 \<and> drop (length out' - 4) out' = [CHR 0x0D, CHR 0x0A, CHR 0x0D, CHR 0x0A]")
          case fin: True
          with "1.prems" unf True r data(4) Cons have "block = out'" "s' = s1" by (simp_all add: out'_def Let_def)
          with rx k show ?thesis by (auto simp: out'_def intro: exI [of _ "[b]"])
        next
          case go: False
          with "1.prems" unf True r data(4) Cons have "http_read_header_loop cap out' s1 = (rc, block, s')"
            by (auto simp: out'_def Let_def)
          from "1.IH" [OF True r [symmetric] data(4) Cons out'_def go this] rx k show ?thesis
            by (auto simp: out'_def intro: rx_only_trans exI [of _ "b # _"])
        qed
      qed
    qed
  qed
qed

lemma http_read_header_block_effect:
  assumes "http_read_header_block cap s = (rc, block, s')"
  shows "rx_only s s'" "rx_data s = bytes_of_string block @ rx_data s'"
  using assms http_read_header_loop_effect [of cap "[]" s rc block s']
  by (auto simp: http_read_header_block_def split: if_splits)

section \<open>Answers that change nothing\<close>

definition served :: "world \<Rightarrow> world \<Rightarrow> bool" where
  "served w w' \<longleftrightarrow> nodes (fs w') = nodes (fs w) \<and> fds (fs w') = fds (fs w) \<and> store w' = store w \<and>
     (\<exists>st. st \<noteq> 201 \<and> opens st w w')"

lemma turned_down_served: "turned_down w w' \<Longrightarrow> served w w'"
  using web_step_frame by (auto simp: turned_down_def served_def)

lemma global_store_snapshot_mem:
  assumes "global_store_snapshot v w = (rc, snap, w')"
  shows "mem_step w w'"
proof -
  obtain b w1 where m: "malloc w = (b, w1)" by fastforce
  with assms have "w' = w \<or> w' = w1" by (auto simp: global_store_snapshot_def Let_def split: if_splits prod.splits)
  with mem_step_malloc [OF m] show ?thesis by auto
qed

lemma http_handle_messages_latest_get_effect:
  assumes "http_handle_messages_latest_get w = (ok, w')"
  shows "turned_down w w'"
proof -
  obtain rc snap w1 where s: "global_store_snapshot 0 w = (rc, snap, w1)" by (metis prod_cases3)
  note s1 = local_step_of(1) [OF global_store_snapshot_mem [OF s]]
  let ?ss = "[''{\"has_message\":'', if snap_has_message snap then ''true'' else ''false'', '',\"message\":\"''] @
      (if snap_has_message snap then map http_json_escape_char (the (snap_message snap)) else []) @ [''\"}'']"
  obtain x w2 where x: "http_buf_append_all ?ss http_buf_zero w1 = (x, w2)" by fastforce
  have s2: "local_step w w2" by (rule local_step_trans [OF s1 local_step_of(1) [OF http_buf_append_all_effect(1) [OF x]]])
  have eq: "http_handle_messages_latest_get w =
      (if rc \<noteq> 0 then http_send_json_error 500 ''Internal Server Error'' ''failed to load message'' w1
       else case x of None \<Rightarrow> (False, w2) | Some response \<Rightarrow> http_send_response 200 ''OK'' JSON_TYPE (hb_data response) None w2)"
    unfolding http_handle_messages_latest_get_def s prod.case x by (cases x) simp_all
  consider (err) "http_send_json_error 500 ''Internal Server Error'' ''failed to load message'' w1 = (ok, w')"
    | (mem) "w' = w2" | (ok) body where "http_send_response 200 ''OK'' JSON_TYPE body None w2 = (ok, w')"
    using assms unfolding eq by (cases x) (auto split: if_splits)
  then show ?thesis
  proof cases
    case err
    from turned_down_local(1) [OF this _ s1] show ?thesis by simp
  next
    case mem
    with s2 show ?thesis by (auto simp: local_step_def intro: turned_down_silent)
  next
    case (ok body)
    from turned_down_local(2) [OF this _ s2] show ?thesis by simp
  qed
qed


section \<open>Downloads\<close>

lemma length_show_u64: "length (show_nat (unat (x :: u64))) \<le> 20"
proof -
  have "unat x < 2 ^ 64" using unsigned_less [of x] by simp
  then show ?thesis by (intro length_show_nat) simp_all
qed

lemma http_download_header_fits: "snprintf_checked 1024 (http_download_header sz nm) = Some (http_download_header sz nm)"
proof -
  have "length (http_safe_name nm) \<le> 511" by (simp add: http_safe_name_def)
  then have "length (http_download_header sz nm) < 1024" using length_show_u64 [of sz] by (simp add: http_download_header_def)
  then show ?thesis by (simp add: snprintf_checked_def)
qed

text \<open>A beginning of the header and the content was sent, all of it when \<open>ok\<close>.\<close>

definition download_answer :: "string \<Rightarrow> byte list \<Rightarrow> byte list" where
  "download_answer rel c =
     bytes_of_string (http_download_header (of_nat (length c)) (http_relative_basename rel)) @ c"

lemma http_send_file_opened:
  assumes dl: "app_prepare_download (so_path opt) rel (fs w) = (Inr dl, f1)"
    and opened: "download_opened full c (fs w) dl f1" and ok: "fs_ok (fs w)" "length c < 2 ^ 64" "0 \<le> sock_fd (sk w)"
    and run: "http_send_file opt rel w = (r, w')" "fs_validate_relative_path rel"
  shows "nodes (fs w') = nodes (fs w) \<and> fds (fs w') = fds (fs w) \<and> store w' = store w"
    and "\<exists>k. tx_data (sk w') = tx_data (sk w) @ take k (download_answer rel c) \<and> (r \<longrightarrow> k = length (download_answer rel c))"
    and "tx_quiet (sk w) \<Longrightarrow> r"
proof -
  define w1 where "w1 = w\<lparr>fs := f1\<rparr>"
  let ?h = "http_download_header (info_size (dl_info dl)) (http_relative_basename rel)"
  from opened have o: "reading f1 (dl_fd dl) (canon full) 0 c" "info_size (dl_info dl) = of_nat (length c)"
    "dl_fd dl = int (next_fd (fs w))" "nodes f1 = nodes (fs w)" "\<forall>d. d \<noteq> dl_fd dl \<longrightarrow> fds f1 d = fds (fs w) d"
    unfolding download_opened_def by blast+
  obtain ok1 w2 where h: "http_send_text ?h w1 = (ok1, w2)" by fastforce
  note a = http_send_text_answers [OF h]
  from a(1) have w2: "tx_step w1 w2" by (simp add: answers_def)
  obtain r3 w3 where s: "net_send_file_best_effort (dl_fd dl) (info_size (dl_info dl)) w2 = (r3, w3)" by fastforce
  have rd: "reading (fs w2) (dl_fd dl) (canon full) 0 c" using w2 o(1) by (simp add: tx_step_def w1_def)
  note se = net_send_file_best_effort_effect [OF s rd]
  define wn where "wn = (if ok1 then w3 else w2)"
  have sent: "http_send_file opt rel w = (ok1 \<and> r3 = NET_SEND_FILE_OK, wn\<lparr>fs := app_download_cleanup (dl_fd dl) (fs wn)\<rparr>)"
    using h by (cases ok1) (simp_all add: http_send_file_def run(2) dl s http_download_header_fits wn_def flip: w1_def)
  have res: "r = (ok1 \<and> r3 = NET_SEND_FILE_OK)" "w' = wn\<lparr>fs := app_download_cleanup (dl_fd dl) (fs wn)\<rparr>"
    using sent run(1) by simp_all
  have sz: "unat (info_size (dl_info dl)) = length c" using o(2) ok(2) by (simp add: unsigned_of_nat take_bit_nat_eq_self)
  have rds: "only_reads (dl_fd dl) f1 (fs wn)" "store wn = store w"
    using se w2 by (auto simp: wn_def sends_from_def tx_step_def io_frame_def w1_def only_reads_def)
  have none: "fds (fs w) (dl_fd dl) = None" using ok(1) o(3) by (simp add: fs_ok_def)
  show "nodes (fs w') = nodes (fs w) \<and> fds (fs w') = fds (fs w) \<and> store w' = store w"
    using fs_close_same [OF rds(1) none] o rds(2) res(2) by auto
  have tx1: "tx_data (sk w1) = tx_data (sk w)" "sk w1 = sk w" by (simp_all add: w1_def)
  show "\<exists>k. tx_data (sk w') = tx_data (sk w) @ take k (download_answer rel c) \<and> (r \<longrightarrow> k = length (download_answer rel c))"
  proof (cases ok1)
    case True
    with a(1) have "tx_data (sk w2) = tx_data (sk w) @ bytes_of_string ?h" using tx1 by (simp add: answers_ok)
    moreover from se obtain k where "tx_data (sk w3) = tx_data (sk w2) @ take k c" "r3 = NET_SEND_FILE_OK \<longrightarrow> k = length c"
      by (auto simp: sends_from_def sz)
    ultimately show ?thesis using True res o(2)
      by (intro exI [of _ "length ?h + k"]) (auto simp: wn_def download_answer_def)
  next
    case False
    with a(1) obtain k where "k \<le> length ?h" "tx_data (sk w2) = tx_data (sk w) @ take k (bytes_of_string ?h)"
      using tx1 by (auto simp: answers_def)
    with False res o(2) show ?thesis by (intro exI [of _ k]) (auto simp: wn_def download_answer_def)
  qed
  show r if "tx_quiet (sk w)"
  proof -
    have ok1 using a(2) that tx1 by simp
    moreover have "tx_quiet (sk w2)" using that tx1 tx_step_tx_quiet [OF w2] by simp
    moreover have "\<not> is_socket_invalid (sk w2)" using ok(3) w2 tx1 by (simp add: tx_step_def tx_only_def is_socket_invalid_def)
    ultimately show ?thesis
      using net_send_file_best_effort_quiet [OF _ rd _ _ _ s] sz o(3) res(1) by simp
  qed
qed


lemma json_error_served:
  assumes "http_send_json_error st reason msg w1 = (ok, w')" "st \<noteq> 201" "sk w1 = sk w" "nodes (fs w1) = nodes (fs w)"
    "fds (fs w1) = fds (fs w)" "store w1 = store w"
  shows "served w w'"
  using json_error_effect(1) [OF assms(1)] json_error_effect(2) [OF assms(1), of w] assms(2-)
  by (auto simp: served_def tx_step_def io_frame_def)

lemma download_opens:
  assumes "tx_data (sk w') = tx_data (sk w) @ take k (download_answer rel c)"
  shows "opens 200 w w'"
proof -
  have st: "status_line 200 = ''HTTP/1.1 200 ''" by code_simp
  define t where "t = drop (length (status_line 200)) (download_answer rel c)"
  have "download_answer rel c = bytes_of_string (status_line 200) @ t"
    by (simp add: t_def download_answer_def st http_download_header_def)
  then show ?thesis unfolding opens_def assms
    by (intro exI [of _ k] exI [of _ "take (k - length (status_line 200)) t"]) simp
qed

lemma http_send_file_effect:
  assumes run: "http_send_file opt rel w = (ok, w')" and "fs_ok (fs w)" "fs_sizes_ok (fs w)" "0 \<le> sock_fd (sk w)"
  obtains (refused) "served w w'" "\<exists>st reason msg w1. st \<in> {400, 404} \<and> sk w1 = sk w \<and> http_send_json_error st reason msg w1 = (ok, w')"
    "\<not> fs_validate_relative_path rel \<or> \<not> fs_quiet (fs w) \<or>
     (\<forall>full c m. fs_join_relative_path 4096 (so_path opt) (Some rel) = Some full \<longrightarrow> nodes (fs w) (canon full) \<noteq> Some (FileN c m))"
  | (sent) full c m k where "served w w'" "fs_validate_relative_path rel"
    "fs_join_relative_path 4096 (so_path opt) (Some rel) = Some full" "nodes (fs w) (canon full) = Some (FileN c m)"
    "tx_data (sk w') = tx_data (sk w) @ take k (download_answer rel c)" "ok \<longrightarrow> k = length (download_answer rel c)"
    "tx_quiet (sk w) \<longrightarrow> ok"
proof (cases "fs_validate_relative_path rel")
  case False
  with run have e: "http_send_json_error 400 ''Bad Request'' ''invalid file path'' w = (ok, w')" by (simp add: http_send_file_def)
  from json_error_served [OF e] have "served w w'" by simp
  with False e show thesis by (intro refused exI conjI) auto
next
  case True
  obtain x f1 where d: "app_prepare_download (so_path opt) rel (fs w) = (x, f1)" by fastforce
  note de = app_prepare_download_effect [OF d assms(2)]
  show thesis
  proof (cases x)
    case (Inl err)
    with run True d have e: "http_send_json_error 404 ''Not Found'' ''file not found'' (w\<lparr>fs := f1\<rparr>) = (ok, w')"
      by (simp add: http_send_file_def)
    from json_error_served [OF e, of w] de(1) [OF Inl] have "served w w'" by simp
    then show thesis
    proof (rule refused)
      show "\<exists>st reason msg w1. st \<in> {400, 404} \<and> sk w1 = sk w \<and> http_send_json_error st reason msg w1 = (ok, w')"
        using e by (intro exI conjI) auto
    qed (use de(3) Inl in blast)
  next
    case (Inr dl)
    from de(2) [OF Inr] obtain full c m where o: "fs_join_relative_path 4096 (so_path opt) (Some rel) = Some full"
      "nodes (fs w) (canon full) = Some (FileN c m)" "download_opened full c (fs w) dl f1" by blast
    have len: "length c < 2 ^ 64" using assms(3) o(2) by (auto simp: fs_sizes_ok_def)
    note s = http_send_file_opened [OF d [unfolded Inr] o(3) assms(2) len assms(4) run True]
    from s(2) obtain k where k: "tx_data (sk w') = tx_data (sk w) @ take k (download_answer rel c)"
      "ok \<longrightarrow> k = length (download_answer rel c)" by blast
    have "served w w'" using s(1) download_opens [OF k(1)] unfolding served_def by (intro conjI exI [of _ 200]) auto
    with True o(1,2) k s(3) show thesis by (intro sent [of full c m k]) auto
  qed
qed


text \<open>
C10: A download over HTTP is exact. If the answer to a \<^verbatim>\<open>GET\<close> below \<^verbatim>\<open>/api/files/\<close> carries status 200, the
name is valid and names a regular file below the receive directory, and what was sent is the header with
that file's length followed by its content: all of it when the handler reports success, a beginning of it
when the connection broke. No entry, descriptor or message changes. Conversely, when no call fails, an existing file with a valid name is answered so.
\<close>
theorem http_download_exact:
  assumes "http_send_file opt rel w = (ok, w')"
    and "fs_ok (fs w)" "fs_sizes_ok (fs w)" "0 \<le> sock_fd (sk w)" "so_path opt \<noteq> []"
  shows "nodes (fs w') = nodes (fs w) \<and> fds (fs w') = fds (fs w) \<and> store w' = store w \<and>
    (prefix (tx_data (sk w) @ bytes_of_string (status_line 200)) (tx_data (sk w')) \<longrightarrow>
      (\<exists>full c m. fs_validate_relative_path rel \<and> fs_join_relative_path 4096 (so_path opt) (Some rel) = Some full \<and>
         prefix (canon (so_path opt)) (canon full) \<and> nodes (fs w) (canon full) = Some (FileN c m) \<and>
         prefix (tx_data (sk w')) (tx_data (sk w) @ download_answer rel c) \<and>
         (ok \<longrightarrow> tx_data (sk w') = tx_data (sk w) @ download_answer rel c))) \<and>
    (\<forall>full c m. fs_quiet (fs w) \<and> tx_quiet (sk w) \<and> fs_validate_relative_path rel \<and>
       fs_join_relative_path 4096 (so_path opt) (Some rel) = Some full \<and> nodes (fs w) (canon full) = Some (FileN c m) \<longrightarrow>
       ok \<and> tx_data (sk w') = tx_data (sk w) @ download_answer rel c)"
  using assms(1-4)
proof (cases rule: http_send_file_effect)
  case refused
  then obtain st reason msg w1 where e: "st \<in> {400, 404}" "sk w1 = sk w" "http_send_json_error st reason msg w1 = (ok, w')"
    by blast
  from json_error_effect(2) [OF e(3), of w] e(2) have "opens st w w'" by simp
  with e(1) have "\<not> prefix (tx_data (sk w) @ bytes_of_string (status_line 200)) (tx_data (sk w'))"
    using opens_status [of st w w' 200] by auto
  with refused(1,3) show ?thesis by (auto simp: served_def)
next
  case (sent full c m k)
  from sent(2) have "rel \<noteq> []" by (auto simp: fs_validate_relative_path_def)
  with sent(3) assms(5) have "prefix (canon (so_path opt)) (canon full)" by (auto elim: fs_join_relative_path_confined)
  moreover have "prefix (tx_data (sk w')) (tx_data (sk w) @ download_answer rel c)"
    using sent(5) take_is_prefix by auto
  ultimately show ?thesis using sent by (auto simp: served_def)
qed

theorem http_download_exact_witness:
  "tx_data (sk (snd (http_send_file demo_opt ''a'' (demo_world [])))) =
     bytes_of_string (http_download_header 3 ''a'') @ [7, 8, 9]"
proof -
  have j: "fs_join_relative_path 4096 (so_path demo_opt) (Some ''a'') = Some ''/srv/a''" by code_simp
  have v: "fs_validate_relative_path ''a''" "canon ''/srv/a'' = [''/'', ''srv'', ''a'']" "http_relative_basename ''a'' = ''a''"
    by code_simp+
  have n: "nodes (fs (demo_world [])) [''/'', ''srv'', ''a''] = Some (FileN [7, 8, 9] 3)"
    by (simp add: demo_world_def demo_fs_def)
  have q: "fs_quiet (fs (demo_world []))" using demo_world_ok(6) by (simp add: rx_calm_def)
  from http_download_exact [OF surjective_pairing demo_world_ok(1,2,4,5), where rel = "''a''"] j v n q demo_world_ok(7,10)
  show ?thesis by (simp add: download_answer_def)
qed


section \<open>The message stream\<close>

text \<open>The text of an event: a message, or the comment that keeps the connection alive.\<close>

definition sse_event_text :: "string option \<Rightarrow> string" where
  "sse_event_text ev =
     (case ev of
        None \<Rightarrow> '': keep-alive'' @ [CHR 0x0A, CHR 0x0A]
      | Some m \<Rightarrow> (''event: message'' @ [CHR 0x0A]) @ ''data: '' @ concat (sse_lines m) @ [CHR 0x0A, CHR 0x0A])"

definition event_messages :: "string option list \<Rightarrow> string list" where
  "event_messages evs = concat (map (\<lambda>ev. case ev of None \<Rightarrow> [] | Some m \<Rightarrow> [m]) evs)"

definition round_ops :: "stream_round list \<Rightarrow> ms_op list" where
  "round_ops rounds = concat (map (\<lambda>r. concat (map event_ops (sr_waits r))) rounds)"

lemma http_send_sse_answers:
  "http_send_sse_keepalive w = (ok, w') \<Longrightarrow> answers (sse_event_text None) w ok w'"
  "http_send_sse_message_event (Some m) w = (ok, w') \<Longrightarrow> answers (sse_event_text (Some m)) w ok w'"
proof -
  show "answers (sse_event_text None) w ok w'" if "http_send_sse_keepalive w = (ok, w')"
    using http_send_text_answers(1) that by (auto simp: http_send_sse_keepalive_def sse_event_text_def)
  assume run: "http_send_sse_message_event (Some m) w = (ok, w')"
  let ?ss = "[''event: message'' @ [CHR 0x0A], ''data: ''] @ sse_lines m @ [[CHR 0x0A, CHR 0x0A]]"
  obtain x w1 where x: "http_buf_append_all ?ss http_buf_zero w = (x, w1)" by fastforce
  note e = http_buf_append_all_effect [OF x]
  show "answers (sse_event_text (Some m)) w ok w'"
  proof (cases x)
    case None
    with run x e(1) show ?thesis by (auto simp: http_send_sse_message_event_def intro: answers_nothing)
  next
    case (Some b)
    with e(2) [of b] have "hb_data b = sse_event_text (Some m)" by (simp add: sse_event_text_def http_buf_zero_def)
    with run x Some have "http_send_text (sse_event_text (Some m)) w1 = (ok, w')"
      by (simp add: http_send_sse_message_event_def)
    from answers_mem [OF e(1) http_send_text_answers(1) [OF this]] show ?thesis .
  qed
qed

lemma ms_run_ops_append: "ms_run_ops (xs @ ys) st = ms_run_ops ys (ms_run_ops xs st)"
  by (simp add: ms_run_ops_def)

lemma ms_wait_loop_ops:
  "ms_wait_loop known evs st = (ok, st') \<Longrightarrow> \<exists>ops. prefix ops (concat (map event_ops evs)) \<and> st' = ms_run_ops ops st"
proof (induction known evs st rule: ms_wait_loop.induct)
  case (1 known st)
  then show ?case by (auto simp: ms_run_ops_def)
next
  case (2 known e es st)
  show ?case
  proof (cases "ms_version st > known \<or> ms_shutting_down st \<or> (\<forall>ops. e \<noteq> Wakes ops)")
    case True
    then have "st' = ms_run_ops [] st \<or> st' = ms_run_ops (event_ops e) st"
      using "2.prems"(1) by (cases e) (auto simp: ms_run_ops_def split: if_splits)
    then obtain ops where "ops = [] \<or> ops = event_ops e" "st' = ms_run_ops ops st" by blast
    then show ?thesis by (intro exI [of _ ops]) auto
  next
    case False
    then obtain ops where e: "e = Wakes ops" by auto
    with False "2.prems"(1) have "ms_wait_loop known es (ms_run_ops ops st) = (ok, st')" by auto
    from "2.IH" [OF _ _ e this] False obtain more where "prefix more (concat (map event_ops es))"
      "st' = ms_run_ops more (ms_run_ops ops st)" by auto
    then show ?thesis by (intro exI [of _ "ops @ more"]) (simp add: e ms_run_ops_append)
  qed
qed

lemma global_store_wait_effect:
  assumes "global_store_wait ver evs w = (rc, snap, w')"
  shows "\<exists>ops. prefix ops (concat (map event_ops evs)) \<and> store w' = ms_run_ops ops (store w)"
    and "fs w' = fs w" "sk w' = sk w"
    and "rc = 0 \<Longrightarrow> snap_version snap = ms_version (store w') \<and>
      (if ver < ms_version (store w') \<and> ms_message (store w') \<noteq> None
       then snap_message snap = ms_message (store w') \<and> snap_has_message snap
       else snap_message snap = None \<and> \<not> snap_has_message snap)"
proof -
  obtain b w1 where m: "malloc w = (b, w1)" by fastforce
  note mf = mem_step_frame [OF mem_step_malloc [OF m]]
  obtain alloc wa where a: "(if snap_message (fst (snd (message_store_wait_for_update ver evs True (store w)))) \<noteq> None
      then malloc w else (False, w)) = (alloc, wa)" by fastforce
  then have wa: "wa = w \<or> wa = w1" using m by (auto split: if_splits)
  obtain rc1 sn st1 where wt: "message_store_wait_for_update ver evs alloc (store w) = (rc1, sn, st1)" by (metis prod_cases3)
  have res: "rc = rc1" "snap = sn" "w' = wa\<lparr>store := st1\<rparr>"
    using assms unfolding global_store_wait_def a Let_def prod.case wt by simp_all
  obtain ok st2 where lp: "ms_wait_loop ver evs (store w) = (ok, st2)" by fastforce
  from wt lp have st1: "st1 = store w \<or> st1 = st2"
    by (auto simp: message_store_wait_for_update_def Let_def split: if_splits bool.splits option.splits)
  have "store w = ms_run_ops [] (store w)" by (simp add: ms_run_ops_def)
  with st1 ms_wait_loop_ops [OF lp] have "\<exists>ops. prefix ops (concat (map event_ops evs)) \<and> st1 = ms_run_ops ops (store w)"
    by (metis Nil_prefix)
  with res(3) show "\<exists>ops. prefix ops (concat (map event_ops evs)) \<and> store w' = ms_run_ops ops (store w)" by simp
  show "fs w' = fs w" "sk w' = sk w" using res(3) wa mf by auto
  show "snap_version snap = ms_version (store w') \<and>
      (if ver < ms_version (store w') \<and> ms_message (store w') \<noteq> None
       then snap_message snap = ms_message (store w') \<and> snap_has_message snap
       else snap_message snap = None \<and> \<not> snap_has_message snap)" if "rc = 0"
    using that res wt lp
    by (auto simp: message_store_wait_for_update_def Let_def split: if_splits bool.splits option.splits)
qed


text \<open>
  What the rounds of the loop do, when the subscriber knows the whole history so far: the messages it is sent are
  accepted ones, in order, none twice, and as long as the loop runs it is up to date.
\<close>

definition stream_follows ::
  "ms_op list \<Rightarrow> string option list \<Rightarrow> nat \<Rightarrow> world \<Rightarrow> int option \<Rightarrow> world \<Rightarrow> bool" where
  "stream_follows ops evs k w r w' \<longleftrightarrow>
     (let new = concat (map accepted ops); sent = bytes_of_string (concat (map sse_event_text evs)) in
      fs w' = fs w \<and> store w' = ms_run_ops ops (store w) \<and> tx_data (sk w') = tx_data (sk w) @ take k sent \<and>
      subseq (event_messages evs) (map ms_trimmed new) \<and>
      (r = None \<longrightarrow> k = length sent \<and>
         (new \<noteq> [] \<longrightarrow> event_messages evs \<noteq> [] \<and> last (event_messages evs) = ms_trimmed (last new))))"

lemma stream_follows_stop:
  assumes "fs w1 = fs w" "sk w1 = sk w" "store w1 = ms_run_ops ops (store w)"
  shows "stream_follows ops [] 0 w (Some c) w1"
  using assms by (simp add: stream_follows_def event_messages_def)

lemma length_accepted: "length (concat (map accepted ops)) \<le> length ops"
proof (induction ops)
  case (Cons op ops)
  then show ?case by (cases op) auto
qed simp

lemma stream_follows_step:
  assumes w1: "fs w1 = fs w" "sk w1 = sk w" "store w1 = ms_run_ops ops (store w)"
    and ev: "ev = (if concat (map accepted ops) = [] then None else Some (ms_trimmed (last (concat (map accepted ops)))))"
    and sent: "answers (sse_event_text ev) w1 ok w2"
    and go: "if ok then stream_follows ops' evs k w2 r w' else w' = w2 \<and> r \<noteq> None \<and> ops' = [] \<and> evs = [] \<and> k = 0"
  shows "\<exists>k. stream_follows (ops @ ops') (ev # evs) k w r w'"
proof -
  define new new' where "new = concat (map accepted ops)" and "new' = concat (map accepted ops')"
  note nd = new_def [symmetric] new'_def [symmetric]
  have w2: "fs w2 = fs w" "store w2 = ms_run_ops ops (store w)" using sent w1 by (auto simp: answers_def tx_step_def io_frame_def)
  have single: "event_messages [ev] = (if new = [] then [] else [ms_trimmed (last new)])"
    unfolding ev nd by (simp add: event_messages_def)
  then have one: "subseq (event_messages [ev]) (map ms_trimmed new)" by (simp add: subseq_singleton_left)
  have em: "event_messages (ev # evs) = event_messages [ev] @ event_messages evs" by (simp add: event_messages_def)
  show ?thesis
  proof (cases ok)
    case True
    with go have g: "stream_follows ops' evs k w2 r w'" by simp
    from sent True w1(2) have tx: "tx_data (sk w2) = tx_data (sk w) @ bytes_of_string (sse_event_text ev)"
      by (simp add: answers_ok)
    have sub: "subseq (event_messages evs) (map ms_trimmed new')" using g by (simp add: stream_follows_def Let_def nd)
    have "subseq (event_messages (ev # evs)) (map ms_trimmed (new @ new'))"
      unfolding em map_append using one sub by (rule list_emb_append_mono)
    moreover have "event_messages (ev # evs) \<noteq> [] \<and> last (event_messages (ev # evs)) = ms_trimmed (last (new @ new'))"
      if "r = None" "new @ new' \<noteq> []"
    proof (cases "new' = []")
      case True
      with sub that show ?thesis unfolding em single by (auto dest: list_emb_Nil2)
    next
      case False
      with g that(1) show ?thesis unfolding em by (simp add: stream_follows_def Let_def nd)
    qed
    ultimately show ?thesis
      using g tx w2 unfolding stream_follows_def Let_def map_append concat_append nd
      by (intro exI [of _ "length (sse_event_text ev) + k"]) (simp add: ms_run_ops_append)
  next
    case False
    with go have g: "w' = w2" "r \<noteq> None" "ops' = []" "evs = []" by simp_all
    from sent obtain j where "tx_data (sk w2) = tx_data (sk w1) @ take j (bytes_of_string (sse_event_text ev))"
      by (auto simp: answers_def)
    with g w1 w2 one show ?thesis by (intro exI [of _ j]) (auto simp: stream_follows_def Let_def nd)
  qed
qed


lemma of_nat_u64_less: "a < 2 ^ 64 \<Longrightarrow> b < 2 ^ 64 \<Longrightarrow> ((of_nat a :: u64) < of_nat b) = (a < b)"
  by (simp add: word_less_nat_alt unsigned_of_nat take_bit_nat_eq_self)

lemma http_stream_loop_follows:
  assumes "http_stream_loop (of_nat (length hist)) rounds w = (r, w')" "tracks hist (store w)"
    "length hist + length (round_ops rounds) < 2 ^ 64"
  shows "\<exists>ops evs k. subseq ops (round_ops rounds) \<and> stream_follows ops evs k w r w'"
  using assms
proof (induction rounds arbitrary: hist w)
  case Nil
  then have "stream_follows [] [] 0 w r w'" by (simp add: stream_follows_def event_messages_def ms_run_ops_def)
  then show ?case by (auto simp: round_ops_def)
next
  case (Cons rd rounds)
  let ?ver = "of_nat (length hist) :: u64" and ?all = "concat (map event_ops (sr_waits rd))"
  have ro: "round_ops (rd # rounds) = ?all @ round_ops rounds" by (simp add: round_ops_def)
  obtain rc snap w1 where wt: "global_store_wait ?ver (sr_waits rd) w = (rc, snap, w1)" by (metis prod_cases3)
  note we = global_store_wait_effect [OF wt]
  from we(1) obtain ops where ops: "prefix ops ?all" "store w1 = ms_run_ops ops (store w)" by blast
  define new where "new = concat (map accepted ops)"
  have t: "tracks (hist @ new) (store w1)" using tracks_ops [OF Cons.prems(2)] ops(2) by (simp add: new_def)
  have len: "length hist + length new + length (round_ops rounds) < 2 ^ 64"
    using Cons.prems(3) prefix_length_le [OF ops(1)] length_accepted [of ops] by (simp add: ro new_def)
  have less: "(?ver < ms_version (store w1)) = (new \<noteq> [])"
    using t len of_nat_u64_less [of "length hist" "length (hist @ new)"] by (simp add: tracks_def)
  define ev where "ev = (if new = [] then None else Some (ms_trimmed (last new)))"
  have snap: "snap_version snap = of_nat (length (hist @ new))" "snap_message snap = ev" "snap_has_message snap = (new \<noteq> [])"
    if "rc = 0"
    using we(4) [OF that] t less by (auto simp: tracks_def ev_def split: if_splits)
  have sub: "subseq (ops @ more) (round_ops (rd # rounds))" if "subseq more (round_ops rounds)" for more
    unfolding ro using ops(1) that by (intro list_emb_append_mono) (auto intro: prefix_imp_subseq)
  show ?case
  proof (cases "rc \<noteq> 0 \<or> sr_shutdown rd")
    case True
    with Cons.prems(1) wt have "w' = w1" "\<exists>c. r = Some c" by (auto split: if_splits)
    with stream_follows_stop [OF we(2,3) ops(2)] sub [of "[]"] show ?thesis by auto
  next
    case False
    then have rc: "rc = 0" by simp
    obtain ok w2 where snd: "(if ev = None then http_send_sse_keepalive w1 else http_send_sse_message_event ev w1) = (ok, w2)"
      by fastforce
    have ans: "answers (sse_event_text ev) w1 ok w2"
      using snd http_send_sse_answers by (cases ev) auto
    have run: "(if ok then http_stream_loop (of_nat (length (hist @ new))) rounds w2 else (Some 1, w2)) = (r, w')"
      using Cons.prems(1) wt False snap [OF rc] snd by (cases ok; cases ev) (auto simp: ev_def split: if_splits)
    note step = stream_follows_step [OF we(2,3) ops(2) ev_def [unfolded new_def] ans]
    show ?thesis
    proof (cases ok)
      case True
      have "tracks (hist @ new) (store w2)" using ans t by (simp add: answers_def tx_step_def io_frame_def)
      from Cons.IH [OF _ this] run True len obtain more evs k where m: "subseq more (round_ops rounds)"
        "stream_follows more evs k w2 r w'" by auto
      from step [of more evs k r w'] True m(2) sub [OF m(1)] show ?thesis by auto
    next
      case False
      with run step [of "[]" "[]" 0 r w'] sub [of "[]"] show ?thesis by auto
    qed
  qed
qed


lemma answers_tx:
  assumes "answers t w True w'"
  shows "fs w' = fs w" "store w' = store w" "tx_data (sk w') = tx_data (sk w) @ bytes_of_string t"
  using assms answers_ok [OF assms] by (simp_all add: answers_def tx_step_def io_frame_def)

lemma last_as_drop: "xs \<noteq> [] \<Longrightarrow> drop (length xs - 1) xs = [last xs]"
  by (cases xs rule: rev_cases) simp_all

text \<open>The snapshot a subscriber starts from.\<close>

lemma global_store_snapshot_tracks:
  assumes "global_store_snapshot v w = (rc, snap, w')" "tracks hist (store w)"
  shows "rc = 0 \<Longrightarrow> snap_version snap = of_nat (length hist) \<and> snap_has_message snap = (hist \<noteq> []) \<and>
      snap_message snap = (if hist = [] then None else Some (ms_trimmed (last hist)))"
    and "False \<notin> set (mem w) \<Longrightarrow> rc = 0"
  using assms
  by (auto simp: global_store_snapshot_def message_store_get_snapshot_def tracks_def Let_def
      elim!: malloc_effect split: if_splits prod.splits option.splits)

lemma http_stream_start:
  assumes "http_handle_messages_stream rounds w = (r, w')"
  obtains (headers) w1 where "answers sse_headers w False w1" "w' = w1" "r = Some 1"
  | (snapshot) rc snap w1 where "answers sse_headers w True w1" "global_store_snapshot 0 w1 = (rc, snap, w')" "r = Some 1" "rc \<noteq> 0"
  | (first) snap w1 w2 where "answers sse_headers w True w1" "global_store_snapshot 0 w1 = (0, snap, w2)"
      "snap_has_message snap" "http_send_sse_message_event (snap_message snap) w2 = (False, w')" "r = Some 1"
  | (loop) snap w1 w2 w3 where "answers sse_headers w True w1" "global_store_snapshot 0 w1 = (0, snap, w2)"
      "if snap_has_message snap then http_send_sse_message_event (snap_message snap) w2 = (True, w3) else w3 = w2"
      "http_stream_loop (snap_version snap) rounds w3 = (r, w')"
proof -
  obtain ok w1 where h: "http_send_sse_headers w = (ok, w1)" by fastforce
  note a = http_send_text_answers(1) [OF h [unfolded http_send_sse_headers_def]]
  obtain rc snap w2 where s: "global_store_snapshot 0 w1 = (rc, snap, w2)" by (metis prod_cases3)
  obtain ok2 w3 where e: "(if snap_has_message snap then http_send_sse_message_event (snap_message snap) w2 else (True, w2)) = (ok2, w3)"
    by fastforce
  have eq: "(r, w') = (if \<not> ok then (Some 1, w1) else if rc \<noteq> 0 then (Some 1, w2) else if \<not> ok2 then (Some 1, w3)
      else http_stream_loop (snap_version snap) rounds w3)"
    unfolding assms [symmetric] http_handle_messages_stream_def h prod.case s e by (cases ok; cases ok2) simp_all
  show thesis
  proof (cases "ok \<and> rc = 0 \<and> ok2")
    case True
    with a s e eq show thesis by (intro loop [of w1 snap w2 w3]) (auto split: if_splits)
  next
    case False
    with a s e eq headers snapshot first show thesis by (cases ok; cases "rc = 0"; cases ok2) (auto split: if_splits)
  qed
qed

text \<open>The stream once its headers and the first message are out.\<close>

lemma http_stream_started_follows:
  assumes loop: "answers sse_headers w True w1" "global_store_snapshot 0 w1 = (0, snap, w2)"
      "if snap_has_message snap then http_send_sse_message_event (snap_message snap) w2 = (True, w3) else w3 = w2"
      "http_stream_loop (snap_version snap) rounds w3 = (r, w')"
    and hist: "tracks hist (store w)" "length hist + length (round_ops rounds) < 2 ^ 64"
  shows "\<exists>ops new evs k. subseq ops (round_ops rounds) \<and> new = concat (map accepted ops) \<and>
    fs w' = fs w \<and> store w' = ms_run_ops ops (store w) \<and>
    tx_data (sk w') = tx_data (sk w) @ take k (bytes_of_string (sse_headers @ concat (map sse_event_text evs))) \<and>
    subseq (event_messages evs) (map ms_trimmed (drop (length hist - 1) hist @ new)) \<and>
    (r = None \<longrightarrow> k = length (sse_headers @ concat (map sse_event_text evs)) \<and>
       (hist @ new \<noteq> [] \<longrightarrow> event_messages evs \<noteq> [] \<and> last (event_messages evs) = ms_trimmed (last (hist @ new))))"
proof -
  note w1 = answers_tx [OF loop(1)] and m = mem_step_frame [OF global_store_snapshot_mem [OF loop(2)]]
  have t: "tracks hist (store w1)" using hist(1) w1 by simp
  note snap = global_store_snapshot_tracks(1) [OF loop(2) t refl]
  define evs0 where "evs0 = (if hist = [] then [] else [Some (ms_trimmed (last hist))])"
  have w3: "fs w3 = fs w \<and> store w3 = store w \<and>
      tx_data (sk w3) = tx_data (sk w) @ bytes_of_string (sse_headers @ concat (map sse_event_text evs0))"
  proof (cases "hist = []")
    case False
    with loop(3) snap have "http_send_sse_message_event (Some (ms_trimmed (last hist))) w2 = (True, w3)" by simp
    from answers_tx [OF http_send_sse_answers(2) [OF this]] w1 m False show ?thesis by (simp add: evs0_def)
  qed (use loop(3) snap w1 m in \<open>simp add: evs0_def\<close>)
  from http_stream_loop_follows [of hist rounds w3 r w'] loop(4) snap hist w3 obtain ops evs k where
    f: "subseq ops (round_ops rounds)" "stream_follows ops evs k w3 r w'" by auto
  define new where "new = concat (map accepted ops)"
  have g: "fs w' = fs w3" "store w' = ms_run_ops ops (store w3)"
    "tx_data (sk w') = tx_data (sk w3) @ take k (bytes_of_string (concat (map sse_event_text evs)))"
    "subseq (event_messages evs) (map ms_trimmed new)"
    "r = None \<longrightarrow> k = length (concat (map sse_event_text evs)) \<and>
       (new \<noteq> [] \<longrightarrow> event_messages evs \<noteq> [] \<and> last (event_messages evs) = ms_trimmed (last new))"
    using f(2) by (simp_all add: stream_follows_def Let_def new_def)
  have em: "event_messages (evs0 @ evs) = map ms_trimmed (drop (length hist - 1) hist) @ event_messages evs"
    using last_as_drop [of hist] by (simp add: event_messages_def evs0_def)
  have "subseq (event_messages (evs0 @ evs)) (map ms_trimmed (drop (length hist - 1) hist @ new))"
    unfolding em map_append using g(4) by (intro list_emb_append_mono) simp_all
  moreover have "event_messages (evs0 @ evs) \<noteq> [] \<and> last (event_messages (evs0 @ evs)) = ms_trimmed (last (hist @ new))"
    if "r = None" "hist @ new \<noteq> []"
  proof (cases "new = []")
    case True
    then have "event_messages evs = []" using g(4) by (auto dest: list_emb_Nil2)
    with True that last_as_drop [of hist] show ?thesis unfolding em by simp
  next
    case False
    then show ?thesis using g(5) that(1) unfolding em by simp
  qed
  ultimately show ?thesis
    using f(1) g w3 new_def
    by (intro exI [of _ ops] exI [of _ new] exI [of _ "evs0 @ evs"]
        exI [of _ "length (sse_headers @ concat (map sse_event_text evs0)) + k"]) simp
qed

text \<open>
C11: A subscriber of the message stream follows the store. Whatever other threads do while the handler waits, the
messages it sends are accepted messages, trimmed, in the order of their acceptance, starting with the one
that was current when the stream was opened and none of them twice; as long as the handler runs and the connection
holds, the last message the subscriber was sent is the current one. The stream itself changes neither the store nor any file.
\<close>
theorem http_stream_follows_history:
  assumes "http_handle_messages_stream rounds w = (r, w')" "tracks hist (store w)"
    "length hist + length (round_ops rounds) < 2 ^ 64"
  shows "\<exists>ops new evs k. subseq ops (round_ops rounds) \<and> new = concat (map accepted ops) \<and>
    fs w' = fs w \<and> store w' = ms_run_ops ops (store w) \<and>
    tx_data (sk w') = tx_data (sk w) @ take k (bytes_of_string (sse_headers @ concat (map sse_event_text evs))) \<and>
    subseq (event_messages evs) (map ms_trimmed (drop (length hist - 1) hist @ new)) \<and>
    (r = None \<longrightarrow> k = length (sse_headers @ concat (map sse_event_text evs)) \<and>
       (hist @ new \<noteq> [] \<longrightarrow> event_messages evs \<noteq> [] \<and> last (event_messages evs) = ms_trimmed (last (hist @ new))))"
  using assms(1)
proof (cases rule: http_stream_start)
  case (headers w1)
  then show ?thesis
    by (intro exI [of _ "[]"]) (auto simp: answers_def tx_step_def io_frame_def ms_run_ops_def event_messages_def)
next
  case (snapshot rc snap w1)
  note w1 = answers_tx [OF snapshot(1)] and m = mem_step_frame [OF global_store_snapshot_mem [OF snapshot(2)]]
  show ?thesis
    using snapshot(3) w1 m by (intro exI [of _ "[]"] exI [of _ "length sse_headers"]) (simp add: ms_run_ops_def event_messages_def)
next
  case (first snap w1 w2)
  note w1 = answers_tx [OF first(1)] and m = mem_step_frame [OF global_store_snapshot_mem [OF first(2)]]
  have "tracks hist (store w1)" using assms(2) w1 by simp
  from global_store_snapshot_tracks(1) [OF first(2) this] first(3) have h: "hist \<noteq> []" "snap_message snap = Some (ms_trimmed (last hist))"
    by auto
  from http_send_sse_answers(2) [OF first(4) [unfolded h(2)]] obtain k where
    "tx_data (sk w') = tx_data (sk w2) @ take k (bytes_of_string (sse_event_text (Some (ms_trimmed (last hist)))))"
    "fs w' = fs w2" "store w' = store w2" by (auto simp: answers_def tx_step_def io_frame_def)
  with first(5) w1 m last_as_drop [OF h(1)] show ?thesis
    by (intro exI [of _ "[]"] exI [of _ "[Some (ms_trimmed (last hist))]"] exI [of _ "length sse_headers + k"])
      (simp add: ms_run_ops_def event_messages_def)
next
  case (loop snap w1 w2 w3)
  from http_stream_started_follows [OF this assms(2,3)] show ?thesis .
qed

theorem http_stream_follows_history_witness:
  "let rounds = [\<lparr>sr_waits = [Wakes [], Wakes [MsSet True ''x '', MsSet True ''y'']], sr_shutdown = False\<rparr>,
                 \<lparr>sr_waits = [Wakes [MsShutdown]], sr_shutdown = True\<rparr>];
       w' = snd (http_handle_messages_stream rounds (demo_world [])) in
   \<exists>ops evs k. subseq ops [MsSet True ''x '', MsSet True ''y'', MsShutdown] \<and> fs w' = demo_fs \<and>
     tx_data (sk w') = take k (bytes_of_string (sse_headers @ concat (map sse_event_text evs))) \<and>
     subseq (event_messages evs) (map ms_trimmed (concat (map accepted ops)))"
proof -
  let ?rounds = "[\<lparr>sr_waits = [Wakes [], Wakes [MsSet True ''x '', MsSet True ''y'']], sr_shutdown = False\<rparr>,
                 \<lparr>sr_waits = [Wakes [MsShutdown]], sr_shutdown = True\<rparr>]"
  have t: "tracks [] (store (demo_world []))" by (simp add: tracks_def demo_world_def)
  have ro: "round_ops ?rounds = [MsSet True ''x '', MsSet True ''y'', MsShutdown]" by (simp add: round_ops_def)
  from http_stream_follows_history [OF surjective_pairing t, of ?rounds] ro
  obtain ops evs k where "subseq ops [MsSet True ''x '', MsSet True ''y'', MsShutdown]"
    "fs (snd (http_handle_messages_stream ?rounds (demo_world []))) = fs (demo_world [])"
    "tx_data (sk (snd (http_handle_messages_stream ?rounds (demo_world [])))) =
       tx_data (sk (demo_world [])) @ take k (bytes_of_string (sse_headers @ concat (map sse_event_text evs)))"
    "subseq (event_messages evs) (map ms_trimmed (concat (map accepted ops)))" by auto
  then show ?thesis unfolding Let_def by (intro exI conjI) (simp_all add: demo_world_def)
qed

section \<open>Events as the subscriber reads them\<close>

text \<open>
  The reading of an event as the event-stream format defines it: a line ends at a line feed, a carriage return, or both;
  an empty line ends the event; the values of its data fields are joined with line feeds.
\<close>

fun sse_unix_lines :: "string \<Rightarrow> string" where
  "sse_unix_lines [] = []"
| "sse_unix_lines (c # cs) =
     (if c \<noteq> CHR 0x0D then c # sse_unix_lines cs
      else case cs of [] \<Rightarrow> [CHR 0x0A] | d # ds \<Rightarrow> CHR 0x0A # sse_unix_lines (if d = CHR 0x0A then ds else cs))"

fun join_lines :: "string list \<Rightarrow> string" where
  "join_lines [] = []"
| "join_lines [l] = l"
| "join_lines (l # ls) = l @ CHR 0x0A # join_lines ls"

definition sse_event_data :: "string \<Rightarrow> string" where
  "sse_event_data t =
     join_lines (map (drop 6) (filter (prefix ''data: '') (takeWhile (\<lambda>l. l \<noteq> []) (split_on (CHR 0x0A) (sse_unix_lines t)))))"










text \<open>What follows a carriage return is lost: the subscriber takes it for a field it does not know.\<close>

lemma sse_event_cr_lost: "sse_event_data (sse_event_text (Some (''a'' @ CHR 0x0D # ''b''))) = ''a''"
  by code_simp


section \<open>Whole connections\<close>

lemma http_stream_loop_store:
  "http_stream_loop ver rounds w = (r, w') \<Longrightarrow>
     (\<exists>ops. subseq ops (round_ops rounds) \<and> store w' = ms_run_ops ops (store w)) \<and> fs w' = fs w \<and>
     prefix (tx_data (sk w)) (tx_data (sk w')) \<and> (r = None \<longrightarrow> (\<forall>rd \<in> set rounds. \<not> sr_shutdown rd))"
proof (induction rounds arbitrary: ver w)
  case Nil
  then show ?case by (auto simp: round_ops_def ms_run_ops_def intro: exI [of _ "[]"])
next
  case (Cons rd rounds)
  let ?all = "concat (map event_ops (sr_waits rd))"
  have ro: "round_ops (rd # rounds) = ?all @ round_ops rounds" by (simp add: round_ops_def)
  obtain rc snap w1 where wt: "global_store_wait ver (sr_waits rd) w = (rc, snap, w1)" by (metis prod_cases3)
  note we = global_store_wait_effect [OF wt]
  from we(1) obtain ops where ops: "prefix ops ?all" "store w1 = ms_run_ops ops (store w)" by blast
  have sub: "subseq (ops @ more) (round_ops (rd # rounds))" if "subseq more (round_ops rounds)" for more
    unfolding ro using ops(1) that by (intro list_emb_append_mono) (auto intro: prefix_imp_subseq)
  show ?case
  proof (cases "rc \<noteq> 0 \<or> sr_shutdown rd")
    case True
    with Cons.prems(1) wt have "w' = w1" "r \<noteq> None" by (auto split: if_splits)
    with we(2,3) ops(2) sub [of "[]"] show ?thesis by auto
  next
    case False
    define ev where "ev = snap_message snap"
    obtain ok w2 where snd: "(if ev = None then http_send_sse_keepalive w1 else http_send_sse_message_event ev w1) = (ok, w2)"
      by fastforce
    have "answers (sse_event_text ev) w1 ok w2" using snd http_send_sse_answers by (cases ev) auto
    then have w2: "fs w2 = fs w" "store w2 = store w1" "prefix (tx_data (sk w)) (tx_data (sk w2))"
      using we(2,3) by (auto simp: answers_def tx_step_def io_frame_def)
    have run: "(if ok then http_stream_loop (snap_version snap) rounds w2 else (Some 1, w2)) = (r, w')"
      using Cons.prems(1) wt False snd we(4) by (cases ok; cases ev) (auto simp: ev_def split: if_splits)
    show ?thesis
    proof (cases ok)
      case True
      with Cons.IH [of "snap_version snap" w2] run obtain more where m: "subseq more (round_ops rounds)"
        "store w' = ms_run_ops more (store w2)" "fs w' = fs w2" "prefix (tx_data (sk w2)) (tx_data (sk w'))"
        "r = None \<longrightarrow> (\<forall>rd \<in> set rounds. \<not> sr_shutdown rd)" by auto
      with sub [OF m(1)] w2 ops(2) False show ?thesis
        by (auto simp: ms_run_ops_append intro: prefix_order.trans)
    next
      case False
      with run w2 ops(2) sub [of "[]"] show ?thesis by auto
    qed
  qed
qed

lemma opens_more: "opens st w w1 \<Longrightarrow> prefix (tx_data (sk w1)) (tx_data (sk w')) \<Longrightarrow>
    prefix (tx_data (sk w) @ bytes_of_string (status_line st)) (tx_data (sk w1)) \<Longrightarrow> opens st w w'"
  by (auto simp: opens_def prefix_def intro!: exI [of _ "length (status_line st)"])

lemma sse_headers_status: "sse_headers = status_line 200 @ drop 13 sse_headers"
  by code_simp

lemma global_store_snapshot_has: "global_store_snapshot v w = (rc, snap, w') \<Longrightarrow> snap_has_message snap \<Longrightarrow> snap_message snap \<noteq> None"
  by (auto simp: global_store_snapshot_def message_store_get_snapshot_def Let_def split: if_splits prod.splits option.splits)

lemma http_handle_messages_stream_effect:
  assumes "http_handle_messages_stream rounds w = (r, w')"
  shows "(\<exists>ops. subseq ops (round_ops rounds) \<and> store w' = ms_run_ops ops (store w)) \<and> fs_untouched (fs w) (fs w') \<and> opens 200 w w' \<and>
    (r = None \<longrightarrow> (\<forall>rd \<in> set rounds. \<not> sr_shutdown rd))"
proof -
  have op: "opens 200 w w1" if "answers sse_headers w ok w1" for ok w1
    using that by (subst (asm) sse_headers_status) (rule answers_opens [OF _ refl])
  have more: "opens 200 w w2" if a: "answers sse_headers w True w1" and "prefix (tx_data (sk w1)) (tx_data (sk w2))" for w1 w2
  proof (rule opens_more [OF op [OF a] that(2)])
    have "bytes_of_string sse_headers = bytes_of_string (status_line 200) @ bytes_of_string (drop 13 sse_headers)"
      by (subst sse_headers_status) simp
    then show "prefix (tx_data (sk w) @ bytes_of_string (status_line 200)) (tx_data (sk w1))"
      using answers_ok [OF a] by (simp add: prefix_def)
  qed
  have none: "subseq [] (round_ops rounds) \<and> store w = ms_run_ops [] (store w)" by (simp add: ms_run_ops_def)
  show ?thesis
    using assms
  proof (cases rule: http_stream_start)
    case (headers w1)
    then show ?thesis using op none by (auto simp: answers_def tx_step_def io_frame_def)
  next
    case (snapshot rc snap w1)
    with answers_tx [OF snapshot(1)] mem_step_frame [OF global_store_snapshot_mem [OF snapshot(2)]] more none show ?thesis by auto
  next
    case (first snap w1 w2)
    note w1 = answers_tx [OF first(1)] and m = mem_step_frame [OF global_store_snapshot_mem [OF first(2)]]
    from global_store_snapshot_has [OF first(2,3)] first(4) http_send_sse_answers(2) [of "the (snap_message snap)" w2 False w'] have
      "answers (sse_event_text (snap_message snap)) w2 False w'" by auto
    then have "fs w' = fs w \<and> store w' = store w \<and> prefix (tx_data (sk w1)) (tx_data (sk w'))"
      using w1 m by (auto simp: answers_def tx_step_def io_frame_def)
    with first(1,5) more none show ?thesis by auto
  next
    case (loop snap w1 w2 w3)
    note w1 = answers_tx [OF loop(1)] and m = mem_step_frame [OF global_store_snapshot_mem [OF loop(2)]]
    have w3: "fs w3 = fs w \<and> store w3 = store w \<and> prefix (tx_data (sk w1)) (tx_data (sk w3))"
    proof (cases "snap_has_message snap")
      case True
      from global_store_snapshot_has [OF loop(2) True] True loop(3) http_send_sse_answers(2) [of "the (snap_message snap)" w2 True w3] have
        "answers (sse_event_text (snap_message snap)) w2 True w3" by auto
      from answers_tx [OF this] w1 m show ?thesis by simp
    qed (use loop(3) w1 m in simp)
    note l = http_stream_loop_store [OF loop(4)]
    from l w3 have "prefix (tx_data (sk w1)) (tx_data (sk w'))" by (auto intro: prefix_order.trans)
    with l w3 more [OF loop(1)] show ?thesis by auto
  qed
qed


lemma served_head:
  assumes "served w1 w'" "fs w1 = fs w" "store w1 = store w" "tx_data (sk w1) = tx_data (sk w)"
  shows "served w w'"
  using assms by (simp add: served_def opens_def)

text \<open>
  The outcomes of a request: an answer that changes nothing, the message stream, a message that was stored, and an upload
  that was tried.
\<close>

definition stream_outcome :: "stream_round list \<Rightarrow> http_request \<Rightarrow> world \<Rightarrow> int option \<Rightarrow> world \<Rightarrow> bool" where
  "stream_outcome rounds req w r w' \<longleftrightarrow>
     rq_method req = ''GET'' \<and> rq_path req = ''/api/messages/stream'' \<and>
     (\<exists>ops. subseq ops (round_ops rounds) \<and> store w' = ms_run_ops ops (store w)) \<and> fs_untouched (fs w) (fs w') \<and>
     opens 200 w w' \<and> (r = None \<longrightarrow> (\<forall>rd \<in> set rounds. \<not> sr_shutdown rd))"

definition post_outcome :: "http_request \<Rightarrow> world \<Rightarrow> int option \<Rightarrow> world \<Rightarrow> bool" where
  "post_outcome req w r w' \<longleftrightarrow>
     rq_method req = ''POST'' \<and> rq_path req = ''/api/messages'' \<and> message_posted req w w' \<and> r \<noteq> None"

definition put_outcome :: "server_opt \<Rightarrow> http_request \<Rightarrow> world \<Rightarrow> int option \<Rightarrow> world \<Rightarrow> bool" where
  "put_outcome opt req w r w' \<longleftrightarrow>
     rq_method req = ''PUT'' \<and> prefix ''/api/files/'' (rq_path req) \<and> r \<noteq> None \<and>
     (\<exists>rel res w1. http_decode_name (drop 11 (rq_path req)) HF_HTTP_PATH_MAX = Some rel \<and> fs_validate_relative_path rel \<and>
        transfer_done (so_path opt) rel (rq_content_length req) w res w1 \<and> web_step w1 w' \<and>
        (created w w' \<longrightarrow> (\<exists>p. res = Inr p)))"

definition request_outcome ::
  "stream_round list \<Rightarrow> server_opt \<Rightarrow> http_request \<Rightarrow> world \<Rightarrow> int option \<Rightarrow> world \<Rightarrow> bool" where
  "request_outcome rounds opt req w r w' \<longleftrightarrow>
     served w w' \<and> r \<noteq> None \<or> stream_outcome rounds req w r w' \<or> post_outcome req w r w' \<or> put_outcome opt req w r w'"

lemma returned_D: "returned x = (r, w') \<Longrightarrow> r \<noteq> None \<and> x = (fst x, w')"
  by (auto simp: returned_def)

lemma returned_served:
  assumes "returned x = (r, w')" "\<And>ok. x = (ok, w') \<Longrightarrow> served w w'"
  shows "request_outcome rounds opt req w r w'"
  using assms(2) returned_D [OF assms(1)] by (auto simp: request_outcome_def)

lemma returned_error:
  assumes "returned (http_send_json_error st reason msg w) = (r, w')" "st \<noteq> 201"
  shows "request_outcome rounds opt req w r w'"
  using assms(1) by (rule returned_served) (rule json_error_served [OF _ assms(2)], simp_all)

lemma http_exact_route_outcome:
  assumes "http_dispatch_exact_route env rounds opt req w = Some (r, w')"
  shows "request_outcome rounds opt req w r w'"
proof -
  let ?err = "returned (http_send_json_error 405 ''Method Not Allowed'' ''method not allowed'' w)"
  consider (err) "?err = (r, w')"
    | (files) "returned (http_handle_files_list env opt req w) = (r, w')"
    | (post) "returned (http_handle_messages_post opt req w) = (r, w')" "rq_path req = ''/api/messages''" "rq_method req = ''POST''"
    | (latest) "returned (http_handle_messages_latest_get w) = (r, w')"
    | (stream) "http_handle_messages_stream rounds w = (r, w')" "rq_path req = ''/api/messages/stream''" "rq_method req = ''GET''"
    using assms by (auto simp: http_dispatch_exact_route_def http_exact_routes_def split: if_splits)
  then show ?thesis
  proof cases
    case err
    then show ?thesis by (rule returned_error) simp
  next
    case files
    then show ?thesis by (rule returned_served) (rule turned_down_served [OF http_handle_files_list_effect])
  next
    case latest
    then show ?thesis by (rule returned_served) (rule turned_down_served [OF http_handle_messages_latest_get_effect])
  next
    case post
    with returned_D [OF post(1)] http_handle_messages_post_effect [of opt req w _ w'] show ?thesis
      by (auto simp: request_outcome_def post_outcome_def intro: turned_down_served)
  next
    case stream
    with http_handle_messages_stream_effect [OF stream(1)] show ?thesis
      by (simp add: request_outcome_def stream_outcome_def)
  qed
qed

lemma http_file_route_outcome:
  assumes "http_dispatch_file_route opt req w = Some (r, w')"
    and ok: "fs_ok (fs w)" "fs_sizes_ok (fs w)" "\<not> splice_direct w" "0 \<le> sock_fd (sk w)"
  shows "request_outcome rounds opt req w r w'"
proof -
  consider (err) st reason msg where "returned (http_send_json_error st reason msg w) = (r, w')" "st \<in> {400, 405}"
    | (get) rel where "returned (http_send_file opt rel w) = (r, w')"
    | (put) rel where "returned (http_handle_file_put opt req rel w) = (r, w')" "prefix ''/api/files/'' (rq_path req)"
        "http_decode_name (drop 11 (rq_path req)) HF_HTTP_PATH_MAX = Some rel" "rq_method req = ''PUT''"
    using assms(1) by (fastforce simp: http_dispatch_file_route_def split: if_splits option.splits)
  then show ?thesis
  proof cases
    case err
    then show ?thesis by (auto intro: returned_error)
  next
    case get
    then show ?thesis by (rule returned_served) (erule http_send_file_effect [OF _ ok(1,2,4)])
  next
    case put
    note d = returned_D [OF put(1)]
    from http_handle_file_put_effect [OF d [THEN conjunct2] ok(1,3,4)]
    consider "turned_down w w'" | res w1 st where "fs_validate_relative_path rel"
      "transfer_done (so_path opt) rel (rq_content_length req) w res w1" "web_step w1 w'" "opens st w w'" "st = 201 \<longrightarrow> (\<exists>p. res = Inr p)"
      by (auto simp: turned_down_def)
    then show ?thesis
    proof cases
      case 1
      with d show ?thesis by (auto simp: request_outcome_def intro: turned_down_served)
    next
      case 2
      with opens_created [OF 2(4)] put d have "put_outcome opt req w r w'" unfolding put_outcome_def by blast
      then show ?thesis by (simp add: request_outcome_def)
    qed
  qed
qed


lemma http_connection_outcome:
  assumes run: "handle_http_connection env rounds opt w = (r, w')"
    and ok: "fs_ok (fs w)" "fs_sizes_ok (fs w)" "\<not> splice_direct w" "0 \<le> sock_fd (sk w)"
  obtains (idle) "served w w'" "r \<noteq> None"
  | (request) block req s1 where "rx_only (sk w) s1" "rx_data (sk w) = bytes_of_string block @ rx_data s1"
      "http_parse_request env block = Inr req" "request_outcome rounds opt req (w\<lparr>sk := s1\<rparr>) r w'"
proof -
  obtain rc block s1 where h: "http_read_header_block HF_HTTP_HEADER_MAX (sk w) = (rc, block, s1)" by (metis prod_cases3)
  note he = http_read_header_block_effect [OF h]
  define w1 where "w1 = w\<lparr>sk := s1\<rparr>"
  have tx: "fs w1 = fs w" "store w1 = store w" "tx_data (sk w1) = tx_data (sk w)" using he(1) by (simp_all add: w1_def rx_only_def)
  have ok1: "fs_ok (fs w1)" "fs_sizes_ok (fs w1)" "\<not> splice_direct w1" "0 \<le> sock_fd (sk w1)"
    using ok he(1) by (simp_all add: w1_def rx_only_def)
  have err: thesis if e: "returned (http_send_json_error st reason msg w1) = (r, w')" "st \<noteq> 201" for st reason msg
  proof (rule idle)
    from returned_D [OF e(1)] obtain ok where "http_send_json_error st reason msg w1 = (ok, w')" "r \<noteq> None" by metis
    from served_head [OF json_error_served [OF this(1) e(2) refl refl refl refl] tx] this(2) show "served w w'" "r \<noteq> None" .
  qed
  note conn = handle_http_connection_def [of env rounds opt w, unfolded h prod.case Let_def, folded w1_def]
  consider "rc = - 1 \<or> rc = 1" | "rc = 2" | pr where "rc \<notin> {- 1, 1, 2}" "http_parse_request env block = Inl pr"
    | req where "rc \<notin> {- 1, 1, 2}" "http_parse_request env block = Inr req" by (cases "http_parse_request env block") auto
  then show thesis
  proof cases
    case 1
    then have "w' = w1" "r \<noteq> None" using run conn by auto
    then show thesis using tx by (intro idle) (auto simp: served_def intro!: exI [of _ 500] opens_silent)
  next
    case 2
    then show thesis using run conn by (intro err [of 431]) auto
  next
    case 3
    then show thesis using run conn by (cases "pr = 1") (auto intro: err)
  next
    case (4 req)
    have "request_outcome rounds opt req w1 r w'"
    proof (cases "if rq_method req = ''GET'' then webui_find_asset (webui env) (rq_path req) else None")
      case (Some asset)
      with run conn 4 have "returned (http_handle_webui_asset asset w1) = (r, w')" by (simp split: if_splits)
      then show ?thesis
        by (rule returned_served) (use turned_down_local(2) turned_down_served in \<open>fastforce simp: http_handle_webui_asset_def\<close>)
    next
      case None
      with run conn 4 consider "http_dispatch_exact_route env rounds opt req w1 = Some (r, w')"
        | "http_dispatch_file_route opt req w1 = Some (r, w')"
        | "returned (http_send_json_error 404 ''Not Found'' ''route not found'' w1) = (r, w')"
        by (auto split: option.splits)
      then show ?thesis
        by cases (auto intro: http_exact_route_outcome http_file_route_outcome [OF _ ok1] returned_error)
    qed
    with he 4(2) show thesis by (intro request [of s1 block req]) (simp_all add: w1_def)
  qed
qed


section \<open>Properties of a connection\<close>

lemma served_not_created: "served w w' \<Longrightarrow> \<not> created w w'"
  by (auto simp: served_def dest: opens_created)

lemma same_tx:
  assumes "rx_only (sk w) s1"
  shows "created (w\<lparr>sk := s1\<rparr>) w' = created w w'" "opens st (w\<lparr>sk := s1\<rparr>) w' = opens st w w'"
    "served (w\<lparr>sk := s1\<rparr>) w' = served w w'"
  using assms by (simp_all add: created_def opens_def served_def rx_only_def)

text \<open>
C8: A \<^verbatim>\<open>201 Created\<close> means what it says. Whatever the client sends and the kernel answers, if the status line
of the answer is 201, then either the request was a \<^verbatim>\<open>PUT\<close> of a valid path, and the file below the
receive directory now has exactly the announced number of bytes that followed the request head as its content while every
other entry is unchanged, or it was a \<^verbatim>\<open>POST\<close> of a message, and the message in its body is now the
current one, trimmed, with a new version.
\<close>
theorem http_created_is_stored:
  assumes "handle_http_connection env rounds opt w = (r, w')"
    and "fs_ok (fs w)" "fs_sizes_ok (fs w)" "\<not> splice_direct w" "0 \<le> sock_fd (sk w)" "so_path opt \<noteq> []"
    and "created w w'"
  shows "\<exists>block req rest body. rx_data (sk w) = bytes_of_string block @ body @ rest \<and> http_parse_request env block = Inr req \<and>
    length body = unat (rq_content_length req) \<and>
    (rq_method req = ''PUT'' \<and>
       (\<exists>rel full m. http_decode_name (drop 11 (rq_path req)) HF_HTTP_PATH_MAX = Some rel \<and> fs_validate_relative_path rel \<and>
          fs_join_relative_path 4096 (so_path opt) (Some rel) = Some full \<and> prefix (canon (so_path opt)) (canon full) \<and>
          nodes (fs w') (canon full) = Some (FileN body m) \<and> (\<forall>q. q \<noteq> canon full \<longrightarrow> nodes (fs w') q = nodes (fs w) q)) \<or>
     rq_method req = ''POST'' \<and> rq_path req = ''/api/messages'' \<and> nodes (fs w') = nodes (fs w) \<and>
       (\<exists>m w2 w3. http_parse_message_json (string_of_bytes body) w2 = (Some m, w3) \<and>
          store w' = (store w)\<lparr>ms_message := Some (ms_trimmed m), ms_version := ms_version (store w) + 1\<rparr>))"
  using assms(1-5)
proof (cases rule: http_connection_outcome)
  case idle
  with assms(7) served_not_created show ?thesis by blast
next
  case (request block req s1)
  let ?w1 = "w\<lparr>sk := s1\<rparr>" and ?n = "unat (rq_content_length req)"
  note same = same_tx [OF request(1)]
  from request(4) assms(7) consider "post_outcome req ?w1 r w'" | "put_outcome opt req ?w1 r w'"
    using served_not_created opens_created [of 200 w w'] same by (auto simp: request_outcome_def stream_outcome_def)
  then show ?thesis
  proof cases
    case 1
    then obtain body rest m w2 w3 where p: "rx_data s1 = body @ rest" "length body = ?n"
      "http_parse_message_json (string_of_bytes body) w2 = (Some m, w3)"
      "store w' = (store w)\<lparr>ms_message := Some (ms_trimmed m), ms_version := ms_version (store w) + 1\<rparr>"
      "nodes (fs w') = nodes (fs w)" by (auto simp: post_outcome_def message_posted_def)
    with 1 request(2,3) show ?thesis
      by (intro exI [of _ block] exI [of _ req] exI [of _ rest] exI [of _ body]) (auto simp: post_outcome_def)
  next
    case 2
    with assms(7) same(1) obtain rel p w1 where p: "http_decode_name (drop 11 (rq_path req)) HF_HTTP_PATH_MAX = Some rel"
      "fs_validate_relative_path rel" "transfer_done (so_path opt) rel (rq_content_length req) ?w1 (Inr p) w1" "web_step w1 w'"
      by (auto simp: put_outcome_def)
    from p(3) have j: "fs_join_relative_path 4096 (so_path opt) (Some rel) = Some p" "?n \<le> length (rx_data s1)"
      "delivered p (take ?n (rx_data s1)) (fs w) (fs w1)" by (auto simp: transfer_done_def split: option.splits)
    from p(2) have "rel \<noteq> []" by (auto simp: fs_validate_relative_path_def)
    with j(1) assms(6) have "prefix (canon (so_path opt)) (canon p)" by (auto elim: fs_join_relative_path_confined)
    with 2 p(1,2) j web_step_frame(1) [OF p(4)] request(2,3) show ?thesis
      by (intro exI [of _ block] exI [of _ req] exI [of _ "drop ?n (rx_data s1)"] exI [of _ "take ?n (rx_data s1)"])
        (auto simp: put_outcome_def delivered_def)
  qed
qed





section \<open>An upload on a calm system\<close>

fun head_ends :: "string \<Rightarrow> string \<Rightarrow> bool" where
  "head_ends out [] = False"
| "head_ends out (c # cs) =
     (if length (out @ [c]) \<ge> 4 \<and> drop (length (out @ [c]) - 4) (out @ [c]) = CRLF @ CRLF then cs = [] else head_ends (out @ [c]) cs)"

lemma http_read_header_calm:
  "head_ends out block \<Longrightarrow> length (out @ block) < cap \<Longrightarrow> rx_sched s = [] \<Longrightarrow> rx_data s = bytes_of_string block @ rest \<Longrightarrow>
     http_read_header_loop cap out s = (0, out @ block, s\<lparr>rx_data := rest\<rparr>)"
proof (induction out block arbitrary: s rule: head_ends.induct)
  case (2 out c cs)
  define s1 where "s1 = s\<lparr>rx_data := bytes_of_string cs @ rest\<rparr>"
  have r: "recv 1 s = (Inr [byte_of_char c], s1)" using "2.prems" by (simp add: recv_def s1_def)
  note unf = http_read_header_loop.simps [of cap out s, unfolded r]
  show ?case
  proof (cases "length (out @ [c]) \<ge> 4 \<and> drop (length (out @ [c]) - 4) (out @ [c]) = CRLF @ CRLF")
    case True
    with "2.prems"(1) have "cs = []" by (simp split: if_splits)
    with True "2.prems" unf show ?thesis by (simp add: s1_def Let_def)
  next
    case False
    with "2.prems"(1) have h: "head_ends (out @ [c]) cs" by (simp only: head_ends.simps if_False)
    from "2.IH" [OF False h, of s1] "2.prems" have
      "http_read_header_loop cap (out @ [c]) s1 = (0, (out @ [c]) @ cs, s1\<lparr>rx_data := rest\<rparr>)" by (simp add: s1_def)
    with False "2.prems" unf show ?thesis by (simp add: s1_def Let_def)
  qed
qed simp

lemma length_put_pieces: "length (concat (put_pieces rel info)) \<le> 12 * length rel + 120"
proof -
  have b: "length (http_relative_basename rel) \<le> length rel" by (simp add: http_relative_basename_def split: option.split)
  show ?thesis using b length_show_u64 [of "info_size info"] length_show_u64 [of "info_mtime info"] length_escape [of rel] length_escape [of "http_relative_basename rel"] by (simp add: put_pieces_def)
qed

lemma response_created:
  assumes "http_send_response 201 reason ct body None w = (ok, w')" "tx_quiet (sk w)" "tx_data (sk w) = tx_data (sk w0)"
    "length (http_response_header 201 reason ct (length body) []) < 1024"
  shows "created w0 w'"
proof -
  note a = http_send_response_answers [OF assms(1)]
  from a(2) assms have "answers (http_response_header 201 reason ct (length body) [] @ body) w True w'" using a(1) by simp
  from answers_ok [OF this] have "tx_data (sk w') = tx_data (sk w0) @ bytes_of_string (http_response_header 201 reason ct (length body) [] @ body)"
    using assms(3) by simp
  then show ?thesis unfolding created_def by (subst (asm) header_status_line) simp
qed


lemma http_handle_file_put_calm:
  assumes head: "\<not> rq_has_transfer_encoding req" "rq_has_content_length req" "rq_content_length req \<le> HF_HTTP_UPLOAD_MAX"
      "http_ascii_starts_with (rq_content_type req) ''application/octet-stream''" "fs_validate_relative_path rel" "length rel < 2 ^ 20"
    and ok: "fs_ok (fs w)" "\<not> splice_direct w" "0 \<le> sock_fd (sk w)"
    and calm: "rx_calm w" "tx_quiet (sk w)" "unat (rq_content_length req) \<le> length (rx_data (sk w))"
    and path: "fs_join_relative_path 4096 (so_path opt) (Some rel) = Some full" "length full < 4096"
      "\<forall>m. nodes (fs w) (canon full) \<noteq> Some (DirN m)"
    and free: "fs_build_temp_path 4096 full (pid w) 0 = Some tmp" "nodes (fs w) (canon tmp) = None"
  shows "created w (snd (http_handle_file_put opt req rel w))"
proof -
  let ?n = "rq_content_length req"
  obtain r w1 where rv: "app_receive_file (so_path opt) rel ?n APP_UPLOAD_HTTP 4096 w = (r, w1)" by fastforce
  then have r: "r = Inr full"
    using transfer_recv_socket_http_file_succeeds [OF _ ok calm(1,3) path free] by (simp add: app_receive_file_def)
  have td: "transfer_done (so_path opt) rel ?n w r w1" by (rule app_receive_file_done [OF rv ok]) simp
  have d: "delivered full (take (unat ?n) (rx_data (sk w))) (fs w) (fs w1)" "rx_only (sk w) (sk w1)" "io_frame w w1"
    using td r path(1) by (simp_all add: transfer_done_def)
  have q1: "fs_quiet (fs w1)" "False \<notin> set (mem w1)" "tx_quiet (sk w1)" "tx_data (sk w1) = tx_data (sk w)"
    using d calm fs_quiet_subset by (auto simp: rx_calm_def delivered_def io_frame_def rx_only_def tx_quiet_def)
  from d(1) obtain m where m: "nodes (fs w1) (canon full) = Some (FileN (take (unat ?n) (rx_data (sk w))) m)"
    by (auto simp: delivered_def)
  obtain i f2 where st: "fs_stat_path full (fs w1) = (i, f2)" by fastforce
  define info where "info = \<lparr>info_kind = FS_PATH_KIND_FILE, info_size = of_nat (length (take (unat ?n) (rx_data (sk w)))), info_mtime = m\<rparr>"
  have i: "i = Some info" unfolding info_def by (rule fs_stat_path_effect(3) [OF st q1(1) m])
  define w2 where "w2 = w1\<lparr>fs := f2\<rparr>"
  obtain x w3 where b: "http_buf_append_all (put_pieces rel info) http_buf_zero w2 = (x, w3)" by fastforce
  note be = http_buf_append_all_effect [OF b]
  have "x \<noteq> None" using be(4) q1(2) length_put_pieces [of rel info] head(6) by (simp add: w2_def http_buf_zero_def)
  then obtain resp where x: "x = Some resp" by auto
  have len: "length (hb_data resp) \<le> 2 ^ 24" using be(2) [OF x] length_put_pieces [of rel info] head(6) by (simp add: http_buf_zero_def)
  have w3: "tx_quiet (sk w3)" "tx_data (sk w3) = tx_data (sk w)" using q1 mem_step_frame [OF be(1)] by (simp_all add: w2_def)
  have put: "http_handle_file_put opt req rel w = http_send_response 201 ''Created'' JSON_TYPE (hb_data resp) None w3"
    using head rv r st i b x by (simp add: http_handle_file_put_def w2_def Let_def info_def not_less [symmetric])
  have "length (show_nat (length (hb_data resp))) \<le> 8" using len by (intro length_show_nat) simp_all
  moreover have "length (show_nat 201) \<le> 3" by (intro length_show_nat) simp_all
  ultimately have "length (http_response_header 201 ''Created'' JSON_TYPE (length (hb_data resp)) []) < 1024"
    by (simp add: http_response_header_def)
  from response_created [OF surjective_pairing w3 this] show ?thesis unfolding put by simp
qed


section \<open>Witnesses\<close>

text \<open>A parser that knows one request head, and a web page without text.\<close>

definition put_block :: string where
  "put_block = ''PUT /api/files/n HTTP/1.1'' @ CRLF @ ''Content-Length: 2'' @ CRLF @ ''Content-Type: application/octet-stream'' @ CRLF @ CRLF"

definition put_phr :: phr_request where
  "put_phr = \<lparr>phr_method = ''PUT'', phr_path = ''/api/files/n'', phr_minor_version = 1,
     phr_headers = [(Some ''Content-Length'', ''2''), (Some ''Content-Type'', ''application/octet-stream'')]\<rparr>"

definition demo_env :: http_env where
  "demo_env = \<lparr>phr = (\<lambda>b. if b = put_block then Some put_phr else None), readdir = (\<lambda>f p. []),
     webui = \<lparr>webui_index_html = [], webui_app_js = [], webui_styles_css = [], webui_favicon_svg = []\<rparr>\<rparr>"

definition put_request :: http_request where
  "put_request = \<lparr>rq_method = ''PUT'', rq_path = ''/api/files/n'', rq_query = [], rq_content_type = ''application/octet-stream'',
     rq_content_length = 2, rq_has_content_length = True, rq_has_transfer_encoding = False\<rparr>"

definition put_world :: "byte list \<Rightarrow> world" where
  "put_world rx = (demo_world [])\<lparr>sk := (sk (demo_world []))\<lparr>rx_data := rx, rx_sched := []\<rparr>\<rparr>"

lemma put_world_ok:
  "fs_ok (fs (put_world rx))" "fs_sizes_ok (fs (put_world rx))" "\<not> splice_direct (put_world rx)"
  "0 \<le> sock_fd (sk (put_world rx))" "rx_calm (put_world rx)" "tx_quiet (sk (put_world rx))" "rx_data (sk (put_world rx)) = rx"
  "rx_sched (sk (put_world rx)) = []" "fs (put_world rx) = demo_fs" "pid (put_world rx) = 42" "tx_data (sk (put_world rx)) = []"
  "(put_world rx)\<lparr>sk := (sk (put_world rx))\<lparr>rx_data := rx'\<rparr>\<rparr> = put_world rx'"
  using demo_world_ok(1-4,6,7) [of "[]"] by (auto simp: put_world_def rx_calm_def rx_quiet_def tx_quiet_def demo_world_def)

lemma put_request_parsed: "http_parse_request demo_env put_block = Inr put_request"
proof -
  have "cstr put_block = put_block" by code_simp
  then have "phr demo_env (cstr put_block) = Some put_phr" by (simp add: demo_env_def)
  moreover have "http_parse_headers (phr_headers put_phr)
      (http_request_zero\<lparr>rq_method := cstr (phr_method put_phr), rq_path := cstr (phr_path put_phr)\<rparr>) = Some put_request"
    by code_simp
  moreover have "strchr (rq_path put_request) (CHR ''?'') = None" by code_simp
  ultimately show ?thesis by (simp add: http_parse_request_def put_phr_def HF_HTTP_PATH_MAX_def)
qed

lemma put_demo_run:
  "handle_http_connection demo_env rounds demo_opt (put_world (bytes_of_string put_block @ [1, 2])) =
     returned (http_handle_file_put demo_opt put_request ''n'' (put_world [1, 2]))"
proof -
  have "length put_block < 16384" "head_ends [] put_block" by code_simp+
  then have "http_read_header_block HF_HTTP_HEADER_MAX (sk (put_world (bytes_of_string put_block @ [1, 2]))) =
      (0, put_block, (sk (put_world (bytes_of_string put_block @ [1, 2])))\<lparr>rx_data := [1, 2]\<rparr>)"
    using http_read_header_calm [where out = "[]" and block = put_block and rest = "[1, 2]"]
    by (simp add: http_read_header_block_def HF_HTTP_HEADER_MAX_def put_world_ok)
  moreover have "http_dispatch_exact_route demo_env rounds demo_opt put_request w = None" for w
    by (simp add: http_dispatch_exact_route_def http_exact_routes_def put_request_def)
  moreover have "http_decode_name ''n'' HF_HTTP_PATH_MAX = Some ''n''" by code_simp
  then have "http_dispatch_file_route demo_opt put_request w = Some (returned (http_handle_file_put demo_opt put_request ''n'' w))" for w
    by (simp add: http_dispatch_file_route_def put_request_def)
  moreover have "rq_method put_request = ''PUT''" by (simp add: put_request_def)
  ultimately show ?thesis
    by (simp add: handle_http_connection_def put_request_parsed put_world_ok(12) Let_def)
qed


lemma put_demo_created:
  "created (put_world (bytes_of_string put_block @ [1, 2])) (snd (handle_http_connection demo_env rounds demo_opt
     (put_world (bytes_of_string put_block @ [1, 2]))))"
proof -
  have "created (put_world [1, 2]) (snd (http_handle_file_put demo_opt put_request ''n'' (put_world [1, 2])))"
  proof (rule http_handle_file_put_calm [where full = "''/srv/n''" and tmp = "''/srv/n.tmp.42.0''"])
    show "fs_join_relative_path 4096 (so_path demo_opt) (Some ''n'') = Some ''/srv/n''" by code_simp
    have c: "canon ''/srv/n'' = [''/'', ''srv'', ''n'']" "canon ''/srv/n.tmp.42.0'' = [''/'', ''srv'', ''n.tmp.42.0'']" by code_simp+
    show "\<forall>m. nodes (fs (put_world [1, 2])) (canon ''/srv/n'') \<noteq> Some (DirN m)"
      "nodes (fs (put_world [1, 2])) (canon ''/srv/n.tmp.42.0'') = None"
      unfolding c put_world_ok by (simp_all add: demo_fs_def)
    show "fs_build_temp_path 4096 ''/srv/n'' (pid (put_world [1, 2])) 0 = Some ''/srv/n.tmp.42.0''"
      unfolding put_world_ok by code_simp
    show "http_ascii_starts_with (rq_content_type put_request) ''application/octet-stream''" "fs_validate_relative_path ''n''" by code_simp+
  qed (simp_all add: put_world_ok(1-8) put_request_def HF_HTTP_UPLOAD_MAX_def)
  then show ?thesis by (simp add: put_demo_run returned_def created_def put_world_ok)
qed

theorem http_created_is_stored_witness:
  "let w' = snd (handle_http_connection demo_env [] demo_opt (put_world (bytes_of_string put_block @ [1, 2]))) in
   (\<exists>rel full body m. nodes (fs w') (canon full) = Some (FileN body m) \<and> fs_join_relative_path 4096 ''/srv'' (Some rel) = Some full) \<or>
   (\<exists>m. ms_message (store w') = Some (ms_trimmed m))"
proof -
  have so: "so_path demo_opt = ''/srv''" by (simp add: demo_opt_def)
  from http_created_is_stored [OF surjective_pairing put_world_ok(1-4) demo_world_ok(5) put_demo_created, of "[]"]
  show ?thesis unfolding Let_def so by fastforce
qed





end
