(* ===== verification/Connection.thy ===== *)
theory Connection
  imports Session Message_Facts Http_Session Examples
begin

text \<open>
  The thread of a connection as a whole (\<^verbatim>\<open>server_connection_thread_main\<close>): the first bytes choose between the native
  protocol and HTTP. The locale \<open>connection_handler\<close> is what the thread relies on in a handler, with the two handlers of the
  program as its instances; connections served one after the other follow by rule induction.
\<close>

section \<open>What a handler may do\<close>

text \<open>A message within the limit of the program.\<close>

definition message_ok :: "string \<Rightarrow> bool" where
  "message_ok m \<longleftrightarrow> cstring m \<and> length m \<le> HF_PROTOCOL_MAX_TEXT_MESSAGE_SIZE"

text \<open>
  \<open>w'\<close> differs from \<open>w\<close> below the receive directory and by new messages only; no descriptor is left open. \<open>talk\<close>: the messages that
  other threads store in the meantime.
\<close>

definition keeps_to :: "string \<Rightarrow> string set \<Rightarrow> world \<Rightarrow> world \<Rightarrow> bool" where
  "keeps_to base talk w w' \<longleftrightarrow> fds (fs w') = fds (fs w) \<and>
     (\<forall>p. \<not> prefix (canon base) p \<longrightarrow> nodes (fs w') p = nodes (fs w) p) \<and>
     (\<forall>hist. tracks hist (store w) \<longrightarrow>
        (\<exists>new. tracks (hist @ new) (store w') \<and> (\<forall>m \<in> set new. message_ok m \<or> m \<in> talk)))"

lemma keeps_to_store: "(\<forall>hist. tracks hist (store w) \<longrightarrow>
    (\<exists>new. tracks (hist @ new) (store w') \<and> (\<forall>m \<in> set new. message_ok m \<or> m \<in> talk)))"
  if "store w' = store w \<or> (\<exists>m. cstring m \<and> length m \<le> HF_PROTOCOL_MAX_TEXT_MESSAGE_SIZE \<and>
      store w' = (store w)\<lparr>ms_message := Some (ms_trimmed m), ms_version := ms_version (store w) + 1\<rparr>)"
  using that
proof (elim disjE exE conjE)
  fix m assume m: "cstring m" "length m \<le> HF_PROTOCOL_MAX_TEXT_MESSAGE_SIZE"
    "store w' = (store w)\<lparr>ms_message := Some (ms_trimmed m), ms_version := ms_version (store w) + 1\<rparr>"
  then have "tracks (hist @ [m]) (store w')" if "tracks hist (store w)" for hist
    using that by (simp add: tracks_def)
  with m(1,2) show ?thesis by (intro allI impI) (fastforce simp: message_ok_def)
qed (auto intro: exI [of _ "[]"])

lemma keeps_to_mono: "keeps_to base talk w w' \<Longrightarrow> talk \<subseteq> talk' \<Longrightarrow> keeps_to base talk' w w'"
  unfolding keeps_to_def by blast

lemma keeps_to_rx_step: "rx_step w w' \<Longrightarrow> keeps_to base talk w w'"
  using rx_step_D [of w w'] keeps_to_store [of w' w talk] by (simp add: keeps_to_def)

lemma keeps_to_after_rx_step: "rx_step w w1 \<Longrightarrow> keeps_to base talk w1 w' \<Longrightarrow> keeps_to base talk w w'"
  using rx_step_D [of w w1] by (simp add: keeps_to_def)

locale connection_handler =
  fixes handle :: "server_opt \<Rightarrow> world \<Rightarrow> world" and talk :: "string set"
  assumes handled: "end_ok w \<Longrightarrow> so_path opt \<noteq> [] \<Longrightarrow> keeps_to (so_path opt) talk w (handle opt w)"

interpretation native: connection_handler "\<lambda>opt w. snd (handle_protocol_connection opt w)" "{}"
proof
  fix w :: world and opt :: server_opt assume ok: "end_ok w" "so_path opt \<noteq> []"
  obtain rc w' where h: "handle_protocol_connection opt w = (rc, w')" by fastforce
  note s = handle_protocol_connection_safe [OF h end_ok_D [OF ok(1)] ok(2)]
  from s(1) have "fds (fs w') = fds (fs w)" "\<forall>p. \<not> prefix (canon (so_path opt)) p \<longrightarrow> nodes (fs w') p = nodes (fs w) p"
    unfolding fs_change_confined_def by (blast, metis prefix_def)
  with keeps_to_store [OF s(2), where talk = "{}"] show "keeps_to (so_path opt) {} w (snd (handle_protocol_connection opt w))"
    by (simp add: keeps_to_def h)
qed



text \<open>The thread keeps to what its two handlers keep to.\<close>

context connection_handler
begin

lemma thread_keeps_to:
  assumes ok: "end_ok w" "so_path opt \<noteq> []"
  shows "keeps_to (so_path opt) talk w (server_connection_thread_main handle opt w)"
proof -
  obtain kind s1 where d: "server_detect_connection_kind (sk w) = (kind, s1)" by fastforce
  note e = detect_effect [OF d]
  have ok1: "end_ok (w\<lparr>sk := s1\<rparr>)" using ok(1) rx_step_end_ok [OF e(1)] by simp
  have "keeps_to (so_path opt) talk (w\<lparr>sk := s1\<rparr>) (snd (handle_protocol_connection opt (w\<lparr>sk := s1\<rparr>)))"
    by (rule keeps_to_mono [OF native.handled [OF ok1 ok(2)] empty_subsetI])
  with keeps_to_after_rx_step [OF e(1)] keeps_to_rx_step [OF e(1)] handled [OF ok1 ok(2)] show ?thesis
    by (cases kind) (simp_all add: server_connection_thread_main_def d)
qed

end

section \<open>Connections one after the other\<close>

text \<open>
  A run of the server: connections are served on the files and the store that the ones before them left. Each comes with its own peer, its own
  outcomes of calls (\<open>sched\<close> are those of the file system) and, for a message stream, its own rounds. No file is
  larger than the kernel can say, and what other threads store while a stream waits was accepted by the program.
\<close>

inductive serves :: "http_env \<Rightarrow> server_opt \<Rightarrow> fsys \<times> message_store_state \<Rightarrow> fsys \<times> message_store_state \<Rightarrow> bool"
  for env :: http_env and opt :: server_opt and start :: "fsys \<times> message_store_state" where
  ready: "serves env opt start start"
| conn: "serves env opt start (f, st) \<Longrightarrow> fs w = f\<lparr>fs_sched := sched\<rparr> \<Longrightarrow> store w = st \<Longrightarrow> fs_sizes_ok f \<Longrightarrow>
    \<not> splice_direct w \<Longrightarrow> 0 \<le> sock_fd (sk w) \<Longrightarrow> (\<forall>m \<in> set (concat (map accepted (round_ops rounds))). message_ok m) \<Longrightarrow>
    w' = server_connection_thread_main (\<lambda>opt w. snd (handle_http_connection env rounds opt w)) opt w \<Longrightarrow>
    serves env opt start (fs w', store w')"







end
