(* ===== verification/Cstdlib.thy ===== *)
theory Cstdlib
  imports Prelude
begin

text \<open>
  \<^verbatim>\<open>strtoul\<close> and \<^verbatim>\<open>strtol\<close> of the C library, in base 10 on a system with 64-bit \<^verbatim>\<open>long\<close>:
  white space, an optional sign, then as many digits as there are.
\<close>

definition strto_scan :: "string \<Rightarrow> bool \<times> string \<times> string" where
  "strto_scan s =
     (let s1 = dropWhile isspace s;
          neg = (s1 \<noteq> [] \<and> hd s1 = CHR ''-'');
          s2 = (if s1 \<noteq> [] \<and> (hd s1 = CHR ''-'' \<or> hd s1 = CHR ''+'') then tl s1 else s1)
      in (neg, takeWhile isdigit s2, dropWhile isdigit s2))"

text \<open>
  \<open>None\<close>: there is no number, \<^verbatim>\<open>end == s\<close>. Otherwise the value, the text at \<^verbatim>\<open>end\<close> and whether
  \<^verbatim>\<open>errno\<close> is \<^verbatim>\<open>ERANGE\<close>. A minus sign negates the value of \<^verbatim>\<open>strtoul\<close> modulo \<open>2^64\<close>.
\<close>

definition strtoul10 :: "string \<Rightarrow> (u64 \<times> string \<times> bool) option" where
  "strtoul10 s =
     (case strto_scan s of
        (neg, ds, rest) \<Rightarrow>
          if ds = [] then None
          else if digits_val ds \<ge> 2 ^ 64 then Some (- 1, rest, True)
          else Some (if neg then - of_nat (digits_val ds) else of_nat (digits_val ds), rest, False))"

definition strtol10 :: "string \<Rightarrow> (int \<times> string \<times> bool) option" where
  "strtol10 s =
     (case strto_scan s of
        (neg, ds, rest) \<Rightarrow>
          if ds = [] then None
          else let v = (if neg then - int (digits_val ds) else int (digits_val ds)) in
            if v < - (2 ^ 63) then Some (- (2 ^ 63), rest, True)
            else if v > 2 ^ 63 - 1 then Some (2 ^ 63 - 1, rest, True)
            else Some (v, rest, False))"

section \<open>Reading back what was printed\<close>

lemma show_nat_head: "hd (show_nat n) \<noteq> CHR ''-''" "hd (show_nat n) \<noteq> CHR ''+''" "\<not> isspace (hd (show_nat n))"
proof -
  have d: "isdigit (hd (show_nat n))" by (rule show_nat_digits [OF list.set_sel(1)]) simp
  have "char_code (CHR ''-'') = 45" "char_code (CHR ''+'') = 43" by code_simp+
  with d show "hd (show_nat n) \<noteq> CHR ''-''" "hd (show_nat n) \<noteq> CHR ''+''" by (auto simp: isdigit_def)
  from d show "\<not> isspace (hd (show_nat n))" by (auto simp: isdigit_def isspace_def)
qed

lemma dropWhile_hd_not: "xs \<noteq> [] \<Longrightarrow> \<not> P (hd xs) \<Longrightarrow> dropWhile P xs = xs"
  by (cases xs) auto

lemma scan_show_nat:
  assumes "rest = [] \<or> \<not> isdigit (hd rest)"
  shows "strto_scan (show_nat n @ rest) = (False, show_nat n, rest)"
proof -
  have h: "show_nat n @ rest \<noteq> []" "hd (show_nat n @ rest) = hd (show_nat n)" by simp_all
  have "takeWhile isdigit (show_nat n @ rest) = show_nat n \<and> dropWhile isdigit (show_nat n @ rest) = rest"
    using assms show_nat_digits [of _ n]
    by (cases rest) (auto simp: takeWhile_append dropWhile_append)
  moreover have "dropWhile isspace (show_nat n @ rest) = show_nat n @ rest"
    by (rule dropWhile_hd_not) (use h show_nat_head(3) [of n] in simp_all)
  ultimately show ?thesis
    using show_nat_head(1,2) [of n] h by (simp add: strto_scan_def Let_def)
qed

lemma scan_show_neg:
  "strto_scan (CHR ''-'' # show_nat n) = (True, show_nat n, [])"
proof -
  have "\<not> isspace (CHR ''-'')" by code_simp
  moreover have "takeWhile isdigit (show_nat n) = show_nat n" "dropWhile isdigit (show_nat n) = []"
    using show_nat_digits [of _ n] by (auto simp: takeWhile_eq_all_conv)
  ultimately show ?thesis by (simp add: strto_scan_def Let_def)
qed

lemma strtoul10_show [simp]: "n < 2 ^ 64 \<Longrightarrow> strtoul10 (show_nat n) = Some (of_nat n, [], False)"
  using scan_show_nat [of "[]" n] by (simp add: strtoul10_def)

lemma strtol10_show [simp]:
  assumes "- (2 ^ 63) \<le> i" "i < 2 ^ 63"
  shows "strtol10 (show_int i) = Some (i, [], False)"
proof (cases "i < 0")
  case True
  with assms show ?thesis by (auto simp: strtol10_def show_int_def scan_show_neg Let_def)
next
  case False
  with assms scan_show_nat [of "[]" "nat i"] show ?thesis by (auto simp: strtol10_def show_int_def Let_def)
qed

text \<open>A printed number is a C string without line breaks.\<close>

lemma show_nat_chars: "cstring (show_nat n)" "CHR 0x0A \<notin> set (show_nat n)" "CHR 0x0D \<notin> set (show_nat n)"
    "CHR ''='' \<notin> set (show_nat n)"
proof -
  have "\<not> isdigit NUL" "\<not> isdigit (CHR 0x0A)" "\<not> isdigit (CHR 0x0D)" "\<not> isdigit (CHR ''='')" by code_simp+
  then show "cstring (show_nat n)" "CHR 0x0A \<notin> set (show_nat n)" "CHR 0x0D \<notin> set (show_nat n)"
    "CHR ''='' \<notin> set (show_nat n)"
    using show_nat_digits [of _ n] by (auto simp: cstring_def)
qed

lemma show_int_chars: "cstring (show_int i)" "CHR 0x0A \<notin> set (show_int i)" "CHR 0x0D \<notin> set (show_int i)"
    "show_int i \<noteq> []"
  using show_nat_chars [of "nat i"] show_nat_chars [of "nat (- i)"]
  by (auto simp: show_int_def cstring_def)

end
