(* ===== verification/Daemon_State.thy ===== *)
theory Daemon_State
  imports Transfer_Io Cstdlib
begin

text \<open>
  \<^verbatim>\<open>src/daemon_state.c\<close>: the file through which a running server is found by \<^verbatim>\<open>hf status\<close> and
  \<^verbatim>\<open>hf stop\<close>, and the C stream it is read with. The environment variable \<^verbatim>\<open>TMPDIR\<close> is the argument
  \<open>env\<close>, \<open>None\<close> when it is not set.
\<close>

record daemon_state =
  ds_pid :: int
  ds_receive_dir :: string
  ds_web_url :: string
  ds_log_path :: string
  ds_port :: u16
  ds_daemon_mode :: int

section \<open>The file and its name\<close>

text \<open>The buffer afterwards, and whether the value fitted.\<close>

definition daemon_state_copy_str :: "nat \<Rightarrow> string \<Rightarrow> bool \<times> string" where
  "daemon_state_copy_str out_cap v = (length v < out_cap, snprintf_trunc out_cap v)"

definition daemon_state_tmp_dir :: "string option \<Rightarrow> nat \<Rightarrow> string option" where
  "daemon_state_tmp_dir env out_cap =
     (let tmp = (case env of None \<Rightarrow> ''/tmp'' | Some t \<Rightarrow> if t = [] then ''/tmp'' else t);
          (ok, out) = daemon_state_copy_str out_cap tmp
      in if ok then Some out else None)"

definition daemon_state_global_path :: "string option \<Rightarrow> string \<Rightarrow> nat \<Rightarrow> string option" where
  "daemon_state_global_path env nm out_cap =
     (case daemon_state_tmp_dir env 4096 of
        None \<Rightarrow> None
      | Some tmp_dir \<Rightarrow> fs_join_path out_cap tmp_dir nm)"

definition daemon_state_default_log_path :: "string option \<Rightarrow> nat \<Rightarrow> string option" where
  "daemon_state_default_log_path env out_cap = daemon_state_global_path env ''hf-daemon.log'' out_cap"

definition daemon_state_default_state_path :: "string option \<Rightarrow> nat \<Rightarrow> string option" where
  "daemon_state_default_state_path env out_cap = daemon_state_global_path env ''hf-daemon.state'' out_cap"

section \<open>Writing\<close>

text \<open>The attempts at an unused temporary name; \<open>process_id\<close> is \<^verbatim>\<open>daemon_state_process_id()\<close>.\<close>

function daemon_state_open_loop ::
  "string \<Rightarrow> int \<Rightarrow> nat \<Rightarrow> fsys \<Rightarrow> (string \<times> int) option \<times> fsys" where
  "daemon_state_open_loop path process_id attempt f =
     (if attempt < 3 then
        case fs_build_temp_path 4096 path process_id (int attempt) of
          None \<Rightarrow> (None, f)
        | Some tmp_path \<Rightarrow>
           (case fs_open_temp_file tmp_path f of
              (Inr fd, f') \<Rightarrow> (Some (tmp_path, fd), f')
            | (Inl e, f') \<Rightarrow>
                if e \<noteq> EEXIST then (None, f')
                else daemon_state_open_loop path process_id (Suc attempt) f')
      else (None, f))"
  by pat_completeness auto
termination
  by (relation "measure (\<lambda>(path, i, attempt, f). 3 - attempt)") auto

declare daemon_state_open_loop.simps [simp del]

definition daemon_state_write_text_file :: "string \<Rightarrow> string \<Rightarrow> int \<Rightarrow> fsys \<Rightarrow> bool \<times> fsys" where
  "daemon_state_write_text_file path txt process_id f =
     (case daemon_state_open_loop path process_id 0 f of
        (None, f1) \<Rightarrow> (False, f1)
      | (Some (tmp_path, fd), f1) \<Rightarrow>
         (case fs_write_all fd (bytes_of_string txt) f1 of
            (n, f2) \<Rightarrow>
              if n \<noteq> int (length txt)
              then (False, fs_remove_ignore_error tmp_path (snd (fs_close fd f2)))
              else case fs_close fd f2 of
                (False, f3) \<Rightarrow> (False, fs_remove_ignore_error tmp_path f3)
              | (True, f3) \<Rightarrow>
                 (case fs_commit_temp_file tmp_path path f3 of
                    (False, f4) \<Rightarrow> (False, fs_remove_ignore_error tmp_path f4)
                  | (True, f4) \<Rightarrow> (True, f4))))"

text \<open>The text that \<^verbatim>\<open>daemon_state_write\<close> prints.\<close>

definition daemon_state_lines :: "daemon_state \<Rightarrow> (string \<times> string) list" where
  "daemon_state_lines st =
     [(''pid'', show_int (ds_pid st)), (''receive_dir'', ds_receive_dir st),
      (''port'', show_nat (unat (ds_port st))), (''web_url'', ds_web_url st),
      (''log_path'', ds_log_path st), (''daemon_mode'', show_int (ds_daemon_mode st))]"

definition daemon_state_text :: "daemon_state \<Rightarrow> string" where
  "daemon_state_text st = concat (map (\<lambda>(k, v). k @ ''='' @ v @ [CHR 0x0A]) (daemon_state_lines st))"

definition daemon_state_write :: "string option \<Rightarrow> int \<Rightarrow> daemon_state \<Rightarrow> fsys \<Rightarrow> bool \<times> fsys" where
  "daemon_state_write env process_id st f =
     (if ds_pid st \<le> 0 \<or> ds_receive_dir st = [] \<or> ds_port st = 0 then (False, f)
      else case daemon_state_default_state_path env 4096 of
        None \<Rightarrow> (False, f)
      | Some state_path \<Rightarrow>
         (case snprintf_checked 12288 (daemon_state_text st) of
            None \<Rightarrow> (False, f)
          | Some txt \<Rightarrow> daemon_state_write_text_file state_path txt process_id f))"

section \<open>Reading\<close>

text \<open>
  The C stream: \<^verbatim>\<open>fopen\<close> for reading, then \<^verbatim>\<open>read\<close> in blocks until the end of the file or an error.
  \<open>stdio_slurp\<close> gives the bytes the stream delivers and whether it ends with an error.
\<close>

definition unread :: "int \<Rightarrow> fsys \<Rightarrow> nat" where
  "unread fd f =
     (case fds f fd of
        None \<Rightarrow> 0
      | Some o' \<Rightarrow> (case nodes f (of_path o') of Some (FileN c m) \<Rightarrow> length c - of_pos o' | _ \<Rightarrow> 0))"

lemma fs_read_progress:
  assumes "fs_read fd n f = (Inr bs, f')" "bs \<noteq> []"
  shows "unread fd f' < unread fd f"
  using assms
  by (auto simp: fs_read_def posix_read_def unread_def Let_def elim!: fs_popE
      split: prod.splits fs_event.splits option.splits node.splits)

function stdio_slurp :: "int \<Rightarrow> byte list \<Rightarrow> fsys \<Rightarrow> byte list \<times> bool \<times> fsys" where
  "stdio_slurp fd acc f =
     (case fs_read fd 4096 f of
        (Inl e, f') \<Rightarrow> (acc, True, f')
      | (Inr bs, f') \<Rightarrow> if bs = [] then (acc, False, f') else stdio_slurp fd (acc @ bs) f')"
  by pat_completeness auto
termination
  by (relation "measure (\<lambda>(fd, acc, f). unread fd f)") (auto dest!: fs_read_progress [OF sym])

declare stdio_slurp.simps [simp del]

text \<open>\<^verbatim>\<open>fgets\<close> with a buffer of \<open>n + 1\<close> bytes: a line, its line feed included, or \<open>n\<close> bytes of it.\<close>

fun fgets_split :: "nat \<Rightarrow> string \<Rightarrow> string \<times> string" where
  "fgets_split 0 s = ([], s)"
| "fgets_split (Suc n) [] = ([], [])"
| "fgets_split (Suc n) (c # s) =
     (if c = CHR 0x0A then ([c], s) else case fgets_split n s of (l, r) \<Rightarrow> (c # l, r))"

lemma fgets_split_append: "fgets_split n s = (l, r) \<Longrightarrow> s = l @ r"
  by (induction n s arbitrary: l r rule: fgets_split.induct) (auto split: if_splits prod.splits)

lemma fgets_split_shorter: "s \<noteq> [] \<Longrightarrow> fgets_split (Suc n) s = (l, r) \<Longrightarrow> length r < length s"
  by (cases s) (auto split: if_splits prod.splits dest!: fgets_split_append)

text \<open>\<open>None\<close> is the \<^verbatim>\<open>NULL\<close> of \<^verbatim>\<open>fgets\<close>: the end of the file, or an error before the line is complete.\<close>

definition fgets :: "nat \<Rightarrow> bool \<Rightarrow> string \<Rightarrow> (string \<times> string) option" where
  "fgets cap err s =
     (if s = [] then None
      else case fgets_split (cap - 1) s of (l, r) \<Rightarrow>
        if err \<and> r = [] \<and> length l < cap - 1 \<and> last l \<noteq> CHR 0x0A then None else Some (l, r))"

definition daemon_state_parse_u16 :: "string \<Rightarrow> u16 option" where
  "daemon_state_parse_u16 v =
     (if v = [] then None
      else case strtoul10 v of
        None \<Rightarrow> None
      | Some (n, rest, erange) \<Rightarrow> if erange \<or> rest \<noteq> [] \<or> n > 65535 then None else Some (ucast n))"

definition daemon_state_parse_long :: "string \<Rightarrow> int option" where
  "daemon_state_parse_long v =
     (if v = [] then None
      else case strtol10 v of
        None \<Rightarrow> None
      | Some (n, rest, erange) \<Rightarrow> if erange \<or> rest \<noteq> [] then None else Some n)"

text \<open>The state being filled and the three flags of \<^verbatim>\<open>daemon_state_read\<close>.\<close>

record state_reader =
  rd_state :: daemon_state
  rd_pid :: bool
  rd_receive_dir :: bool
  rd_port :: bool

text \<open>One field, then one line. The line is a C string: what stands before its first zero byte.\<close>

definition daemon_state_read_field :: "string \<Rightarrow> string \<Rightarrow> state_reader \<Rightarrow> state_reader" where
  "daemon_state_read_field k v rd =
     (let st = rd_state rd in
      if k = ''pid'' then
        (case daemon_state_parse_long v of
           None \<Rightarrow> rd\<lparr>rd_pid := False\<rparr>
         | Some n \<Rightarrow> rd\<lparr>rd_state := st\<lparr>ds_pid := n\<rparr>, rd_pid := n > 0\<rparr>)
      else if k = ''receive_dir'' then
        (if v = [] then rd\<lparr>rd_receive_dir := False\<rparr>
         else case daemon_state_copy_str 4096 v of
           (ok, out) \<Rightarrow> rd\<lparr>rd_state := st\<lparr>ds_receive_dir := out\<rparr>, rd_receive_dir := ok\<rparr>)
      else if k = ''port'' then
        (case daemon_state_parse_u16 v of
           None \<Rightarrow> rd\<lparr>rd_port := False\<rparr>
         | Some n \<Rightarrow> rd\<lparr>rd_state := st\<lparr>ds_port := n\<rparr>, rd_port := n \<noteq> 0\<rparr>)
      else if k = ''web_url'' then rd\<lparr>rd_state := st\<lparr>ds_web_url := snd (daemon_state_copy_str 256 v)\<rparr>\<rparr>
      else if k = ''log_path'' then rd\<lparr>rd_state := st\<lparr>ds_log_path := snd (daemon_state_copy_str 4096 v)\<rparr>\<rparr>
      else if k = ''daemon_mode'' then
        (case daemon_state_parse_long v of
           None \<Rightarrow> rd
         | Some n \<Rightarrow> rd\<lparr>rd_state := st\<lparr>ds_daemon_mode := (if n \<noteq> 0 then 1 else 0)\<rparr>\<rparr>)
      else rd)"

definition daemon_state_read_line :: "string \<Rightarrow> state_reader \<Rightarrow> state_reader" where
  "daemon_state_read_line raw rd =
     (let line = cstr raw in
      case strchr line (CHR ''='') of
        None \<Rightarrow> rd
      | Some i \<Rightarrow>
          daemon_state_read_field (take i line)
            (takeWhile (\<lambda>c. c \<noteq> CHR 0x0D \<and> c \<noteq> CHR 0x0A) (drop (Suc i) line)) rd)"

function daemon_state_read_loop :: "bool \<Rightarrow> string \<Rightarrow> state_reader \<Rightarrow> state_reader" where
  "daemon_state_read_loop err s rd =
     (case fgets 4608 err s of
        None \<Rightarrow> rd
      | Some (line, rest) \<Rightarrow> daemon_state_read_loop err rest (daemon_state_read_line line rd))"
  by pat_completeness auto
termination
proof (relation "measure (\<lambda>(err, s, rd). length s)", goal_cases)
  case (2 err s rd p line rest)
  then have "fgets_split (Suc 4606) s = (line, rest)" "s \<noteq> []"
    by (auto simp: fgets_def split: if_splits prod.splits)
  then have "length rest < length s" by (rule fgets_split_shorter [rotated])
  then show ?case by simp
qed simp

declare daemon_state_read_loop.simps [simp del]

definition daemon_state_zero :: daemon_state where
  "daemon_state_zero = \<lparr>ds_pid = 0, ds_receive_dir = [], ds_web_url = [], ds_log_path = [], ds_port = 0, ds_daemon_mode = 0\<rparr>"

definition daemon_state_read :: "string option \<Rightarrow> fsys \<Rightarrow> daemon_state option \<times> fsys" where
  "daemon_state_read env f =
     (case daemon_state_default_state_path env 4096 of
        None \<Rightarrow> (None, f)
      | Some state_path \<Rightarrow>
         (case fs_open state_path [O_RDONLY] f of
            (Inl e, f1) \<Rightarrow> (None, f1)
          | (Inr fp, f1) \<Rightarrow>
             (case stdio_slurp fp [] f1 of
                (bytes, err, f2) \<Rightarrow>
                  let rd = daemon_state_read_loop err (string_of_bytes bytes)
                             \<lparr>rd_state = daemon_state_zero, rd_pid = False, rd_receive_dir = False, rd_port = False\<rparr>
                  in (if rd_pid rd \<and> rd_receive_dir rd \<and> rd_port rd then Some (rd_state rd) else None,
                      snd (fs_close fp f2)))))"

definition daemon_state_cleanup_files :: "string option \<Rightarrow> fsys \<Rightarrow> fsys" where
  "daemon_state_cleanup_files env f =
     (case daemon_state_default_state_path env 4096 of
        None \<Rightarrow> f
      | Some state_path \<Rightarrow> fs_remove_ignore_error state_path f)"


section \<open>The write is atomic\<close>

lemma daemon_state_open_loop_transfer:
  "daemon_state_open_loop path i a f =
     (case transfer_open_loop 4096 path i a f of
        (Inl e, f') \<Rightarrow> (None, f') | (Inr x, f') \<Rightarrow> (Some x, f'))"
proof (induction path i a f rule: daemon_state_open_loop.induct)
  case (1 path i a f)
  show ?case
    by (subst daemon_state_open_loop.simps, subst transfer_open_loop.simps)
      (auto split: option.splits sum.splits prod.splits simp: "1.IH")
qed

lemma daemon_state_write_text_file_effect:
  assumes "daemon_state_write_text_file path txt i f = (ok, f')" "fs_ok f"
  shows "if ok then delivered path (bytes_of_string txt) f f' else abandoned path i f f'"
    and "fs_quiet f \<Longrightarrow> fs_build_temp_path 4096 path i 0 = Some tmp \<Longrightarrow> nodes f (canon tmp) = None \<Longrightarrow>
      \<forall>m. nodes f (canon path) \<noteq> Some (DirN m) \<Longrightarrow> ok"
proof -
  obtain r f1 where op: "transfer_open_loop 4096 path i 0 f = (r, f1)" by fastforce
  note ol = transfer_open_loop_effect [OF op]
  have "(if ok then delivered path (bytes_of_string txt) f f' else abandoned path i f f') \<and>
    (fs_quiet f \<and> r \<noteq> Inl (projl r) \<and> (\<forall>m. nodes f (canon path) \<noteq> Some (DirN m)) \<longrightarrow> ok)"
  proof (cases r)
    case (Inl e)
    with ol have "abandoned path i f f1" by (auto intro: fs_untouched_abandoned assms(2))
    with Inl op assms(1) show ?thesis
      by (auto simp: daemon_state_write_text_file_def daemon_state_open_loop_transfer)
  next
    case (Inr x)
    obtain t fd where x: "x = (t, fd)" by fastforce
    from ol Inr x have to: "temp_opened path i f t fd f1" by simp
    then have app: "appending f1 fd (canon t) []" and t: "t \<noteq> []" and q1: "fs_quiet f \<longrightarrow> fs_quiet f1"
      by (auto simp: temp_opened_def dest: temp_path_not_Nil intro: fs_quiet_subset)
    obtain n f2 where w: "fs_write_all fd (bytes_of_string txt) f1 = (n, f2)" by fastforce
    obtain k where k: "appending f2 fd (canon t) (take k (bytes_of_string txt))" "only_touches (canon t) fd f1 f2"
      "n = int (length txt) \<longrightarrow> k = length txt" "fs_quiet f1 \<longrightarrow> n = int (length txt)"
      using fs_write_all_appending [OF w app] by auto
    have tf: "temp_filling path i f t fd (take k (bytes_of_string txt)) f2"
      by (rule temp_opened_filling [OF to assms(2) k(2,1)])
    then have fd: "fd \<noteq> - 1" by (auto simp: temp_filling_def)
    show ?thesis
    proof (cases "n = int (length txt)")
      case False
      then have "f' = transfer_cleanup (Inl PROTOCOL_ERR_IO) fd t f2" "\<not> ok"
        using assms(1) op Inr x w t fd
        by (auto simp: daemon_state_write_text_file_def daemon_state_open_loop_transfer transfer_cleanup_def)
      with transfer_cleanup_abandoned [OF tf t refl, of fd PROTOCOL_ERR_IO] False k(4) q1 show ?thesis by auto
    next
      case True
      obtain res out g where fin: "transfer_finalize_output fd t path (Suc (length path)) f2 = (res, out, g)"
        by (metis prod_cases3)
      have "ok = (\<not> isl res) \<and> f' = transfer_cleanup res out t g"
        using assms(1) op Inr x w t fd True fin
        by (auto simp: daemon_state_write_text_file_def daemon_state_open_loop_transfer transfer_cleanup_def
            transfer_finalize_output_def split: prod.splits bool.splits)
      moreover note transfer_finalize_delivered [OF tf t fin]
      ultimately show ?thesis using True k(3) by (cases res) auto
    qed
  qed
  then show "if ok then delivered path (bytes_of_string txt) f f' else abandoned path i f f'"
    and "fs_quiet f \<Longrightarrow> fs_build_temp_path 4096 path i 0 = Some tmp \<Longrightarrow> nodes f (canon tmp) = None \<Longrightarrow>
      \<forall>m. nodes f (canon path) \<noteq> Some (DirN m) \<Longrightarrow> ok"
    using transfer_open_loop_quiet [of f path i tmp] op by (blast, force)
qed

section \<open>Reading back what was written\<close>

lemma stdio_slurp_quiet:
  assumes "fds f fd = Some \<lparr>of_path = p, of_pos = pos\<rparr>" "nodes f p = Some (FileN c m)" "fs_quiet f"
  shows "\<exists>f'. stdio_slurp fd acc f = (acc @ drop pos c, False, f')"
  using assms
proof (induction fd acc f arbitrary: pos rule: stdio_slurp.induct)
  case (1 fd acc f)
  obtain ev g where pop: "fs_pop f = (ev, g)" by fastforce
  then obtain es where g: "g = f\<lparr>fs_sched := es\<rparr>" "set es \<subseteq> set (fs_sched f)" by (rule fs_popE)
  have ev: "ev = FsGo \<or> (\<exists>k. ev = FsShort (Suc k))" by (rule fs_quiet_no_fail [OF "1.prems"(3) pop])
  define k where "k = (case ev of FsShort j \<Rightarrow> min 4096 (Suc j) | _ \<Rightarrow> 4096)"
  define bs where "bs = take k (drop pos c)"
  define h where "h = g\<lparr>fds := (fds g)(fd \<mapsto> \<lparr>of_path = p, of_pos = pos + length bs\<rparr>)\<rparr>"
  have kpos: "0 < k" using ev by (auto simp: k_def)
  have rd: "fs_read fd 4096 f = (Inr bs, h)"
    using "1.prems" ev by (auto simp: fs_read_def posix_read_def pop g(1) Let_def bs_def k_def h_def)
  show ?case
  proof (cases "bs = []")
    case True
    then have "drop pos c = []" using kpos by (simp add: bs_def)
    with True rd show ?thesis by (simp add: stdio_slurp.simps [of fd acc f])
  next
    case False
    have h: "fds h fd = Some \<lparr>of_path = p, of_pos = pos + length bs\<rparr>" "nodes h p = Some (FileN c m)" "fs_quiet h"
      using "1.prems" g by (auto simp: h_def fs_quiet_def)
    have "drop (length bs) (drop pos c) = drop k (drop pos c)" by (simp add: bs_def min_def)
    then have "bs @ drop (length bs) (drop pos c) = drop pos c" by (simp only: bs_def append_take_drop_id)
    then have "bs @ drop (pos + length bs) c = drop pos c" by (simp add: add.commute)
    with "1.IH" [OF rd [symmetric] refl False h] rd False show ?thesis
      by (simp add: stdio_slurp.simps [of fd acc f])
  qed
qed


lemma fgets_split_line:
  "CHR 0x0A \<notin> set l \<Longrightarrow> length l < n \<Longrightarrow> fgets_split n (l @ CHR 0x0A # r) = (l @ [CHR 0x0A], r)"
proof (induction l arbitrary: n)
  case Nil
  then show ?case by (cases n) auto
next
  case (Cons c l)
  then show ?case by (cases n) auto
qed

lemma daemon_state_read_loop_line:
  assumes "CHR 0x0A \<notin> set l" "length l < 4607"
  shows "daemon_state_read_loop err (l @ CHR 0x0A # r) rd =
    daemon_state_read_loop err r (daemon_state_read_line (l @ [CHR 0x0A]) rd)"
  using fgets_split_line [OF assms, of r]
  by (simp add: daemon_state_read_loop.simps [of err "l @ CHR 0x0A # r"] fgets_def)

text \<open>A value that survives a line of text.\<close>

definition plain :: "string \<Rightarrow> bool" where
  "plain v \<longleftrightarrow> cstring v \<and> CHR 0x0A \<notin> set v \<and> CHR 0x0D \<notin> set v"

lemma daemon_state_read_line_field:
  assumes "plain k" "CHR ''='' \<notin> set k" "plain v"
  shows "daemon_state_read_line (k @ CHR ''='' # v @ [CHR 0x0A]) rd = daemon_state_read_field k v rd"
proof -
  have "takeWhile (\<lambda>c. c \<noteq> CHR 0x0D \<and> c \<noteq> CHR 0x0A) (v @ [CHR 0x0A]) = v"
    using assms(3) by (subst takeWhile_append2) (auto simp: plain_def)
  moreover have "cstring (k @ CHR ''='' # v @ [CHR 0x0A])" using assms by (auto simp: plain_def)
  ultimately show ?thesis
    using assms(2) by (simp add: daemon_state_read_line_def strchr_append_Cons Let_def)
qed

lemma daemon_state_read_loop_fields:
  assumes "\<forall>(k, v) \<in> set kvs. plain k \<and> CHR ''='' \<notin> set k \<and> plain v \<and> length k + length v < 4606"
  shows "daemon_state_read_loop err (concat (map (\<lambda>(k, v). k @ ''='' @ v @ [CHR 0x0A]) kvs)) rd =
    foldl (\<lambda>rd (k, v). daemon_state_read_field k v rd) rd kvs"
  using assms
proof (induction kvs arbitrary: rd)
  case Nil
  show ?case by (simp add: daemon_state_read_loop.simps fgets_def)
next
  case (Cons kv kvs)
  obtain k v where kv: "kv = (k, v)" by fastforce
  with Cons.prems have l: "CHR 0x0A \<notin> set (k @ CHR ''='' # v)" "length (k @ CHR ''='' # v) < 4607"
    and f: "plain k" "CHR ''='' \<notin> set k" "plain v" by (auto simp: plain_def)
  from daemon_state_read_loop_line [OF l] daemon_state_read_line_field [OF f] Cons kv
  show ?case by simp
qed

lemma plain_numbers [simp]: "plain (show_int i)" "plain (show_nat n)"
  using show_int_chars show_nat_chars by (simp_all add: plain_def)

text \<open>The states a server may record, each field within the array that holds it.\<close>

definition daemon_state_ok :: "daemon_state \<Rightarrow> bool" where
  "daemon_state_ok st \<longleftrightarrow> 0 < ds_pid st \<and> ds_pid st < 2 ^ 63 \<and> ds_port st \<noteq> 0 \<and> ds_daemon_mode st \<in> {0, 1} \<and>
     ds_receive_dir st \<noteq> [] \<and> plain (ds_receive_dir st) \<and> length (ds_receive_dir st) < 4096 \<and>
     plain (ds_web_url st) \<and> length (ds_web_url st) < 256 \<and> plain (ds_log_path st) \<and> length (ds_log_path st) < 4096"

lemma length_show_int_le:
  assumes "- (2 ^ 63) \<le> i" "i < 2 ^ 63"
  shows "length (show_int i) \<le> 20"
proof -
  have "nat i < 10 ^ 19" "nat (- i) < 10 ^ 19" using assms by (simp_all add: nat_less_iff)
  then have "length (show_nat (nat i)) \<le> 19" "length (show_nat (nat (- i))) \<le> 19" by (simp_all add: length_show_nat)
  then show ?thesis by (simp add: show_int_def)
qed

lemma daemon_state_lines_ok:
  assumes "daemon_state_ok st"
  shows "\<forall>(k, v) \<in> set (daemon_state_lines st). plain k \<and> CHR ''='' \<notin> set k \<and> plain v \<and> length k + length v < 4606"
    and "length (daemon_state_text st) < 12288"
proof -
  have n: "length (show_int (ds_pid st)) \<le> 20" "length (show_int (ds_daemon_mode st)) \<le> 20"
    "length (show_nat (unat (ds_port st))) \<le> 5"
    using assms unsigned_less [of "ds_port st", where 'a = nat]
    by (auto simp: daemon_state_ok_def intro!: length_show_int_le length_show_nat)
  have keys: "plain ''pid''" "plain ''receive_dir''" "plain ''port''" "plain ''web_url''" "plain ''log_path''"
    "plain ''daemon_mode''" by code_simp+
  show "\<forall>(k, v) \<in> set (daemon_state_lines st). plain k \<and> CHR ''='' \<notin> set k \<and> plain v \<and> length k + length v < 4606"
    using assms n keys by (simp add: daemon_state_lines_def daemon_state_ok_def)
  show "length (daemon_state_text st) < 12288"
    using assms n by (simp add: daemon_state_text_def daemon_state_lines_def daemon_state_ok_def)
qed

lemma daemon_state_parse_shown:
  "0 \<le> i \<Longrightarrow> i < 2 ^ 63 \<Longrightarrow> daemon_state_parse_long (show_int i) = Some i"
  "daemon_state_parse_u16 (show_nat (unat (p :: u16))) = Some p"
proof -
  show "daemon_state_parse_long (show_int i) = Some i" if "0 \<le> i" "i < 2 ^ 63"
    using that show_int_chars(4) [of i] by (simp add: daemon_state_parse_long_def)
  have lt: "unat p < 65536" using unsigned_less [of p, where 'a = nat] by simp
  have u: "unat (of_nat (unat p) :: u64) = unat p" unfolding unat_of_nat using lt by simp
  have "unat (ucast (of_nat (unat p) :: u64) :: u16) = unat p"
    unfolding unsigned_ucast_eq u by (rule take_bit_nat_eq_self) (use lt in simp)
  then have "(ucast (of_nat (unat p) :: u64) :: u16) = p" by (simp only: word_unat_eq_iff)
  moreover have "\<not> (of_nat (unat p) :: u64) > 65535" using u lt by (simp only: word_less_nat_alt) simp
  moreover have "strtoul10 (show_nat (unat p)) = Some (of_nat (unat p), [], False)"
    using lt by (intro strtoul10_show) simp
  ultimately show "daemon_state_parse_u16 (show_nat (unat p)) = Some p"
    by (simp add: daemon_state_parse_u16_def del: of_nat_unat)
qed

lemma daemon_state_fields_back:
  assumes "daemon_state_ok st"
  shows "foldl (\<lambda>rd (k, v). daemon_state_read_field k v rd)
      \<lparr>rd_state = daemon_state_zero, rd_pid = False, rd_receive_dir = False, rd_port = False\<rparr> (daemon_state_lines st) =
    \<lparr>rd_state = st, rd_pid = True, rd_receive_dir = True, rd_port = True\<rparr>"
  using assms
  by (cases st) (auto simp: daemon_state_lines_def daemon_state_ok_def daemon_state_read_field_def daemon_state_parse_shown
      daemon_state_copy_str_def snprintf_trunc_def daemon_state_zero_def Let_def)

text \<open>Reading a file that holds the text of a state.\<close>

lemma daemon_state_read_text:
  assumes "daemon_state_default_state_path env 4096 = Some p" "nodes f (canon p) = Some (FileN (bytes_of_string txt) m)"
    and "fs_quiet f"
  shows "fst (daemon_state_read env f) =
    (let rd = daemon_state_read_loop False txt
                \<lparr>rd_state = daemon_state_zero, rd_pid = False, rd_receive_dir = False, rd_port = False\<rparr>
     in if rd_pid rd \<and> rd_receive_dir rd \<and> rd_port rd then Some (rd_state rd) else None)"
proof -
  obtain ev g where pop: "fs_pop f = (ev, g)" by fastforce
  then obtain es where g: "g = f\<lparr>fs_sched := es\<rparr>" "set es \<subseteq> set (fs_sched f)" by (rule fs_popE)
  have ev: "ev = FsGo \<or> (\<exists>k. ev = FsShort (Suc k))" by (rule fs_quiet_no_fail [OF assms(3) pop])
  define h where "h = snd (new_fd (canon p) g)"
  have op: "fs_open p [O_RDONLY] f = (Inr (int (next_fd f)), h)"
    using assms(2) ev by (auto simp: fs_open_def posix_open_def pop g(1) open_node_def Let_def new_fd_def h_def)
  have "fds h (int (next_fd f)) = Some \<lparr>of_path = canon p, of_pos = 0\<rparr>"
    "nodes h (canon p) = Some (FileN (bytes_of_string txt) m)" "fs_quiet h"
    using assms(2,3) g by (auto simp: h_def new_fd_def fs_quiet_def)
  from stdio_slurp_quiet [OF this, of "[]"] obtain f2 where
    "stdio_slurp (int (next_fd f)) [] h = (bytes_of_string txt, False, f2)" by auto
  with op assms(1) show ?thesis by (simp add: daemon_state_read_def Let_def)
qed


section \<open>Properties\<close>

text \<open>
C28: The state of the daemon is stored all at once: when the write succeeds the state file holds exactly the text of the
state, when it fails the state file is as before, and no descriptor stays open. When no call
fails, the write succeeds.
\<close>
theorem daemon_state_write_atomic:
  assumes "daemon_state_write env i st f = (ok, f')" "fs_ok f" "daemon_state_default_state_path env 4096 = Some p"
  shows "fds f' = fds f \<and> fs_ok f' \<and>
    (ok \<longrightarrow> (\<exists>m. nodes f' (canon p) = Some (FileN (bytes_of_string (daemon_state_text st)) m)) \<and>
       (\<forall>q. q \<noteq> canon p \<longrightarrow> nodes f' q = nodes f q)) \<and>
    (\<not> ok \<longrightarrow> nodes f' (canon p) = nodes f (canon p) \<and> (fs_quiet f \<longrightarrow> nodes f' = nodes f)) \<and>
    (fs_quiet f \<and> daemon_state_ok st \<and> length p < 4000 \<and> - (2 ^ 31) \<le> i \<and> i < 2 ^ 31 \<and>
       (\<forall>m. nodes f (canon p) \<noteq> Some (DirN m)) \<and>
       nodes f (canon (the (fs_build_temp_path 4096 p i 0))) = None \<longrightarrow> ok)"
proof (cases "ds_pid st \<le> 0 \<or> ds_receive_dir st = [] \<or> ds_port st = 0 \<or> \<not> length (daemon_state_text st) < 12288")
  case True
  then have "ok = False \<and> f' = f" using assms(1,3) by (auto simp: daemon_state_write_def snprintf_checked_def split: if_splits)
  moreover from True have "\<not> daemon_state_ok st"
    using daemon_state_lines_ok(2) [of st] by (auto simp: daemon_state_ok_def)
  ultimately show ?thesis using assms(2) by simp
next
  case False
  then have w: "daemon_state_write_text_file p (daemon_state_text st) i f = (ok, f')"
    using assms(1,3) by (simp add: daemon_state_write_def snprintf_checked_def)
  note eff = daemon_state_write_text_file_effect [OF w assms(2)]
  have tmp: "\<exists>tmp. fs_build_temp_path 4096 p i 0 = Some tmp" if "length p < 4000" "- (2 ^ 31) \<le> i" "i < 2 ^ 31"
    using that length_show_int_le [of i] length_show_int_le [of 0]
    by (simp add: fs_build_temp_path_def snprintf_checked_def)
  show ?thesis
  proof (intro conjI impI)
    show "fds f' = fds f" "fs_ok f'" using eff(1) by (auto simp: delivered_def abandoned_def split: if_splits)
    show "\<exists>m. nodes f' (canon p) = Some (FileN (bytes_of_string (daemon_state_text st)) m)"
      "\<forall>q. q \<noteq> canon p \<longrightarrow> nodes f' q = nodes f q" if ok
      using that eff(1) by (auto simp: delivered_def)
    show "nodes f' (canon p) = nodes f (canon p)" if "\<not> ok"
      using that eff(1) temp_path_other by (force simp: abandoned_def)
    show "nodes f' = nodes f" if "\<not> ok" "fs_quiet f" using that eff(1) by (auto simp: abandoned_def)
    show ok if "fs_quiet f \<and> daemon_state_ok st \<and> length p < 4000 \<and> - (2 ^ 31) \<le> i \<and> i < 2 ^ 31 \<and>
       (\<forall>m. nodes f (canon p) \<noteq> Some (DirN m)) \<and> nodes f (canon (the (fs_build_temp_path 4096 p i 0))) = None"
      using that eff(2) tmp by force
  qed
qed

text \<open>
C29: What the server writes is what \<^verbatim>\<open>hf status\<close> and \<^verbatim>\<open>hf stop\<close> read: after a successful write of a state
whose values have no line break, reading the file gives exactly that state back.
\<close>
theorem daemon_state_round_trip:
  assumes "daemon_state_write env i st f = (True, f')" "daemon_state_ok st" "fs_ok f" "fs_quiet f"
  shows "fst (daemon_state_read env f') = Some st"
proof -
  obtain p where p: "daemon_state_default_state_path env 4096 = Some p"
    using assms(1) by (auto simp: daemon_state_write_def split: if_splits option.splits)
  then have "daemon_state_write_text_file p (daemon_state_text st) i f = (True, f')"
    using assms(1) by (auto simp: daemon_state_write_def snprintf_checked_def split: if_splits)
  from daemon_state_write_text_file_effect(1) [OF this assms(3)] obtain m where
    m: "nodes f' (canon p) = Some (FileN (bytes_of_string (daemon_state_text st)) m)" and "fs_quiet f'"
    using assms(4) by (auto simp: delivered_def intro: fs_quiet_subset)
  then show ?thesis
    using daemon_state_read_text [OF p m] daemon_state_read_loop_fields [OF daemon_state_lines_ok(1) [OF assms(2)]]
      daemon_state_fields_back [OF assms(2)]
    by (simp add: daemon_state_text_def)
qed

text \<open>A server of process 7, and a file system with the directory \<^verbatim>\<open>/tmp\<close>.\<close>

definition tmp_fs :: "(path \<Rightarrow> node option) \<Rightarrow> fsys" where
  "tmp_fs ns = \<lparr>nodes = [[''/'', ''tmp''] \<mapsto> DirN 0] ++ ns, fds = Map.empty, next_fd = 3, fs_sched = [FsGo, FsShort 4], fs_now = 7\<rparr>"

definition demo_state :: daemon_state where
  "demo_state = \<lparr>ds_pid = 7, ds_receive_dir = ''/srv'', ds_web_url = ''http://10.0.0.5:8888/'',
     ds_log_path = ''/tmp/hf-daemon.log'', ds_port = 8888, ds_daemon_mode = 1\<rparr>"

lemma tmp_fs_ok: "fs_ok (tmp_fs ns)" "fs_quiet (tmp_fs ns)"
  by (auto simp: tmp_fs_def fs_ok_def fs_quiet_def numeral_eq_Suc)

lemma state_path_tmp: "daemon_state_default_state_path None 4096 = Some ''/tmp/hf-daemon.state''"
  by (simp add: daemon_state_default_state_path_def daemon_state_global_path_def daemon_state_tmp_dir_def
      daemon_state_copy_str_def snprintf_trunc_def fs_join_path_def snprintf_checked_def)

lemma demo_state_ok: "daemon_state_ok demo_state"
  by (simp add: daemon_state_ok_def demo_state_def plain_def)

lemma demo_state_temp:
  "fs_build_temp_path 4096 ''/tmp/hf-daemon.state'' 7 0 = Some ''/tmp/hf-daemon.state.tmp.7.0''"
  "canon ''/tmp/hf-daemon.state'' = [''/'', ''tmp'', ''hf-daemon.state'']"
  "canon ''/tmp/hf-daemon.state.tmp.7.0'' = [''/'', ''tmp'', ''hf-daemon.state.tmp.7.0'']"
proof -
  have "show_int 7 = ''7''" "show_int 0 = ''0''" by code_simp+
  then show "fs_build_temp_path 4096 ''/tmp/hf-daemon.state'' 7 0 = Some ''/tmp/hf-daemon.state.tmp.7.0''"
    by (simp add: fs_build_temp_path_def snprintf_checked_def)
  show "canon ''/tmp/hf-daemon.state'' = [''/'', ''tmp'', ''hf-daemon.state'']"
    "canon ''/tmp/hf-daemon.state.tmp.7.0'' = [''/'', ''tmp'', ''hf-daemon.state.tmp.7.0'']" by code_simp+
qed

lemma demo_state_written: "fst (daemon_state_write None 7 demo_state (tmp_fs Map.empty))"
proof -
  have "fst (daemon_state_write_text_file ''/tmp/hf-daemon.state'' (daemon_state_text demo_state) 7 (tmp_fs Map.empty))"
    by (rule daemon_state_write_text_file_effect(2) [OF surjective_pairing tmp_fs_ok demo_state_temp(1)])
      (simp_all add: demo_state_temp(2,3) tmp_fs_def)
  moreover have "length (daemon_state_text demo_state) < 12288"
    by (rule daemon_state_lines_ok(2) [OF demo_state_ok])
  ultimately show ?thesis
    by (simp add: daemon_state_write_def state_path_tmp snprintf_checked_def) (simp add: demo_state_def)
qed

theorem daemon_state_write_atomic_witness:
  "let f' = snd (daemon_state_write None 7 demo_state (tmp_fs Map.empty)) in
   fst (daemon_state_write None 7 demo_state (tmp_fs Map.empty)) \<and> fds f' = Map.empty \<and>
   (\<exists>m. nodes f' [''/'', ''tmp'', ''hf-daemon.state''] = Some (FileN (bytes_of_string (daemon_state_text demo_state)) m))"
  using daemon_state_write_atomic [OF surjective_pairing tmp_fs_ok(1) state_path_tmp, of 7 demo_state Map.empty]
    demo_state_written
  unfolding Let_def demo_state_temp(2) by (simp add: tmp_fs_def)

theorem daemon_state_round_trip_witness:
  "fst (daemon_state_read None (snd (daemon_state_write None 7 demo_state (tmp_fs Map.empty)))) = Some demo_state"
  by (rule daemon_state_round_trip [OF _ demo_state_ok tmp_fs_ok])
    (use demo_state_written in \<open>simp add: prod_eq_iff\<close>)


text \<open>
C33: A receive directory with a line feed in its name breaks the state file: the part after the line feed is
read as a field of its own, so that such a name can replace the process id that \<^verbatim>\<open>hf stop\<close> signals.
\<close>
theorem daemon_state_line_injection:
  assumes "st' = st\<lparr>ds_receive_dir := ds_receive_dir st @ CHR 0x0A # ''pid='' @ show_int j\<rparr>"
    and "daemon_state_ok st" "0 < j" "j < 2 ^ 63"
    and "daemon_state_write env i st' f = (True, f')" "fs_ok f" "fs_quiet f"
  shows "fst (daemon_state_read env f') = Some (st\<lparr>ds_pid := j\<rparr>)"
proof -
  define kvs where "kvs = [(''pid'', show_int (ds_pid st)), (''receive_dir'', ds_receive_dir st), (''pid'', show_int j)] @
    drop 2 (daemon_state_lines st)"
  have written: "daemon_state_text st' = concat (map (\<lambda>(k, v). k @ ''='' @ v @ [CHR 0x0A]) kvs)"
    by (simp add: daemon_state_text_def daemon_state_lines_def kvs_def assms(1))
  have "length (show_int j) \<le> 20" "plain ''pid''" using assms(3,4) by (auto intro: length_show_int_le simp: plain_def)
  moreover have "set (drop 2 (daemon_state_lines st)) \<subseteq> set (daemon_state_lines st)" by (rule set_drop_subset)
  ultimately have ok: "\<forall>(k, v) \<in> set kvs. plain k \<and> CHR ''='' \<notin> set k \<and> plain v \<and> length k + length v < 4606"
    using daemon_state_lines_ok(1) [OF assms(2)] by (auto simp: kvs_def daemon_state_lines_def)
  obtain p where p: "daemon_state_default_state_path env 4096 = Some p"
    using assms(5) by (auto simp: daemon_state_write_def split: if_splits option.splits)
  then have "daemon_state_write_text_file p (daemon_state_text st') i f = (True, f')"
    using assms(5) by (auto simp: daemon_state_write_def snprintf_checked_def split: if_splits)
  from daemon_state_write_text_file_effect(1) [OF this assms(6)] obtain m where
    m: "nodes f' (canon p) = Some (FileN (bytes_of_string (daemon_state_text st')) m)" and q: "fs_quiet f'"
    using assms(7) by (auto simp: delivered_def intro: fs_quiet_subset)
  have "foldl (\<lambda>rd (k, v). daemon_state_read_field k v rd)
      \<lparr>rd_state = daemon_state_zero, rd_pid = False, rd_receive_dir = False, rd_port = False\<rparr> kvs =
    \<lparr>rd_state = st\<lparr>ds_pid := j\<rparr>, rd_pid = True, rd_receive_dir = True, rd_port = True\<rparr>"
    using assms(2-4) unfolding kvs_def
    by (cases st) (auto simp: daemon_state_lines_def daemon_state_ok_def daemon_state_read_field_def daemon_state_parse_shown
        daemon_state_copy_str_def snprintf_trunc_def daemon_state_zero_def Let_def)
  then show ?thesis
    using daemon_state_read_text [OF p m q] daemon_state_read_loop_fields [OF ok] by (simp add: written)
qed

definition demo_bad_state :: daemon_state where
  "demo_bad_state = demo_state\<lparr>ds_receive_dir := ''/srv'' @ CHR 0x0A # ''pid='' @ show_int 1\<rparr>"

theorem daemon_state_line_injection_witness:
  "map_option ds_pid (fst (daemon_state_read None (snd (daemon_state_write None 7 demo_bad_state (tmp_fs Map.empty))))) = Some 1 \<and>
   ds_pid demo_bad_state = 7"
proof -
  have "length (show_int 1) \<le> 20" "length (show_int 7) \<le> 20" "length (show_nat 8888) \<le> 20"
    by (auto intro: length_show_int_le length_show_nat order_trans [OF length_show_nat [of _ 4]])
  then have "length (daemon_state_text demo_bad_state) < 12288"
    by (simp add: daemon_state_text_def daemon_state_lines_def demo_bad_state_def demo_state_def)
  moreover have "fst (daemon_state_write_text_file ''/tmp/hf-daemon.state'' (daemon_state_text demo_bad_state) 7 (tmp_fs Map.empty))"
    by (rule daemon_state_write_text_file_effect(2) [OF surjective_pairing tmp_fs_ok demo_state_temp(1)])
      (simp_all add: demo_state_temp(2,3) tmp_fs_def)
  ultimately have w: "daemon_state_write None 7 demo_bad_state (tmp_fs Map.empty) =
      (True, snd (daemon_state_write None 7 demo_bad_state (tmp_fs Map.empty)))"
    by (simp add: daemon_state_write_def state_path_tmp snprintf_checked_def prod_eq_iff)
      (simp add: demo_bad_state_def demo_state_def)
  have "demo_bad_state = demo_state\<lparr>ds_receive_dir := ds_receive_dir demo_state @ CHR 0x0A # ''pid='' @ show_int 1\<rparr>"
    by (simp add: demo_bad_state_def demo_state_def)
  from daemon_state_line_injection [OF this demo_state_ok _ _ w tmp_fs_ok]
  show ?thesis by (simp add: demo_bad_state_def demo_state_def)
qed


section \<open>What reading the state changes\<close>

lemma fs_read_frame:
  assumes "fs_read fd n f = (r, f')"
  shows "nodes f' = nodes f" "next_fd f' = next_fd f" "set (fs_sched f') \<subseteq> set (fs_sched f)"
    "d \<noteq> fd \<Longrightarrow> fds f' d = fds f d"
  using assms
  by (auto simp: fs_read_def posix_read_def Let_def elim!: fs_popE
      split: prod.splits fs_event.splits option.splits node.splits if_splits)

lemma stdio_slurp_frame:
  "stdio_slurp fd acc f = (bs, err, f') \<Longrightarrow> nodes f' = nodes f \<and> next_fd f' = next_fd f \<and>
     set (fs_sched f') \<subseteq> set (fs_sched f) \<and> (\<forall>d. d \<noteq> fd \<longrightarrow> fds f' d = fds f d)"
proof (induction fd acc f rule: stdio_slurp.induct)
  case (1 fd acc f)
  obtain r g where rd: "fs_read fd 4096 f = (r, g)" by fastforce
  note fr = fs_read_frame [OF rd]
  show ?case
  proof (cases "\<exists>bs'. r = Inr bs' \<and> bs' \<noteq> []")
    case True
    then obtain bs' where b: "r = Inr bs'" "bs' \<noteq> []" by blast
    with "1.prems" rd have "stdio_slurp fd (acc @ bs') g = (bs, err, f')"
      by (simp add: stdio_slurp.simps [of fd acc f])
    from "1.IH" [OF rd [symmetric] b this] fr show ?thesis by auto
  next
    case False
    with "1.prems" rd have "f' = g"
      by (auto simp: stdio_slurp.simps [of fd acc f] split: sum.splits)
    with fr show ?thesis by auto
  qed
qed

lemma fs_open_rdonly_cases:
  assumes "fs_open path [O_RDONLY] f = (r, f')"
  obtains (fail) e where "r = Inl e" "nodes f' = nodes f" "fds f' = fds f" "next_fd f' = next_fd f"
      "set (fs_sched f') \<subseteq> set (fs_sched f)"
  | (ok) fd p where "r = Inr fd" "fd = int (next_fd f)" "nodes f' = nodes f" "nodes f (canon path) \<noteq> None"
      "fds f' = (fds f)(fd \<mapsto> p)" "next_fd f' = Suc (next_fd f)" "set (fs_sched f') \<subseteq> set (fs_sched f)"
proof -
  obtain ev g where pop: "fs_pop f = (ev, g)" by fastforce
  then obtain es where g: "g = f\<lparr>fs_sched := es\<rparr>" "set es \<subseteq> set (fs_sched f)" by (rule fs_popE)
  show thesis
    using assms fail ok g pop
    by (auto simp: fs_open_def posix_open_def open_node_def new_fd_def Let_def
        split: fs_event.splits option.splits node.splits)
qed

lemma daemon_state_read_frame:
  assumes "daemon_state_read env f = (r, f')" "fs_ok f"
  shows "nodes f' = nodes f" "fds f' = fds f" "fs_ok f'" "set (fs_sched f') \<subseteq> set (fs_sched f)"
    and "daemon_state_default_state_path env 4096 = Some p \<Longrightarrow> nodes f (canon p) = None \<Longrightarrow> r = None"
proof -
  have "nodes f' = nodes f \<and> fds f' = fds f \<and> fs_ok f' \<and> set (fs_sched f') \<subseteq> set (fs_sched f) \<and>
    (daemon_state_default_state_path env 4096 = Some p \<longrightarrow> nodes f (canon p) = None \<longrightarrow> r = None)"
  proof (cases "daemon_state_default_state_path env 4096")
    case None
    with assms show ?thesis by (simp add: daemon_state_read_def)
  next
    case (Some path)
    obtain x f1 where op: "fs_open path [O_RDONLY] f = (x, f1)" by fastforce
    from op show ?thesis
    proof (cases rule: fs_open_rdonly_cases)
      case (fail e)
      with assms Some op show ?thesis by (auto simp: daemon_state_read_def fs_ok_def)
    next
      case (ok fd o')
      obtain bs err f2 where sl: "stdio_slurp fd [] f1 = (bs, err, f2)" by (metis prod_cases3)
      have f': "f' = snd (fs_close fd f2)"
        using assms(1) Some op ok(1) sl by (simp add: daemon_state_read_def Let_def split: if_splits)
      note cl = fs_close_effect [of fd f2 "fst (fs_close fd f2)" f', unfolded f', OF surjective_pairing, folded f']
      have "fds f fd = None" using assms(2) ok(2) by (simp add: fs_ok_def)
      then have "fds f' = fds f"
        using cl(2) stdio_slurp_frame [OF sl] ok(5) by (auto simp: fun_eq_iff)
      moreover have "nodes f' = nodes f" "set (fs_sched f') \<subseteq> set (fs_sched f)" "next_fd f' = Suc (next_fd f)"
        using cl stdio_slurp_frame [OF sl] ok by auto
      ultimately show ?thesis using ok(4) Some assms(2) by (auto simp: fs_ok_def)
    qed
  qed
  then show "nodes f' = nodes f" "fds f' = fds f" "fs_ok f'" "set (fs_sched f') \<subseteq> set (fs_sched f)"
    and "daemon_state_default_state_path env 4096 = Some p \<Longrightarrow> nodes f (canon p) = None \<Longrightarrow> r = None"
    by blast+
qed

lemma daemon_state_cleanup_effect:
  "fds (daemon_state_cleanup_files env f) = fds f"
  "fs_ok f \<Longrightarrow> fs_ok (daemon_state_cleanup_files env f)"
  "set (fs_sched (daemon_state_cleanup_files env f)) \<subseteq> set (fs_sched f)"
  "daemon_state_default_state_path env 4096 = Some p \<Longrightarrow> q \<noteq> canon p \<Longrightarrow>
     nodes (daemon_state_cleanup_files env f) q = nodes f q"
  "daemon_state_default_state_path env 4096 = Some p \<Longrightarrow> fs_quiet f \<Longrightarrow>
     nodes (daemon_state_cleanup_files env f) (canon p) = None"
  using fs_remove_effect
  by (auto simp: daemon_state_cleanup_files_def fs_ok_def split: option.splits)

end
