(* ===== verification/Control.thy ===== *)
theory Control
  imports Daemon_State
begin

text \<open>
  \<^verbatim>\<open>src/control.c\<close>: \<^verbatim>\<open>hf status\<close> and \<^verbatim>\<open>hf stop\<close>, and what the server prints about itself. What is printed is a
  string, one \<^typ>\<open>char\<close> per byte. The QR code generator of \<^verbatim>\<open>src/third_party/qrcodegen\<close> is a parameter:
  for a text the size of the code and its modules, or \<open>None\<close> where \<^verbatim>\<open>qrcodegen_encodeText\<close> fails. The address
  that \<^verbatim>\<open>net_primary_ipv4\<close> finds is a parameter too, \<open>None\<close> for its failure.
\<close>

type_synonym qr_code = "int \<times> (int \<Rightarrow> int \<Rightarrow> bool)"
type_synonym qr_encoder = "string \<Rightarrow> qr_code option"

section \<open>Printing\<close>

text \<open>\<^verbatim>\<open>%-12s\<close>.\<close>

definition pad_right :: "nat \<Rightarrow> string \<Rightarrow> string" where
  "pad_right n s = s @ replicate (n - length s) (CHR '' '')"

definition control_print_rich_field :: "string \<Rightarrow> string \<Rightarrow> string" where
  "control_print_rich_field lbl v = ''  '' @ pad_right 12 lbl @ '' '' @ v @ [CHR 0x0A]"

definition control_print_rich_field_num :: "string \<Rightarrow> u64 \<Rightarrow> string" where
  "control_print_rich_field_num lbl v =
     (case snprintf_checked 64 (show_nat (unat v)) of
        None \<Rightarrow> []
      | Some buf \<Rightarrow> control_print_rich_field lbl buf)"

definition control_print_startup_banner :: string where
  "control_print_startup_banner = concat (map (\<lambda>l. l @ [CHR 0x0A])
     [''    __ _______ __   '',
      ''   / // / __(_) /__ '',
      ''  / _  / _// / / -_)'',
      '' /_//_/_/ /_/_/'' @ [CHR 0x5C] @ ''__/'',
      ''https://github.com/syhhyl/HFile''])"

text \<open>
  The return value is 0 where the first component is \<open>True\<close>; then the buffer of \<open>url_out_cap\<close> bytes and
  \<^verbatim>\<open>*phone_reachable_out\<close>, which the callers have set to the empty string and 0.
\<close>

definition control_build_url :: "string option \<Rightarrow> u16 \<Rightarrow> nat \<Rightarrow> bool \<times> string \<times> bool" where
  "control_build_url ip port url_out_cap =
     (if url_out_cap = 0 \<or> port = 0 then (False, [], False)
      else
        let (host, phone_reachable) = (case ip of Some a \<Rightarrow> (a, True) | None \<Rightarrow> (''127.0.0.1'', False));
            url = ''http://'' @ host @ '':'' @ show_nat (unat port) @ ''/''
        in (length url < url_out_cap, snprintf_trunc url_out_cap url, phone_reachable))"

section \<open>The QR code\<close>

text \<open>The module at a place of the picture; outside the code it is light.\<close>

definition qr_module :: "qr_code \<Rightarrow> int \<Rightarrow> int \<Rightarrow> bool" where
  "qr_module code x y =
     (case code of (sz, md) \<Rightarrow> if x \<ge> 0 \<and> x < sz \<and> y \<ge> 0 \<and> y < sz then md x y else False)"

text \<open>Two modules, one above the other, in one character cell: full, upper half, lower half block or a space.\<close>

definition qr_glyph :: "bool \<Rightarrow> bool \<Rightarrow> string" where
  "qr_glyph upper lower =
     (if upper \<and> lower then [CHR 0xE2, CHR 0x96, CHR 0x88]
      else if upper then [CHR 0xE2, CHR 0x96, CHR 0x80]
      else if lower then [CHR 0xE2, CHR 0x96, CHR 0x84]
      else '' '')"

function qr_row :: "qr_code \<Rightarrow> int \<Rightarrow> int \<Rightarrow> int \<Rightarrow> string" where
  "qr_row code border y x =
     (if x < fst code + border
      then qr_glyph (qr_module code x y) (qr_module code x (y + 1)) @ qr_row code border y (x + 1)
      else [])"
  by pat_completeness auto
termination
  by (relation "measure (\<lambda>(code, border, y, x). nat (fst code + border - x))") auto

function qr_rows :: "qr_code \<Rightarrow> int \<Rightarrow> int \<Rightarrow> string" where
  "qr_rows code border y =
     (if y < fst code + border
      then qr_row code border y (- border) @ CHR 0x0A # qr_rows code border (y + 2)
      else [])"
  by pat_completeness auto
termination
  by (relation "measure (\<lambda>(code, border, y). nat (fst code + border - y))") auto

declare qr_row.simps [simp del] qr_rows.simps [simp del]

text \<open>\<open>out_err\<close>: whether \<^verbatim>\<open>ferror(out)\<close> is set at the end.\<close>

definition control_print_qr_to :: "qr_encoder \<Rightarrow> bool \<Rightarrow> string \<Rightarrow> int \<Rightarrow> int \<times> string" where
  "control_print_qr_to enc out_err url border =
     (if url = [] \<or> border < 0 then (1, [])
      else case enc url of
        None \<Rightarrow> (1, [])
      | Some code \<Rightarrow> (if out_err then 1 else 0, qr_rows code border (- border)))"

section \<open>What the server prints\<close>

definition control_print_server_access_details ::
  "qr_encoder \<Rightarrow> string option \<Rightarrow> string \<Rightarrow> u16 \<Rightarrow> bool \<Rightarrow> string" where
  "control_print_server_access_details enc ip receive_dir port daemon_mode =
     (let (ok, url, phone_reachable) = control_build_url ip port 256 in
      control_print_startup_banner @
      control_print_rich_field ''Receive Dir'' receive_dir @
      (if url \<noteq> [] then
         control_print_rich_field ''Web'' url @
         (if \<not> phone_reachable
          then control_print_rich_field ''Mobile'' ''LAN IPv4 not detected, using localhost'' else [])
       else []) @
      (if \<not> daemon_mode then control_print_rich_field ''Status'' ''Waiting for files and messages'' else []) @
      (if url \<noteq> [] then snd (control_print_qr_to enc False url 1) else []))"

definition control_print_status :: "qr_encoder \<Rightarrow> daemon_state \<Rightarrow> string" where
  "control_print_status enc st =
     control_print_startup_banner @
     control_print_rich_field ''Receive Dir'' (ds_receive_dir st) @
     control_print_rich_field_num ''PID'' (word_of_int (ds_pid st)) @
     control_print_rich_field ''Web'' (ds_web_url st) @
     (if ds_web_url st \<noteq> [] then snd (control_print_qr_to enc False (ds_web_url st) 1) else [])"

section \<open>Processes\<close>

text \<open>
  The processes as \<^verbatim>\<open>kill\<close> shows them: the answers to the coming calls (a call finding none left answers that
  the process does not exist), and the calls made, with the process and the signal; 0 is no signal.
\<close>

record procs =
  kill_sched :: "(errno + unit) list"
  killed :: "(int \<times> nat) list"

definition SIGTERM :: nat where "SIGTERM = 15"

text \<open>The conversion of a 64-bit \<^verbatim>\<open>long\<close> to the 32-bit \<^verbatim>\<open>pid_t\<close>.\<close>

definition to_pid_t :: "int \<Rightarrow> int" where
  "to_pid_t i = sint (word_of_int i :: 32 word)"

definition posix_kill :: "int \<Rightarrow> nat \<Rightarrow> procs \<Rightarrow> (errno + unit) \<times> procs" where
  "posix_kill p sig ps =
     (let ps' = ps\<lparr>killed := killed ps @ [(p, sig)]\<rparr> in
      case kill_sched ps of
        [] \<Rightarrow> (Inl ESRCH, ps')
      | r # rs \<Rightarrow> (r, ps'\<lparr>kill_sched := rs\<rparr>))"

definition control_pid_is_running :: "int \<Rightarrow> procs \<Rightarrow> bool \<times> procs" where
  "control_pid_is_running p ps =
     (if p \<le> 0 then (False, ps)
      else case posix_kill (to_pid_t p) 0 ps of
        (Inr u, ps') \<Rightarrow> (True, ps')
      | (Inl e, ps') \<Rightarrow> (e = EPERM, ps'))"

section \<open>Status and stop\<close>

definition control_load_running_state ::
  "string option \<Rightarrow> fsys \<Rightarrow> procs \<Rightarrow> daemon_state option \<times> fsys \<times> procs" where
  "control_load_running_state env f ps =
     (case daemon_state_read env f of
        (None, f1) \<Rightarrow> (None, daemon_state_cleanup_files env f1, ps)
      | (Some st, f1) \<Rightarrow>
         (case control_pid_is_running (ds_pid st) ps of
            (False, ps1) \<Rightarrow> (None, daemon_state_cleanup_files env f1, ps1)
          | (True, ps1) \<Rightarrow> (Some st, f1, ps1)))"

definition control_report_already_stopped :: "string option \<Rightarrow> fsys \<Rightarrow> int \<times> string \<times> fsys" where
  "control_report_already_stopped env f =
     (0, ''already stopped'' @ [CHR 0x0A], daemon_state_cleanup_files env f)"

definition control_status ::
  "qr_encoder \<Rightarrow> string option \<Rightarrow> fsys \<Rightarrow> procs \<Rightarrow> int \<times> string \<times> fsys \<times> procs" where
  "control_status enc env f ps =
     (case control_load_running_state env f ps of
        (None, f1, ps1) \<Rightarrow>
          (1, control_print_startup_banner @ control_print_rich_field ''Status'' ''No running daemon'', f1, ps1)
      | (Some st, f1, ps1) \<Rightarrow> (0, control_print_status enc st, f1, ps1))"

text \<open>The polls for the end of the process, \<open>n\<close> of them left.\<close>

fun control_stop_poll :: "nat \<Rightarrow> int \<Rightarrow> procs \<Rightarrow> procs" where
  "control_stop_poll 0 p ps = ps"
| "control_stop_poll (Suc n) p ps =
     (case control_pid_is_running p ps of
        (False, ps1) \<Rightarrow> ps1
      | (True, ps1) \<Rightarrow> control_stop_poll n p ps1)"

definition control_stop :: "string option \<Rightarrow> fsys \<Rightarrow> procs \<Rightarrow> int \<times> string \<times> fsys \<times> procs" where
  "control_stop env f ps =
     (case control_load_running_state env f ps of
        (None, f1, ps1) \<Rightarrow> (0, ''already stopped'' @ [CHR 0x0A], f1, ps1)
      | (Some st, f1, ps1) \<Rightarrow>
         (case posix_kill (to_pid_t (ds_pid st)) SIGTERM ps1 of
            (Inl e, ps2) \<Rightarrow>
              if e = ESRCH
              then (case control_report_already_stopped env f1 of (rc, out, f2) \<Rightarrow> (rc, out, f2, ps2))
              else (1, [], f1, ps2)
          | (Inr u, ps2) \<Rightarrow>
             (case control_pid_is_running (ds_pid st) (control_stop_poll 100 (ds_pid st) ps2) of
                (True, ps3) \<Rightarrow> (1, [], f1, ps3)
              | (False, ps3) \<Rightarrow>
                  (0, control_print_startup_banner @
                      control_print_rich_field_num ''PID'' (word_of_int (ds_pid st)) @
                      control_print_rich_field ''Result'' ''Server stopped'',
                   daemon_state_cleanup_files env f1, ps3))))"

section \<open>Signals sent\<close>

lemma posix_kill_calls: "posix_kill p sig ps = (r, ps') \<Longrightarrow> killed ps' = killed ps @ [(p, sig)]"
  by (auto simp: posix_kill_def Let_def split: list.splits)

lemma pid_is_running_calls:
  "control_pid_is_running p ps = (b, ps') \<Longrightarrow> \<exists>n. killed ps' = killed ps @ replicate n (to_pid_t p, 0)"
  by (auto simp: control_pid_is_running_def dest!: posix_kill_calls
      intro: exI [of _ 0] exI [of _ 1] split: if_splits prod.splits sum.splits)

lemma stop_poll_calls: "\<exists>n. killed (control_stop_poll k p ps) = killed ps @ replicate n (to_pid_t p, 0)"
proof (induction k arbitrary: ps)
  case 0
  show ?case by (auto intro: exI [of _ 0])
next
  case (Suc k)
  obtain b ps1 where r: "control_pid_is_running p ps = (b, ps1)" by fastforce
  from pid_is_running_calls [OF r] obtain n where n: "killed ps1 = killed ps @ replicate n (to_pid_t p, 0)" ..
  from Suc [of ps1] obtain n' where "killed (control_stop_poll k p ps1) = killed ps1 @ replicate n' (to_pid_t p, 0)" ..
  with n r show ?case by (cases b) (auto simp: replicate_add [symmetric] intro: exI [of _ n])
qed

lemma to_pid_t_id: "- (2 ^ 31) \<le> i \<Longrightarrow> i < 2 ^ 31 \<Longrightarrow> to_pid_t i = i"
  by (simp add: to_pid_t_def signed_of_int signed_take_bit_int_eq_self)


lemma load_running_state_cases:
  assumes "control_load_running_state env f ps = (r, f', ps')" "fs_ok f"
  obtains (none) "r = None" "f' = daemon_state_cleanup_files env (snd (daemon_state_read env f))"
      "\<exists>n. killed ps' = killed ps @ replicate n (to_pid_t (ds_pid (the (fst (daemon_state_read env f)))), 0)"
      "fst (daemon_state_read env f) = None \<Longrightarrow> ps' = ps"
  | (running) st where "r = Some st" "fst (daemon_state_read env f) = Some st" "f' = snd (daemon_state_read env f)"
      "0 < ds_pid st" "killed ps' = killed ps @ [(to_pid_t (ds_pid st), 0)]"
proof (cases "fst (daemon_state_read env f)")
  case None
  then have "daemon_state_read env f = (None, snd (daemon_state_read env f))" by (simp add: prod_eq_iff)
  with assms(1) have "r = None" "ps' = ps" "f' = daemon_state_cleanup_files env (snd (daemon_state_read env f))"
    by (auto simp: control_load_running_state_def split: prod.splits)
  then show thesis by (intro none) (auto intro: exI [of _ 0])
next
  case (Some st)
  then have rd: "daemon_state_read env f = (Some st, snd (daemon_state_read env f))" by (simp add: prod_eq_iff)
  obtain b ps1 where k: "control_pid_is_running (ds_pid st) ps = (b, ps1)" by fastforce
  from assms(1) have e: "(r, f', ps') = (if b then (Some st, snd (daemon_state_read env f), ps1)
      else (None, daemon_state_cleanup_files env (snd (daemon_state_read env f)), ps1))"
    by (subst (asm) control_load_running_state_def, subst (asm) rd) (simp add: k split: bool.splits)
  show thesis
  proof (cases b)
    case True
    with k have "0 < ds_pid st" "killed ps1 = killed ps @ [(to_pid_t (ds_pid st), 0)]"
      by (auto simp: control_pid_is_running_def dest!: posix_kill_calls split: if_splits prod.splits sum.splits)
    with True e Some show thesis by (intro running) auto
  next
    case False
    with e Some pid_is_running_calls [OF k] show thesis by (intro none) auto
  qed
qed

text \<open>
C30: \<^verbatim>\<open>hf stop\<close> signals nothing but the recorded server: it calls \<^verbatim>\<open>kill\<close> only for the process in the state file,
sends it at most one SIGTERM, and calls \<^verbatim>\<open>kill\<close> not at all when there is no readable state. For a process id
that fits \<^verbatim>\<open>pid_t\<close> the process signalled is that one, so never 0 or a negative number, which would mean a group.
\<close>
theorem control_stop_signals_recorded:
  assumes "control_stop env f ps = (rc, out, f', ps')" "fs_ok f"
  shows "\<exists>calls. killed ps' = killed ps @ calls \<and>
    length (filter (\<lambda>(p, s). s = SIGTERM) calls) \<le> 1 \<and>
    (case fst (daemon_state_read env f) of
       None \<Rightarrow> calls = []
     | Some st \<Rightarrow> (\<forall>(p, s) \<in> set calls. p = to_pid_t (ds_pid st) \<and> s \<in> {0, SIGTERM}) \<and>
         (ds_pid st < 2 ^ 31 \<and> calls \<noteq> [] \<longrightarrow> to_pid_t (ds_pid st) = ds_pid st \<and> 0 < ds_pid st))"
proof -
  obtain r f1 ps1 where ld: "control_load_running_state env f ps = (r, f1, ps1)" by (metis prod_cases3)
  have id: "0 < i \<Longrightarrow> i < 2 ^ 31 \<Longrightarrow> to_pid_t i = i" for i by (rule to_pid_t_id) auto
  from ld assms(2) show ?thesis
  proof (cases rule: load_running_state_cases)
    case none
    from assms(1) ld none(1) have ps': "ps' = ps1" by (simp add: control_stop_def)
    from none(3) obtain n where n: "killed ps1 = killed ps @
      replicate n (to_pid_t (ds_pid (the (fst (daemon_state_read env f)))), 0)" ..
    show ?thesis
    proof (cases "fst (daemon_state_read env f)")
      case None
      with none(4) ps' show ?thesis by simp
    next
      case (Some st)
      have "n \<noteq> 0 \<Longrightarrow> 0 < ds_pid st"
      proof (rule ccontr)
        assume "n \<noteq> 0" "\<not> 0 < ds_pid st"
        with ld Some n show False
          by (auto simp: control_load_running_state_def control_pid_is_running_def split: prod.splits)
      qed
      with n ps' Some id show ?thesis
        by (intro exI [of _ "replicate n (to_pid_t (ds_pid st), 0)"]) (auto simp: SIGTERM_def)
    qed
  next
    case (running st)
    obtain k ps2 where k: "posix_kill (to_pid_t (ds_pid st)) SIGTERM ps1 = (k, ps2)" by fastforce
    from posix_kill_calls [OF k] running(5) have c2: "killed ps2 = killed ps @ [(to_pid_t (ds_pid st), 0), (to_pid_t (ds_pid st), SIGTERM)]"
      by simp
    obtain b ps3 where b: "control_pid_is_running (ds_pid st) (control_stop_poll 100 (ds_pid st) ps2) = (b, ps3)" by fastforce
    from stop_poll_calls [of 100 "ds_pid st" ps2] pid_is_running_calls [OF b] obtain n n' where
      c3: "killed ps3 = killed ps2 @ replicate n (to_pid_t (ds_pid st), 0) @ replicate n' (to_pid_t (ds_pid st), 0)"
      by auto
    have "ps' = ps2 \<or> ps' = ps3"
      using assms(1) ld running(1) k b
      by (auto simp: control_stop_def control_report_already_stopped_def split: sum.splits if_splits bool.splits)
    then obtain n'' where "killed ps' = killed ps2 @ replicate n'' (to_pid_t (ds_pid st), 0)"
      using c3 by (metis append_Nil2 replicate_0 replicate_add)
    with c2 running id show ?thesis
      by (intro exI [of _ "[(to_pid_t (ds_pid st), 0), (to_pid_t (ds_pid st), SIGTERM)] @ replicate n'' (to_pid_t (ds_pid st), 0)"])
        (auto simp: SIGTERM_def)
  qed
qed


text \<open>
C31: A successful \<^verbatim>\<open>hf stop\<close> leaves no trace of a server, a failed one can be repeated: when it returns 0 the state file is gone
and a following \<^verbatim>\<open>hf status\<close> reports that there is no daemon, without a single signal; when it returns 1 the
state file is as before. Nothing else in the file system changes in either case.
\<close>
theorem control_stop_then_status:
  assumes "control_stop env f ps = (rc, out, f', ps')" "fs_ok f" "fs_quiet f"
    and "daemon_state_default_state_path env 4096 = Some p"
  shows "rc \<in> {0, 1} \<and> (\<forall>q. q \<noteq> canon p \<longrightarrow> nodes f' q = nodes f q) \<and> fds f' = fds f \<and>
    (rc = 0 \<longrightarrow> nodes f' (canon p) = None \<and>
       (\<exists>f''. nodes f'' = nodes f' \<and> control_status enc env f' ps' =
         (1, control_print_startup_banner @ control_print_rich_field ''Status'' ''No running daemon'', f'', ps'))) \<and>
    (rc = 1 \<longrightarrow> nodes f' = nodes f)"
proof -
  obtain r f1 ps1 where ld: "control_load_running_state env f ps = (r, f1, ps1)" by (metis prod_cases3)
  define g where "g = snd (daemon_state_read env f)"
  note rd = daemon_state_read_frame [OF surjective_pairing assms(2), where env = env, folded g_def]
  have q: "fs_quiet g" using assms(3) rd(4) by (rule fs_quiet_subset)
  note cl = daemon_state_cleanup_effect [where env = env]
  have gone: "nodes (daemon_state_cleanup_files env h) (canon p) = None" if "fs_quiet h" for h
    using that cl(5) [OF assms(4)] by blast
  define c where "c = daemon_state_cleanup_files env g"
  have f': "f' = c \<and> rc = 0 \<or> f' = g \<and> rc = 1"
    using ld assms(2)
  proof (cases rule: load_running_state_cases)
    case none
    with assms(1) ld show ?thesis by (simp add: control_stop_def c_def g_def)
  next
    case (running st)
    with assms(1) ld show ?thesis
      by (auto simp: control_stop_def control_report_already_stopped_def c_def g_def
          split: prod.splits sum.splits if_splits bool.splits)
  qed
  have c: "nodes c (canon p) = None" "fs_ok c" "fds c = fds f" "fs_quiet c"
    using gone [OF q] cl(1,2) rd(2,3) fs_quiet_subset [OF q cl(3)] by (auto simp: c_def)
  define f'' where "f'' = daemon_state_cleanup_files env (snd (daemon_state_read env c))"
  note rc = daemon_state_read_frame [OF surjective_pairing c(2), where env = env]
  have "fst (daemon_state_read env c) = None" using rc(5) [OF assms(4) c(1)] .
  then have status: "control_status enc env c ps' =
      (1, control_print_startup_banner @ control_print_rich_field ''Status'' ''No running daemon'', f'', ps')"
    by (auto simp: control_status_def control_load_running_state_def f''_def split: prod.splits option.splits)
  have "nodes f'' x = nodes c x" for x
    using cl(4) [OF assms(4)] rc(1) gone [OF fs_quiet_subset [OF c(4) rc(4)]] c(1)
    by (cases "x = canon p") (auto simp: f''_def)
  then have "nodes f'' = nodes c" by blast
  moreover have "\<forall>q. q \<noteq> canon p \<longrightarrow> nodes c q = nodes f q" using cl(4) [OF assms(4)] rd(1) by (simp add: c_def)
  ultimately show ?thesis using f' c status rd(1,2) by auto
qed


text \<open>
C34: The process id is read as a 64-bit number but signalled as a 32-bit \<^verbatim>\<open>pid_t\<close>: for a state file that says \<open>2^32 - 1\<close>
\<^verbatim>\<open>hf stop\<close> sends SIGTERM to the process number \<open>-1\<close>, which is every process the user may signal.
\<close>
theorem control_stop_wide_pid:
  assumes "fst (daemon_state_read env f) = Some st" "ds_pid st = 2 ^ 32 - 1"
    and "kill_sched ps = Inr () # Inr () # rs" "fs_ok f"
  shows "(- 1, SIGTERM) \<in> set (killed (snd (snd (snd (control_stop env f ps)))))"
proof -
  have pid: "to_pid_t (ds_pid st) = - 1" unfolding assms(2) by (simp add: to_pid_t_def)
  define g where "g = snd (daemon_state_read env f)"
  have rd: "daemon_state_read env f = (Some st, g)" using assms(1) by (simp add: g_def prod_eq_iff)
  define ps1 where "ps1 = ps\<lparr>killed := killed ps @ [(- 1, 0)], kill_sched := Inr () # rs\<rparr>"
  define ps2 where "ps2 = ps1\<lparr>killed := killed ps1 @ [(- 1, SIGTERM)], kill_sched := rs\<rparr>"
  have run: "control_pid_is_running (ds_pid st) ps = (True, ps1)"
    using assms(2,3) pid by (simp add: control_pid_is_running_def posix_kill_def Let_def ps1_def)
  have ld: "control_load_running_state env f ps = (Some st, g, ps1)"
    by (simp add: control_load_running_state_def rd run)
  have k: "posix_kill (- 1) SIGTERM ps1 = (Inr (), ps2)" by (simp add: posix_kill_def ps2_def ps1_def Let_def)
  obtain b ps3 where b: "control_pid_is_running (ds_pid st) (control_stop_poll 100 (ds_pid st) ps2) = (b, ps3)" by fastforce
  have "snd (snd (snd (control_stop env f ps))) = ps3"
    using ld k b pid by (simp add: control_stop_def split: bool.splits)
  moreover have "(- 1, SIGTERM) \<in> set (killed ps3)"
    using stop_poll_calls [of 100 "ds_pid st" ps2] pid_is_running_calls [OF b] by (auto simp: ps2_def)
  ultimately show ?thesis by simp
qed

section \<open>Reading the QR code back from the terminal\<close>









section \<open>Witnesses\<close>

definition recorded_fs :: "daemon_state \<Rightarrow> fsys" where
  "recorded_fs st = tmp_fs [[''/'', ''tmp'', ''hf-daemon.state''] \<mapsto> FileN (bytes_of_string (daemon_state_text st)) 0]"

definition answering :: "nat \<Rightarrow> procs" where
  "answering n = \<lparr>kill_sched = replicate n (Inr ()), killed = []\<rparr>"

lemma recorded_fs_read:
  assumes "daemon_state_ok st"
  shows "fst (daemon_state_read None (recorded_fs st)) = Some st"
proof -
  have n: "nodes (recorded_fs st) (canon ''/tmp/hf-daemon.state'') = Some (FileN (bytes_of_string (daemon_state_text st)) 0)"
    unfolding demo_state_temp(2) by (simp add: recorded_fs_def tmp_fs_def)
  have q: "fs_quiet (recorded_fs st)" by (simp add: recorded_fs_def tmp_fs_ok)
  show ?thesis
    using daemon_state_read_text [OF state_path_tmp n q] daemon_state_fields_back [OF assms]
      daemon_state_read_loop_fields [OF daemon_state_lines_ok(1) [OF assms]]
    by (simp add: daemon_state_text_def)
qed

lemma recorded_fs_ok: "fs_ok (recorded_fs st)" "fs_quiet (recorded_fs st)"
  by (simp_all add: recorded_fs_def tmp_fs_ok)

theorem control_stop_signals_recorded_witness:
  "\<exists>calls. killed (snd (snd (snd (control_stop None (recorded_fs demo_state) (answering 2))))) = calls \<and>
     length (filter (\<lambda>(p, s). s = SIGTERM) calls) \<le> 1 \<and> (\<forall>(p, s) \<in> set calls. p = 7)"
proof -
  obtain rc out f' ps' where s: "control_stop None (recorded_fs demo_state) (answering 2) = (rc, out, f', ps')"
    by (metis prod_cases4)
  from control_stop_signals_recorded [OF s recorded_fs_ok(1)]
  obtain calls where "killed ps' = calls" "length (filter (\<lambda>(p, s). s = SIGTERM) calls) \<le> 1"
    "\<forall>(p, s) \<in> set calls. p = to_pid_t 7"
    by (auto simp: recorded_fs_read [OF demo_state_ok]) (auto simp: demo_state_def answering_def)
  moreover have "to_pid_t 7 = 7" by (rule to_pid_t_id) simp_all
  ultimately show ?thesis using s by auto
qed

theorem control_stop_then_status_witness:
  "fst (control_stop None (recorded_fs demo_state) (answering 2)) = 0 \<and>
   nodes (fst (snd (snd (control_stop None (recorded_fs demo_state) (answering 2))))) [''/'', ''tmp'', ''hf-daemon.state''] = None"
proof -
  obtain rc out f' ps' where s: "control_stop None (recorded_fs demo_state) (answering 2) = (rc, out, f', ps')"
    by (metis prod_cases4)
  define g where "g = snd (daemon_state_read None (recorded_fs demo_state))"
  have rd: "daemon_state_read None (recorded_fs demo_state) = (Some demo_state, g)"
    using recorded_fs_read [OF demo_state_ok] by (simp add: g_def prod_eq_iff)
  have "rc = 0"
    using s rd
    by (simp add: control_stop_def control_load_running_state_def answering_def control_pid_is_running_def posix_kill_def
        numeral_eq_Suc demo_state_def split: if_splits)
  with control_stop_then_status [OF s recorded_fs_ok state_path_tmp] show ?thesis
    unfolding demo_state_temp(2) by (simp add: s)
qed

theorem control_stop_wide_pid_witness:
  "(- 1, SIGTERM) \<in> set (killed (snd (snd (snd
     (control_stop None (recorded_fs (demo_state\<lparr>ds_pid := 2 ^ 32 - 1\<rparr>)) (answering 2))))))"
proof -
  have "daemon_state_ok (demo_state\<lparr>ds_pid := 2 ^ 32 - 1\<rparr>)"
    using demo_state_ok by (simp add: daemon_state_ok_def)
  then show ?thesis
    by (rule control_stop_wide_pid [OF recorded_fs_read _ _ recorded_fs_ok(1), where rs = "[]"])
      (simp_all add: answering_def numeral_eq_Suc)
qed


end
