(* ===== verification/Conn_Tracker.thy ===== *)
theory Conn_Tracker
  imports Prelude
begin

text \<open>
  \<^verbatim>\<open>src/server_conn_tracker.c\<close>: the list of live connections that the server waits for when it
  stops. A \<^verbatim>\<open>server_conn_entry_t\<close> is known by its address (the number \<^verbatim>\<open>malloc\<close> returned), the
  list is the chain of \<^verbatim>\<open>next\<close> pointers from \<^verbatim>\<open>head\<close> on. Each operation below is one critical
  section of the tracker's mutex.
\<close>

record conn_entry =
  ce_conn :: int
  ce_closing :: bool

record conn_tracker =
  tk_initialized :: bool
  tk_shutting_down :: bool
  tk_active_count :: u32
  tk_head :: "(nat \<times> conn_entry) list"

definition conn_tracker_zero :: conn_tracker where
  "conn_tracker_zero = \<lparr>tk_initialized = False, tk_shutting_down = False, tk_active_count = 0, tk_head = []\<rparr>"

section \<open>Operations\<close>

text \<open>\<open>init_ok\<close>: both \<^verbatim>\<open>pthread_mutex_init\<close> and \<^verbatim>\<open>pthread_cond_init\<close> return 0.\<close>

definition server_conn_tracker_init :: "bool \<Rightarrow> conn_tracker \<Rightarrow> int \<times> conn_tracker" where
  "server_conn_tracker_init init_ok t =
     (if tk_initialized t then (0, t)
      else if \<not> init_ok then (1, t)
      else (0, t\<lparr>tk_initialized := True, tk_shutting_down := False, tk_active_count := 0, tk_head := []\<rparr>))"

text \<open>The entry afterwards, and the descriptors on which \<^verbatim>\<open>shutdown\<close> is called.\<close>

definition server_conn_tracker_abort_entry :: "conn_entry \<Rightarrow> conn_entry \<times> int list" where
  "server_conn_tracker_abort_entry entry =
     (if ce_closing entry then (entry, []) else (entry\<lparr>ce_closing := True\<rparr>, [ce_conn entry]))"

text \<open>\<open>cell\<close> is what \<^verbatim>\<open>malloc\<close> returns; the result is the new entry or \<^verbatim>\<open>NULL\<close>.\<close>

definition server_conn_tracker_begin ::
  "nat option \<Rightarrow> int \<Rightarrow> conn_tracker \<Rightarrow> nat option \<times> conn_tracker" where
  "server_conn_tracker_begin cell conn t =
     (case cell of
        None \<Rightarrow> (None, t)
      | Some entry \<Rightarrow>
          if tk_shutting_down t then (None, t)
          else (Some entry,
                t\<lparr>tk_head := (entry, \<lparr>ce_conn = conn, ce_closing = False\<rparr>) # tk_head t,
                  tk_active_count := tk_active_count t + 1\<rparr>))"

text \<open>The loop over \<^verbatim>\<open>link\<close>: the first occurrence is unlinked.\<close>

fun unlink_entry :: "nat \<Rightarrow> (nat \<times> conn_entry) list \<Rightarrow> (nat \<times> conn_entry) list" where
  "unlink_entry entry [] = []"
| "unlink_entry entry ((a, e) # rest) = (if a = entry then rest else (a, e) # unlink_entry entry rest)"

text \<open>The first component: whether \<^verbatim>\<open>pthread_cond_broadcast\<close> is called.\<close>

definition server_conn_tracker_end :: "nat option \<Rightarrow> conn_tracker \<Rightarrow> bool \<times> conn_tracker" where
  "server_conn_tracker_end entry t =
     (case entry of
        None \<Rightarrow> (False, t)
      | Some a \<Rightarrow>
          let t1 = t\<lparr>tk_head := unlink_entry a (tk_head t)\<rparr>;
              t2 = (if tk_active_count t1 > 0
                    then t1\<lparr>tk_active_count := tk_active_count t1 - 1\<rparr> else t1)
          in (tk_shutting_down t2 \<and> tk_active_count t2 = 0, t2))"

definition server_conn_tracker_shutdown_all ::
  "conn_tracker \<Rightarrow> int list \<times> bool \<times> conn_tracker" where
  "server_conn_tracker_shutdown_all t =
     (if \<not> tk_initialized t then ([], False, t)
      else (concat (map (\<lambda>(a, e). snd (server_conn_tracker_abort_entry e)) (tk_head t)),
            tk_active_count t = 0,
            t\<lparr>tk_shutting_down := True,
              tk_head := map (\<lambda>(a, e). (a, fst (server_conn_tracker_abort_entry e))) (tk_head t)\<rparr>))"

text \<open>One test of the condition of the \<^verbatim>\<open>while\<close> loop: \<open>True\<close> when the function returns.\<close>

definition server_conn_tracker_wait_idle_test :: "conn_tracker \<Rightarrow> bool" where
  "server_conn_tracker_wait_idle_test t = (\<not> tk_initialized t \<or> \<not> tk_active_count t > 0)"

definition server_conn_tracker_cleanup :: "conn_tracker \<Rightarrow> conn_tracker" where
  "server_conn_tracker_cleanup t =
     (if \<not> tk_initialized t then t
      else t\<lparr>tk_initialized := False, tk_shutting_down := False, tk_active_count := 0, tk_head := []\<rparr>)"

section \<open>Starting a connection thread\<close>

text \<open>
  \<^verbatim>\<open>server_start_connection_thread\<close> of \<^verbatim>\<open>src/server.c\<close>, with the outcome of its two allocations and
  of \<^verbatim>\<open>pthread_create\<close>; a failing \<^verbatim>\<open>setsockopt\<close> is only reported. The result is the return code
  and, when a thread was started, its entry.
\<close>

definition server_start_connection_thread ::
  "bool \<Rightarrow> nat option \<Rightarrow> bool \<Rightarrow> int \<Rightarrow> conn_tracker \<Rightarrow> int \<times> nat option \<times> conn_tracker" where
  "server_start_connection_thread ctx_ok cell create_ok conn t =
     (if \<not> ctx_ok then (1, None, t)
      else case server_conn_tracker_begin cell conn t of
        (None, t1) \<Rightarrow> (1, None, t1)
      | (Some entry, t1) \<Rightarrow>
          if \<not> create_ok then (1, None, snd (server_conn_tracker_end (Some entry) t1))
          else (0, Some entry, t1))"

section \<open>Threads\<close>

text \<open>
  The server as a system of threads over the tracker: the listener, which accepts, then stops and waits,
  and one worker per connection (\<^verbatim>\<open>server_connection_thread_main\<close>), which handles it, closes its socket and
  leaves the tracker. \<open>Starting\<close> is the listener between \<^verbatim>\<open>server_conn_tracker_begin\<close> and
  \<^verbatim>\<open>pthread_create\<close>; \<open>Sleeping\<close> is the listener inside \<^verbatim>\<open>pthread_cond_wait\<close>.
\<close>

datatype worker_phase = Serving | Closed

datatype listener_phase = Accepting | Starting nat int | Waiting | Sleeping | Idle | CleanedUp

record server_threads =
  th_tracker :: conn_tracker
  th_listener :: listener_phase
  th_workers :: "nat \<rightharpoonup> int \<times> worker_phase"
  th_open :: "int set"

definition wake :: "bool \<Rightarrow> listener_phase \<Rightarrow> listener_phase" where
  "wake broadcast l = (if broadcast \<and> l = Sleeping then Waiting else l)"

text \<open>
  One step of one thread. \<open>accept\<close> returns a descriptor that is not open; \<^verbatim>\<open>malloc\<close> an address that no
  live entry has; the system never runs \<open>2^32 - 1\<close> threads at once.
\<close>

inductive thread_step :: "server_threads \<Rightarrow> server_threads \<Rightarrow> bool" where
  accept_begin: "th_listener s = Accepting \<Longrightarrow> conn \<notin> th_open s \<Longrightarrow> a \<notin> fst ` set (tk_head (th_tracker s)) \<Longrightarrow>
     length (tk_head (th_tracker s)) < 2 ^ 32 - 2 \<Longrightarrow>
     server_conn_tracker_begin (Some a) conn (th_tracker s) = (Some a, t) \<Longrightarrow>
     thread_step s (s\<lparr>th_tracker := t, th_listener := Starting a conn, th_open := insert conn (th_open s)\<rparr>)"
| accept_refused: "th_listener s = Accepting \<Longrightarrow> conn \<notin> th_open s \<Longrightarrow>
     server_conn_tracker_begin cell conn (th_tracker s) = (None, t) \<Longrightarrow>
     thread_step s (s\<lparr>th_tracker := t\<rparr>)"
| create_ok: "th_listener s = Starting a conn \<Longrightarrow>
     thread_step s (s\<lparr>th_listener := Accepting, th_workers := (th_workers s)(a \<mapsto> (conn, Serving))\<rparr>)"
| create_fails: "th_listener s = Starting a conn \<Longrightarrow>
     server_conn_tracker_end (Some a) (th_tracker s) = (b, t) \<Longrightarrow>
     thread_step s (s\<lparr>th_tracker := t, th_listener := Accepting, th_open := th_open s - {conn}\<rparr>)"
| worker_close: "th_workers s a = Some (conn, Serving) \<Longrightarrow>
     thread_step s (s\<lparr>th_workers := (th_workers s)(a \<mapsto> (conn, Closed)), th_open := th_open s - {conn}\<rparr>)"
| worker_end: "th_workers s a = Some (conn, Closed) \<Longrightarrow>
     server_conn_tracker_end (Some a) (th_tracker s) = (b, t) \<Longrightarrow>
     thread_step s (s\<lparr>th_tracker := t, th_workers := (th_workers s)(a := None),
       th_listener := wake b (th_listener s)\<rparr>)"
| stop: "th_listener s = Accepting \<Longrightarrow>
     server_conn_tracker_shutdown_all (th_tracker s) = (shut, b, t) \<Longrightarrow>
     thread_step s (s\<lparr>th_tracker := t, th_listener := Waiting\<rparr>)"
| wait_done: "th_listener s = Waiting \<Longrightarrow> server_conn_tracker_wait_idle_test (th_tracker s) \<Longrightarrow>
     thread_step s (s\<lparr>th_listener := Idle\<rparr>)"
| wait_sleep: "th_listener s = Waiting \<Longrightarrow> \<not> server_conn_tracker_wait_idle_test (th_tracker s) \<Longrightarrow>
     thread_step s (s\<lparr>th_listener := Sleeping\<rparr>)"
| spurious: "th_listener s = Sleeping \<Longrightarrow> thread_step s (s\<lparr>th_listener := Waiting\<rparr>)"
| cleanup: "th_listener s = Idle \<Longrightarrow>
     thread_step s (s\<lparr>th_tracker := server_conn_tracker_cleanup (th_tracker s), th_listener := CleanedUp\<rparr>)"

inductive_cases thread_stepE: "thread_step s s'"

definition threads_start :: "server_threads \<Rightarrow> bool" where
  "threads_start s \<longleftrightarrow> (\<exists>ok. server_conn_tracker_init ok conn_tracker_zero = (0, th_tracker s)) \<and>
     th_listener s = Accepting \<and> th_workers s = Map.empty \<and> th_open s = {}"

definition threads_reach :: "server_threads \<Rightarrow> bool" where
  "threads_reach s \<longleftrightarrow> (\<exists>s0. threads_start s0 \<and> thread_step\<^sup>*\<^sup>* s0 s)"


section \<open>The invariant\<close>

lemma unlink_addresses: "map fst (unlink_entry a es) = remove1 a (map fst es)"
  by (induction a es rule: unlink_entry.induct) auto

lemma unlink_entries: "set (unlink_entry a es) \<subseteq> set es"
  by (induction a es rule: unlink_entry.induct) auto

definition starting :: "server_threads \<Rightarrow> nat set" where
  "starting s = (case th_listener s of Starting a conn \<Rightarrow> {a} | _ \<Rightarrow> {})"

text \<open>
  The list holds exactly the live threads and the one being started, the counter is its length, and
  the tracker is shutting down exactly when the listener has stopped accepting. A sleeping listener has a
  thread to wait for.
\<close>

definition tracker_inv :: "server_threads \<Rightarrow> bool" where
  "tracker_inv s \<longleftrightarrow> (let t = th_tracker s; as = map fst (tk_head t) in
     tk_initialized t \<and> distinct as \<and> tk_active_count t = of_nat (length as) \<and> length as < 2 ^ 32 - 1 \<and>
     set as = dom (th_workers s) \<union> starting s \<and> dom (th_workers s) \<inter> starting s = {} \<and>
     tk_shutting_down t = (th_listener s \<in> {Waiting, Sleeping, Idle}) \<and>
     (\<forall>a e conn ph. (a, e) \<in> set (tk_head t) \<longrightarrow> th_workers s a = Some (conn, ph) \<longrightarrow> ce_conn e = conn) \<and>
     (\<forall>a conn e. th_listener s = Starting a conn \<longrightarrow> (a, e) \<in> set (tk_head t) \<longrightarrow> ce_conn e = conn) \<and>
     (th_listener s = Sleeping \<longrightarrow> th_workers s \<noteq> Map.empty) \<and>
     (th_listener s = Idle \<longrightarrow> th_workers s = Map.empty))"

definition threads_inv :: "server_threads \<Rightarrow> bool" where
  "threads_inv s \<longleftrightarrow> (if th_listener s = CleanedUp then th_workers s = Map.empty else tracker_inv s)"

lemma threads_inv_tracker: "threads_inv s \<Longrightarrow> th_listener s \<noteq> CleanedUp \<Longrightarrow> tracker_inv s"
  by (simp add: threads_inv_def)

lemma of_nat_u32: "n < 2 ^ 32 \<Longrightarrow> ((of_nat n :: u32) = 0) = (n = 0)" "n < 2 ^ 32 \<Longrightarrow> ((of_nat n :: u32) > 0) = (n > 0)"
proof -
  assume "n < 2 ^ 32"
  then have "unat (of_nat n :: u32) = n" by (simp add: unat_of_nat)
  then show "((of_nat n :: u32) = 0) = (n = 0)" "((of_nat n :: u32) > 0) = (n > 0)"
    by (auto simp: word_unat_eq_iff word_less_nat_alt)
qed

lemma threads_start_inv:
  assumes "threads_start s"
  shows "threads_inv s"
proof -
  have "th_tracker s = \<lparr>tk_initialized = True, tk_shutting_down = False, tk_active_count = 0, tk_head = []\<rparr>"
    using assms by (auto simp: threads_start_def server_conn_tracker_init_def conn_tracker_zero_def split: if_splits)
  then show ?thesis
    using assms by (auto simp: threads_start_def threads_inv_def tracker_inv_def starting_def Let_def)
qed

text \<open>Leaving the tracker with the last entry broadcasts during a shutdown.\<close>

lemma end_effect:
  assumes "tracker_inv s" "server_conn_tracker_end (Some a) (th_tracker s) = (b, t)"
    and "a \<in> dom (th_workers s) \<union> starting s"
  shows "map fst (tk_head t) = remove1 a (map fst (tk_head (th_tracker s)))" "tk_initialized t"
    "tk_shutting_down t = tk_shutting_down (th_tracker s)" "set (tk_head t) \<subseteq> set (tk_head (th_tracker s))"
    "tk_active_count t = of_nat (length (tk_head t))" "length (tk_head t) = length (tk_head (th_tracker s)) - 1"
    "b = (tk_shutting_down t \<and> tk_head t = [])"
proof -
  let ?t = "th_tracker s"
  have inv: "tk_initialized ?t" "tk_active_count ?t = of_nat (length (tk_head ?t))" "length (tk_head ?t) < 2 ^ 32"
    "a \<in> fst ` set (tk_head ?t)"
    using assms(1,3) by (auto simp: tracker_inv_def Let_def)
  have pos: "0 < length (tk_head ?t)" using inv(4) by (cases "tk_head ?t") auto
  then have cnt: "tk_active_count ?t > 0" using inv(2,3) of_nat_u32(2) by simp
  have un: "length (unlink_entry a (tk_head ?t)) = length (tk_head ?t) - 1"
    using arg_cong [OF unlink_addresses, of length a "tk_head ?t"] inv(4) by (simp add: length_remove1)
  have c1: "tk_active_count ?t - 1 = of_nat (length (tk_head ?t) - 1)" 
    using inv(2) pos by (cases "length (tk_head ?t)") simp_all
  have t: "t = ?t\<lparr>tk_head := unlink_entry a (tk_head ?t), tk_active_count := tk_active_count ?t - 1\<rparr>"
    and b: "b = (tk_shutting_down ?t \<and> tk_active_count ?t - 1 = 0)"
    using assms(2) cnt by (auto simp: server_conn_tracker_end_def Let_def)
  show "map fst (tk_head t) = remove1 a (map fst (tk_head ?t))" by (simp add: t unlink_addresses)
  show "tk_initialized t" "tk_shutting_down t = tk_shutting_down ?t" using inv(1) by (simp_all add: t)
  show "set (tk_head t) \<subseteq> set (tk_head ?t)" using unlink_entries by (simp add: t)
  show "tk_active_count t = of_nat (length (tk_head t))" using c1 un by (simp add: t)
  show "length (tk_head t) = length (tk_head ?t) - 1" using un by (simp add: t)
  show "b = (tk_shutting_down t \<and> tk_head t = [])"
    using b c1 un inv(3) of_nat_u32(1) [of "length (tk_head ?t) - 1"] by (auto simp: t)
qed

lemma inv_accept:
  assumes "tracker_inv s" "th_listener s = Accepting" "a \<notin> fst ` set (tk_head (th_tracker s))"
    "length (tk_head (th_tracker s)) < 2 ^ 32 - 2" "server_conn_tracker_begin (Some a) conn (th_tracker s) = (Some a, t)"
  shows "threads_inv (s\<lparr>th_tracker := t, th_listener := Starting a conn, th_open := ops\<rparr>)"
proof -
  have t: "t = (th_tracker s)\<lparr>tk_head := (a, \<lparr>ce_conn = conn, ce_closing = False\<rparr>) # tk_head (th_tracker s),
      tk_active_count := tk_active_count (th_tracker s) + 1\<rparr>"
    using assms(5) by (auto simp: server_conn_tracker_begin_def split: if_splits)
  have "a \<notin> dom (th_workers s)" using assms(1,3) by (auto simp: tracker_inv_def Let_def)
  moreover have "(a, e) \<notin> set (tk_head (th_tracker s))" for e using assms(3) by force
  ultimately show ?thesis
    using assms(1-4) by (auto simp: threads_inv_def tracker_inv_def starting_def Let_def t)
qed

lemma inv_end:
  assumes inv: "tracker_inv s" and run: "server_conn_tracker_end (Some a) (th_tracker s) = (b, t)"
    and s': "th_tracker s' = t" "dom (th_workers s') \<union> starting s' = (dom (th_workers s) \<union> starting s) - {a}"
      "a \<in> dom (th_workers s) \<union> starting s" "dom (th_workers s') \<inter> starting s' = {}"
      "\<And>x. x \<noteq> a \<Longrightarrow> th_workers s' x = th_workers s x" "th_workers s' a = None"
      "th_listener s' = wake b (th_listener s) \<or> th_listener s' = Accepting \<and> th_listener s = Starting a conn"
    and act: "th_listener s \<noteq> CleanedUp" "th_listener s \<noteq> Idle"
  shows "threads_inv s'"
proof -
  note e = end_effect [OF inv run s'(3)]
  have i: "distinct (map fst (tk_head (th_tracker s)))" "length (tk_head (th_tracker s)) < 2 ^ 32 - 1"
    "set (map fst (tk_head (th_tracker s))) = dom (th_workers s) \<union> starting s"
    "tk_shutting_down (th_tracker s) = (th_listener s \<in> {Waiting, Sleeping, Idle})"
    using inv by (auto simp: tracker_inv_def Let_def)
  have as: "set (map fst (tk_head t)) = dom (th_workers s') \<union> starting s'"
    unfolding e(1) using i(1,3) s'(2) by (simp add: set_remove1_eq)
  have l: "th_listener s' \<in> {Waiting, Sleeping, Idle} \<longleftrightarrow> th_listener s \<in> {Waiting, Sleeping, Idle}"
    "th_listener s' \<noteq> Idle" "th_listener s' \<noteq> CleanedUp" "\<And>x c. th_listener s' = Starting x c \<Longrightarrow> th_listener s = Starting x c"
    using s'(7) act by (auto simp: wake_def split: if_splits)
  have sl: "th_workers s' \<noteq> Map.empty" if "th_listener s' = Sleeping"
  proof -
    have "th_listener s = Sleeping" "\<not> b" using that s'(7) by (auto simp: wake_def split: if_splits)
    then have "tk_head t \<noteq> []" using e(3,7) i(4) by simp
    with as that show ?thesis by (auto simp: starting_def)
  qed
  have wk: "th_workers s' x = Some y \<Longrightarrow> th_workers s x = Some y" for x y
    using s'(5) [of x] s'(6) by (cases "x = a") auto
  have conns: "(x, y) \<in> set (tk_head (th_tracker s)) \<Longrightarrow> th_workers s x = Some (c, ph) \<Longrightarrow> ce_conn y = c"
    "th_listener s = Starting x c \<Longrightarrow> (x, y) \<in> set (tk_head (th_tracker s)) \<Longrightarrow> ce_conn y = c" for x y c ph
    using inv by (auto simp: tracker_inv_def Let_def)
  have "tracker_inv s'"
    unfolding tracker_inv_def Let_def s'(1)
  proof (intro conjI allI impI)
    show "distinct (map fst (tk_head t))" unfolding e(1) using i(1) by simp
    show "length (map fst (tk_head t)) < 2 ^ 32 - 1" using e(6) i(2) by simp
    show "ce_conn y = c" if "(x, y) \<in> set (tk_head t)" "th_workers s' x = Some (c, ph)" for x y c ph
      using that conns(1) wk e(4) by blast
    show "ce_conn y = c" if "th_listener s' = Starting x c" "(x, y) \<in> set (tk_head t)" for x y c
      using that conns(2) l(4) e(4) by blast
  qed (use e(2,3,5) as i(4) l(1,2) s'(4) sl in simp_all)
  then show ?thesis using l(3) by (simp add: threads_inv_def)
qed


lemma shutdown_all_effect:
  assumes "server_conn_tracker_shutdown_all t = (shut, b, t')" "tk_initialized t"
  shows "map fst (tk_head t') = map fst (tk_head t)" "tk_shutting_down t'" "tk_active_count t' = tk_active_count t"
    "tk_initialized t'" "\<And>a e. (a, e) \<in> set (tk_head t') \<Longrightarrow> ce_closing e \<and> (\<exists>e'. (a, e') \<in> set (tk_head t) \<and> ce_conn e = ce_conn e')"
  using assms by (auto simp: server_conn_tracker_shutdown_all_def server_conn_tracker_abort_entry_def split: if_splits)
    blast+

lemma thread_step_inv:
  assumes "thread_step s s'" "threads_inv s"
  shows "threads_inv s'"
  using assms(1)
proof (cases rule: thread_step.cases)
  case (accept_begin conn a t)
  with inv_accept [OF threads_inv_tracker [OF assms(2)]] show ?thesis by simp
next
  case (accept_refused conn cell t)
  then have "t = th_tracker s" by (auto simp: server_conn_tracker_begin_def split: option.splits if_splits)
  with accept_refused assms(2) show ?thesis by simp
next
  case (create_ok a conn)
  with threads_inv_tracker [OF assms(2)] show ?thesis
    by (auto simp: threads_inv_def tracker_inv_def starting_def Let_def)
next
  case (create_fails a conn b t)
  then have inv: "tracker_inv s" using threads_inv_tracker [OF assms(2)] by simp
  have "a \<notin> dom (th_workers s)" using inv create_fails(2) by (auto simp: tracker_inv_def starting_def Let_def)
  with create_fails show ?thesis
    by (intro inv_end [OF inv create_fails(3)]) (auto simp: starting_def)
next
  case (worker_close a conn)
  have "th_listener s \<noteq> CleanedUp" using worker_close(2) assms(2) by (auto simp: threads_inv_def)
  with threads_inv_tracker [OF assms(2)] worker_close show ?thesis
    by (auto simp: threads_inv_def tracker_inv_def starting_def Let_def split: if_splits)
next
  case (worker_end a conn b t)
  then have act: "th_listener s \<noteq> CleanedUp" "th_listener s \<noteq> Idle"
    using assms(2) by (auto simp: threads_inv_def tracker_inv_def Let_def)
  then have inv: "tracker_inv s" using threads_inv_tracker [OF assms(2)] by simp
  have "a \<notin> starting s" using inv worker_end(2) by (auto simp: tracker_inv_def Let_def)
  moreover have "starting s' = starting s"
    unfolding worker_end(1) by (auto simp: starting_def wake_def)
  moreover have "(dom (th_workers s) - {a}) \<inter> starting s = {}" using inv by (auto simp: tracker_inv_def Let_def)
  ultimately show ?thesis
    by (intro inv_end [OF inv worker_end(3) _ _ _ _ _ _ _ act]) (use worker_end in auto)
next
  case (stop shut b t)
  have inv: "tracker_inv s" using threads_inv_tracker [OF assms(2)] stop by simp
  have ini: "tk_initialized (th_tracker s)" using inv by (simp add: tracker_inv_def Let_def)
  note e = shutdown_all_effect [OF stop(3) ini]
  have len: "length (tk_head t) = length (tk_head (th_tracker s))" using arg_cong [OF e(1), of length] by simp
  show ?thesis
    unfolding stop(1) threads_inv_def tracker_inv_def Let_def
    using inv stop(2) e(1-4) len e(5) unfolding tracker_inv_def Let_def
    by (auto simp: starting_def) metis+
next
  case wait_done
  have "tracker_inv s" using threads_inv_tracker [OF assms(2)] wait_done by simp
  moreover from this have "tk_head (th_tracker s) = []"
    using wait_done(3) of_nat_u32(2) [of "length (tk_head (th_tracker s))"]
    by (auto simp: server_conn_tracker_wait_idle_test_def tracker_inv_def Let_def)
  ultimately show ?thesis
    using wait_done by (auto simp: threads_inv_def tracker_inv_def starting_def Let_def)
next
  case wait_sleep
  have "tracker_inv s" using threads_inv_tracker [OF assms(2)] wait_sleep by simp
  moreover from this have "tk_head (th_tracker s) \<noteq> []"
    using wait_sleep(3) by (auto simp: server_conn_tracker_wait_idle_test_def tracker_inv_def Let_def)
  ultimately show ?thesis
    using wait_sleep by (auto simp: threads_inv_def tracker_inv_def starting_def Let_def)
next
  case spurious
  with assms(2) show ?thesis by (auto simp: threads_inv_def tracker_inv_def starting_def Let_def)
next
  case cleanup
  with assms(2) show ?thesis by (auto simp: threads_inv_def tracker_inv_def Let_def)
qed

lemma threads_reach_inv: "threads_reach s \<Longrightarrow> threads_inv s"
proof -
  assume "threads_reach s"
  then obtain s0 where "threads_start s0" "thread_step\<^sup>*\<^sup>* s0 s" by (auto simp: threads_reach_def)
  from this(2,1) show ?thesis by (induction) (auto intro: threads_start_inv thread_step_inv)
qed


section \<open>Stopping\<close>

text \<open>
C22: Whatever the threads do, the counter of the tracker is the number of its entries, these are exactly the
live connection threads and the one being started, and no new connection is admitted once the shutdown
has begun. The 32-bit counter never wraps.
\<close>
theorem tracker_counts_threads:
  assumes "threads_reach s" "th_listener s \<noteq> CleanedUp"
  shows "unat (tk_active_count (th_tracker s)) = length (tk_head (th_tracker s)) \<and>
    fst ` set (tk_head (th_tracker s)) = dom (th_workers s) \<union> starting s \<and> distinct (map fst (tk_head (th_tracker s))) \<and>
    (th_listener s \<in> {Waiting, Sleeping, Idle} \<longrightarrow>
       (\<forall>cell conn. fst (server_conn_tracker_begin cell conn (th_tracker s)) = None))"
proof -
  have inv: "tracker_inv s" by (rule threads_inv_tracker [OF threads_reach_inv [OF assms(1)] assms(2)])
  then have "length (tk_head (th_tracker s)) < 2 ^ 32" by (simp add: tracker_inv_def Let_def)
  with inv show ?thesis
    by (auto simp: tracker_inv_def Let_def unat_of_nat server_conn_tracker_begin_def split: option.splits)
qed

text \<open>Once the tracker is cleaned up no thread is left that could run.\<close>

lemma cleaned_up_final: "th_listener s = CleanedUp \<Longrightarrow> th_workers s = Map.empty \<Longrightarrow> \<not> thread_step s s'"
  by (auto elim!: thread_stepE)

text \<open>
C23: When the wait of the server for its connections has returned, no connection thread is left: what the server then
frees (the tracker, the message store) is used by nobody. And the wake-up is never lost: as long as the
server sleeps in that wait, there is a connection thread whose end will be signalled. After the cleanup nothing runs any more.
\<close>
theorem tracker_wait_idle_safe:
  assumes "threads_reach s"
  shows "(th_listener s \<in> {Idle, CleanedUp} \<longrightarrow> th_workers s = Map.empty) \<and>
    (th_listener s = Sleeping \<longrightarrow> (\<exists>a conn ph. th_workers s a = Some (conn, ph))) \<and>
    (th_listener s = Sleeping \<longrightarrow> (\<forall>a conn t b. th_workers s = [a \<mapsto> (conn, Closed)] \<longrightarrow>
       server_conn_tracker_end (Some a) (th_tracker s) = (b, t) \<longrightarrow> b)) \<and>
    (th_listener s = CleanedUp \<longrightarrow> (\<forall>s'. \<not> thread_step s s'))"
proof -
  have inv: "threads_inv s" by (rule threads_reach_inv [OF assms])
  have "b" if l: "th_listener s = Sleeping" and w: "th_workers s = [a \<mapsto> (conn, Closed)]"
    and e: "server_conn_tracker_end (Some a) (th_tracker s) = (b, t)" for a conn t b
  proof -
    have ti: "tracker_inv s" using inv l by (simp add: threads_inv_def)
    have "a \<in> dom (th_workers s) \<union> starting s" using w by simp
    note ef = end_effect [OF ti e this]
    have "set (map fst (tk_head (th_tracker s))) = {a}" "distinct (map fst (tk_head (th_tracker s)))"
      using ti w l by (auto simp: tracker_inv_def starting_def Let_def)
    then have "tk_head t = []" using ef(1) by (metis map_is_Nil_conv remove1.simps distinct_remove1 set_remove1_eq set_empty Diff_cancel)
    then show b using ef(3,7) ti l by (simp add: tracker_inv_def Let_def)
  qed
  moreover have "th_workers s = Map.empty" if "th_listener s \<in> {Idle, CleanedUp}"
    using inv that by (auto simp: threads_inv_def tracker_inv_def Let_def)
  moreover have "\<exists>a conn ph. th_workers s a = Some (conn, ph)" if "th_listener s = Sleeping"
  proof -
    have "th_workers s \<noteq> Map.empty" using inv that by (simp add: threads_inv_def tracker_inv_def Let_def)
    then show ?thesis by (metis ext not_Some_eq surj_pair)
  qed
  ultimately show ?thesis using cleaned_up_final by blast
qed







text \<open>A run: one connection is accepted and closed, and the server stops before its thread has left.\<close>

definition run_start :: server_threads where
  "run_start = \<lparr>th_tracker = snd (server_conn_tracker_init True conn_tracker_zero), th_listener = Accepting,
     th_workers = Map.empty, th_open = {}\<rparr>"

definition run_closed :: server_threads where
  "run_closed = \<lparr>th_tracker = \<lparr>tk_initialized = True, tk_shutting_down = False, tk_active_count = 1,
       tk_head = [(9, \<lparr>ce_conn = 5, ce_closing = False\<rparr>)]\<rparr>,
     th_listener = Accepting, th_workers = [9 \<mapsto> (5, Closed)], th_open = {}\<rparr>"

definition run_sleeping :: server_threads where
  "run_sleeping = \<lparr>th_tracker = \<lparr>tk_initialized = True, tk_shutting_down = True, tk_active_count = 1,
       tk_head = [(9, \<lparr>ce_conn = 5, ce_closing = True\<rparr>)]\<rparr>,
     th_listener = Sleeping, th_workers = [9 \<mapsto> (5, Closed)], th_open = {}\<rparr>"

lemma run_reach: "threads_reach run_start" "threads_reach run_closed" "threads_reach run_sleeping"
proof -
  have start: "threads_start run_start"
    by (auto simp: threads_start_def run_start_def server_conn_tracker_init_def conn_tracker_zero_def)
  let ?s2 = "run_closed\<lparr>th_workers := [9 \<mapsto> (5, Serving)], th_open := {5}\<rparr>"
  let ?s1 = "?s2\<lparr>th_listener := Starting 9 5, th_workers := Map.empty\<rparr>"
  let ?s4 = "run_sleeping\<lparr>th_listener := Waiting\<rparr>"
  have 1: "thread_step run_start ?s1"
    using accept_begin [of run_start 5 9 "th_tracker run_closed"]
    by (simp add: run_start_def run_closed_def server_conn_tracker_init_def conn_tracker_zero_def server_conn_tracker_begin_def)
  have 2: "thread_step ?s1 ?s2" using create_ok [of ?s1 9 5] by (simp add: run_closed_def)
  have 3: "thread_step ?s2 run_closed" using worker_close [of ?s2 9 5] by (simp add: run_closed_def)
  have 4: "thread_step run_closed ?s4"
    using thread_step.stop [of run_closed "[5]" False "th_tracker run_sleeping"]
    by (simp add: run_closed_def run_sleeping_def server_conn_tracker_shutdown_all_def server_conn_tracker_abort_entry_def)
  have 5: "thread_step ?s4 run_sleeping"
    using wait_sleep [of ?s4] by (simp add: run_sleeping_def server_conn_tracker_wait_idle_test_def)
  have c: "thread_step\<^sup>*\<^sup>* run_start run_closed"
    using 1 2 3 by (meson converse_rtranclp_into_rtranclp rtranclp.rtrancl_refl)
  with 4 5 have "thread_step\<^sup>*\<^sup>* run_start run_sleeping" by (meson rtranclp.rtrancl_into_rtrancl)
  with c start show "threads_reach run_start" "threads_reach run_closed" "threads_reach run_sleeping"
    by (auto simp: threads_reach_def)
qed

theorem tracker_counts_threads_witness:
  "unat (tk_active_count (th_tracker run_sleeping)) = 1 \<and>
   fst (server_conn_tracker_begin (Some 3) 8 (th_tracker run_sleeping)) = None"
proof -
  have "th_listener run_sleeping = Sleeping" "length (tk_head (th_tracker run_sleeping)) = 1" by (simp_all add: run_sleeping_def)
  with tracker_counts_threads [OF run_reach(3)] show ?thesis by simp
qed

theorem tracker_wait_idle_safe_witness:
  "\<exists>a conn ph. th_workers run_sleeping a = Some (conn, ph)"
  using tracker_wait_idle_safe [OF run_reach(3)] by (simp add: run_sleeping_def)


text \<open>
C27: The worker closes its socket before it leaves the tracker, so a shutdown may reach a descriptor
that is no longer open: there is a reachable state in which \<^verbatim>\<open>server_conn_tracker_shutdown_all\<close> calls \<^verbatim>\<open>shutdown\<close> on
a closed descriptor, which the system may meanwhile have given to another connection.
\<close>
theorem tracker_shutdown_of_closed_descriptor:
  "\<exists>s shut b t conn. threads_reach s \<and> server_conn_tracker_shutdown_all (th_tracker s) = (shut, b, t) \<and>
     conn \<in> set shut \<and> conn \<notin> th_open s"
  by (rule exI [of _ run_closed], rule exI [of _ "[5]"], rule exI [of _ False], rule exI [of _ "th_tracker run_sleeping"],
      rule exI [of _ 5])
    (use run_reach(2) in \<open>simp add: run_closed_def run_sleeping_def server_conn_tracker_shutdown_all_def
      server_conn_tracker_abort_entry_def\<close>)

end
