(* ===== verification/Shutdown.thy ===== *)
theory Shutdown
  imports Prelude
begin

text \<open>
  \<^verbatim>\<open>src/shutdown.c\<close>: the flag that asks the server to stop, the signal that set it, and the signal handlers of the
  process. The two static variables and the dispositions of the two signals are the state.
\<close>

datatype disposition = SIG_DFL | ShutdownHandler

record shutdown_state =
  sd_requested :: bool
  sd_signal :: int
  sd_sigint :: disposition
  sd_sigterm :: disposition

definition shutdown_set_requested :: "int \<Rightarrow> shutdown_state \<Rightarrow> shutdown_state" where
  "shutdown_set_requested sig s =
     (let s1 = s\<lparr>sd_requested := True\<rparr> in if sig \<noteq> 0 then s1\<lparr>sd_signal := sig\<rparr> else s1)"

definition shutdown_signal_handler :: "int \<Rightarrow> shutdown_state \<Rightarrow> shutdown_state" where
  "shutdown_signal_handler sig s = shutdown_set_requested sig s"

text \<open>The two calls of \<^verbatim>\<open>sigaction\<close> may fail.\<close>

definition shutdown_init :: "bool \<Rightarrow> bool \<Rightarrow> shutdown_state \<Rightarrow> int \<times> shutdown_state" where
  "shutdown_init int_ok term_ok s =
     (let s0 = s\<lparr>sd_requested := False, sd_signal := 0\<rparr> in
      if \<not> int_ok then (1, s0)
      else let s1 = s0\<lparr>sd_sigint := ShutdownHandler\<rparr> in
        if \<not> term_ok then (1, s1) else (0, s1\<lparr>sd_sigterm := ShutdownHandler\<rparr>))"

definition shutdown_cleanup :: "shutdown_state \<Rightarrow> shutdown_state" where
  "shutdown_cleanup s = s\<lparr>sd_sigint := SIG_DFL, sd_sigterm := SIG_DFL\<rparr>"

definition shutdown_request :: "shutdown_state \<Rightarrow> shutdown_state" where
  "shutdown_request s = shutdown_set_requested 0 s"

definition shutdown_requested :: "shutdown_state \<Rightarrow> bool" where
  "shutdown_requested s = sd_requested s"

definition shutdown_signal_number :: "shutdown_state \<Rightarrow> int" where
  "shutdown_signal_number s = sd_signal s"

definition shutdown_exit_code :: int where
  "shutdown_exit_code = 130"

text \<open>The signals that are handled between two tests of the flag.\<close>

definition deliver :: "int list \<Rightarrow> shutdown_state \<Rightarrow> shutdown_state" where
  "deliver sigs s = fold shutdown_signal_handler sigs s"

lemma deliver_requested: "shutdown_requested (deliver sigs s) = (shutdown_requested s \<or> sigs \<noteq> [])"
  by (induction sigs arbitrary: s)
    (auto simp: deliver_def shutdown_requested_def shutdown_signal_handler_def shutdown_set_requested_def Let_def)

lemma deliver_signal: "0 \<notin> set sigs \<Longrightarrow> shutdown_signal_number (deliver sigs s) = (if sigs = [] then sd_signal s else last sigs)"
  by (induction sigs arbitrary: s)
    (auto simp: deliver_def shutdown_signal_number_def shutdown_signal_handler_def shutdown_set_requested_def Let_def)

lemma shutdown_request_simps [simp]:
  "shutdown_requested (shutdown_request s)" "sd_signal (shutdown_request s) = sd_signal s"
  by (simp_all add: shutdown_request_def shutdown_set_requested_def shutdown_requested_def)

end
