(* ===== verification/Server_Process.thy ===== *)
theory Server_Process
  imports Control Conn_Tracker Shutdown Cli
begin

text \<open>
  The server process (\<^verbatim>\<open>src/server.c\<close>): the listener loop, the recorded state and its watcher, start-up and
  shutdown, and the daemon that reports to its parent through a pipe. The calls to the kernel have their outcomes as
  arguments. The connection threads are the subject of other theories: what they do to files and messages while the listener
  runs is the argument \<open>work\<close>.
\<close>

section \<open>The listening socket\<close>

datatype select_outcome = SelectFails errno | SelectTimesOut | SelectReturns bool

text \<open>\<open>SelectReturns\<close> carries what \<^verbatim>\<open>FD_ISSET\<close> says. The result: return value 0, and \<^verbatim>\<open>*ready_out\<close>.\<close>

definition net_wait_readable :: "int \<Rightarrow> select_outcome \<Rightarrow> bool \<times> bool" where
  "net_wait_readable sock sel =
     (if sock < 0 then (False, False)
      else case sel of
        SelectFails e \<Rightarrow> (e = EINTR, False)
      | SelectTimesOut \<Rightarrow> (True, False)
      | SelectReturns b \<Rightarrow> (True, b))"

text \<open>The outcomes of \<^verbatim>\<open>socket\<close>, \<^verbatim>\<open>setsockopt\<close>, \<^verbatim>\<open>bind\<close> and \<^verbatim>\<open>listen\<close>.\<close>

record listen_calls =
  lc_socket :: int
  lc_setsockopt :: bool
  lc_bind :: bool
  lc_listen :: bool

text \<open>The socket, when one is returned, and the descriptors that were closed.\<close>

definition create_listener_socket :: "(string \<Rightarrow> bool) \<Rightarrow> string option \<Rightarrow> listen_calls \<Rightarrow> int option \<times> int list" where
  "create_listener_socket pton bind_ip lc =
     (let sock = lc_socket lc in
      if sock < 0 then (None, [])
      else if \<not> lc_setsockopt lc then (None, [sock])
      else if (case bind_ip of None \<Rightarrow> False | Some ip \<Rightarrow> ip \<noteq> [] \<and> \<not> pton ip) then (None, [sock])
      else if \<not> lc_bind lc then (None, [sock])
      else if \<not> lc_listen lc then (None, [sock])
      else (Some sock, []))"

section \<open>The listener\<close>

text \<open>
  One iteration: the connection threads that end before it, the signals handled before the flag is tested and while the
  call waits, and the outcomes of the calls. \<open>lr_thread\<close> has those of \<^verbatim>\<open>server_start_connection_thread\<close>.
\<close>

record listen_round =
  lr_ended :: "nat list"
  lr_before :: "int list"
  lr_select :: select_outcome
  lr_during :: "int list"
  lr_accept :: "errno + int"
  lr_thread :: "bool \<times> nat option \<times> bool"

record listener =
  ls_shutdown :: shutdown_state
  ls_tracker :: conn_tracker
  ls_started :: "(nat \<times> int) list"
  ls_closed :: "int list"

definition conns_ended :: "nat list \<Rightarrow> conn_tracker \<Rightarrow> conn_tracker" where
  "conns_ended as t = fold (\<lambda>a t. snd (server_conn_tracker_end (Some a) t)) as t"

text \<open>An accepted connection: handed to a thread, or closed.\<close>

definition listener_accepted :: "bool \<times> nat option \<times> bool \<Rightarrow> int \<Rightarrow> listener \<Rightarrow> bool \<times> listener" where
  "listener_accepted thr conn s =
     (case thr of (ctx_ok, cell, create_ok) \<Rightarrow>
      case server_start_connection_thread ctx_ok cell create_ok conn (ls_tracker s) of
        (rc, entry, t) \<Rightarrow>
          if rc \<noteq> 0 then (False, s\<lparr>ls_tracker := t, ls_closed := ls_closed s @ [conn]\<rparr>)
          else (True, s\<lparr>ls_tracker := t, ls_started := ls_started s @ [(the entry, conn)]\<rparr>))"

text \<open>\<open>None\<close>: the listener still runs after these iterations.\<close>

fun server_run_listener_loop :: "int \<Rightarrow> int \<Rightarrow> listen_round list \<Rightarrow> listener \<Rightarrow> int option \<times> listener" where
  "server_run_listener_loop sock exit_code [] s = (None, s)"
| "server_run_listener_loop sock exit_code (r # rs) s =
     (let s1 = s\<lparr>ls_shutdown := deliver (lr_before r) (ls_shutdown s), ls_tracker := conns_ended (lr_ended r) (ls_tracker s)\<rparr> in
      if shutdown_requested (ls_shutdown s1) then (Some shutdown_exit_code, s1)
      else
        let s2 = s1\<lparr>ls_shutdown := deliver (lr_during r) (ls_shutdown s1)\<rparr> in
        case net_wait_readable sock (lr_select r) of
          (False, ready) \<Rightarrow>
            if shutdown_requested (ls_shutdown s2) then (Some shutdown_exit_code, s2)
            else server_run_listener_loop sock 1 rs s2
        | (True, ready) \<Rightarrow>
            if \<not> ready then server_run_listener_loop sock exit_code rs s2
            else case lr_accept r of
              Inl e \<Rightarrow>
                if e = EINTR then server_run_listener_loop sock exit_code rs s2
                else if shutdown_requested (ls_shutdown s2) then (Some shutdown_exit_code, s2)
                else server_run_listener_loop sock exit_code rs s2
            | Inr conn \<Rightarrow>
               (case listener_accepted (lr_thread r) conn s2 of
                  (ok, s3) \<Rightarrow> server_run_listener_loop sock (if ok then exit_code else 1) rs s3))"

definition server_run_listener :: "int \<Rightarrow> listen_round list \<Rightarrow> listener \<Rightarrow> int option \<times> listener" where
  "server_run_listener sock rounds s = server_run_listener_loop sock 0 rounds s"


section \<open>The recorded state\<close>

text \<open>The address is what \<^verbatim>\<open>net_primary_ipv4\<close> answers. Where the code returns 1 its callers clear the buffer.\<close>

definition server_build_current_web_url :: "string option \<Rightarrow> u16 \<Rightarrow> nat \<Rightarrow> bool \<times> string" where
  "server_build_current_web_url ip port web_url_out_cap =
     (if web_url_out_cap = 0 \<or> port = 0 then (False, [])
      else case control_build_url ip port web_url_out_cap of
        (ok, url, phone_reachable) \<Rightarrow> if ok then (True, url) else (False, []))"

definition server_daemon_state :: "string option \<Rightarrow> server_opt \<Rightarrow> string option \<Rightarrow> bool \<Rightarrow> daemon_state" where
  "server_daemon_state ip ser_opt log_path daemon_mode =
     \<lparr>ds_pid = so_pid ser_opt, ds_receive_dir = snprintf_trunc 4096 (so_path ser_opt),
      ds_web_url = snd (server_build_current_web_url ip (so_port ser_opt) 256),
      ds_log_path = snprintf_trunc 4096 (case log_path of None \<Rightarrow> [] | Some p \<Rightarrow> p),
      ds_port = so_port ser_opt, ds_daemon_mode = (if daemon_mode then 1 else 0)\<rparr>"

text \<open>\<open>process_id\<close> is \<^verbatim>\<open>getpid()\<close>, for the name of the temporary file.\<close>

definition server_persist_daemon_state ::
  "string option \<Rightarrow> string option \<Rightarrow> int \<Rightarrow> server_opt \<Rightarrow> string option \<Rightarrow> bool \<Rightarrow> nat \<Rightarrow> fsys \<Rightarrow> bool \<times> string \<times> fsys" where
  "server_persist_daemon_state tmpdir ip process_id ser_opt log_path daemon_mode web_url_out_cap f =
     (if so_path ser_opt = [] \<or> so_port ser_opt = 0 \<or> so_pid ser_opt \<le> 0 then (False, [], f)
      else
        let st = server_daemon_state ip ser_opt log_path daemon_mode in
        case daemon_state_write tmpdir process_id st f of
          (ok, f') \<Rightarrow> (ok, snprintf_trunc web_url_out_cap (ds_web_url st), f'))"

section \<open>The state watcher\<close>

text \<open>
  The watcher sees the shutdown flag through its tests of it: \<open>tests\<close> of them answer 0, every later one answers 1. The
  answers of \<^verbatim>\<open>net_primary_ipv4\<close> are a list; when it is used up there is no address.
\<close>

record watcher_ctx =
  wc_receive_dir :: string
  wc_log_path :: string
  wc_pid :: int
  wc_port :: u16
  wc_daemon_mode :: bool
  wc_last_web_url :: string

function refresh_wait_loop :: "u32 \<Rightarrow> nat \<Rightarrow> bool \<times> nat" where
  "refresh_wait_loop remaining_ms tests =
     (if remaining_ms > 0 then
        (let chunk_ms = (if remaining_ms > 1000 then 1000 else remaining_ms) in
         if tests = 0 then (True, 0) else refresh_wait_loop (remaining_ms - chunk_ms) (tests - 1))
      else (tests = 0, tests - 1))"
  by pat_completeness auto
termination
  by (relation "measure snd") auto

declare refresh_wait_loop.simps [simp del]

definition server_wait_for_refresh_interval :: "u32 \<Rightarrow> nat \<Rightarrow> bool \<times> nat" where
  "server_wait_for_refresh_interval seconds tests = refresh_wait_loop (seconds * 1000) tests"

definition SERVER_STATE_REFRESH_INTERVAL_SECONDS :: u32 where
  "SERVER_STATE_REFRESH_INTERVAL_SECONDS = 60"

definition next_ip :: "string option list \<Rightarrow> string option \<times> string option list" where
  "next_ip ips = (case ips of [] \<Rightarrow> (None, []) | ip # rest \<Rightarrow> (ip, rest))"

lemma refresh_wait_loop_le: "refresh_wait_loop ms tests = (b, t) \<Longrightarrow> t \<le> tests"
proof (induction ms tests arbitrary: t rule: refresh_wait_loop.induct)
  case (1 ms tests)
  then show ?case by (subst (asm) (2) refresh_wait_loop.simps) (fastforce simp: Let_def split: if_splits)
qed

function server_state_watcher_main ::
  "string option \<Rightarrow> int \<Rightarrow> nat \<Rightarrow> string option list \<Rightarrow> watcher_ctx \<Rightarrow> fsys \<Rightarrow> watcher_ctx \<times> fsys" where
  "server_state_watcher_main tmpdir process_id tests ips ctx f =
     (if tests = 0 then (ctx, f)
      else case server_wait_for_refresh_interval SERVER_STATE_REFRESH_INTERVAL_SECONDS (tests - 1) of
        (True, t) \<Rightarrow> (ctx, f)
      | (False, t) \<Rightarrow>
         (case next_ip ips of (ip, ips1) \<Rightarrow>
          let web_url = snd (server_build_current_web_url ip (wc_port ctx) 256) in
          if web_url = wc_last_web_url ctx then server_state_watcher_main tmpdir process_id t ips1 ctx f
          else
            case next_ip ips1 of (ip2, ips2) \<Rightarrow>
              (case server_persist_daemon_state tmpdir ip2 process_id
                      \<lparr>so_path = wc_receive_dir ctx, so_port = wc_port ctx, so_pid = wc_pid ctx\<rparr>
                      (if wc_log_path ctx \<noteq> [] then Some (wc_log_path ctx) else None) (wc_daemon_mode ctx) 0 f of
                 (False, u, f1) \<Rightarrow> server_state_watcher_main tmpdir process_id t ips2 ctx f1
               | (True, u, f1) \<Rightarrow>
                   server_state_watcher_main tmpdir process_id t ips2
                     (ctx\<lparr>wc_last_web_url := snprintf_trunc 256 web_url\<rparr>) f1)))"
  by pat_completeness auto
termination
proof (relation "measure (\<lambda>(tmpdir, process_id, tests, ips, ctx, f). tests)", goal_cases)
  case 1
  show ?case by simp
qed (auto simp: server_wait_for_refresh_interval_def dest!: refresh_wait_loop_le [OF sym])

declare server_state_watcher_main.simps [simp del]

text \<open>The new context, when the memory and the thread were to be had.\<close>

definition server_start_state_watcher ::
  "bool \<times> bool \<Rightarrow> server_opt \<Rightarrow> string option \<Rightarrow> bool \<Rightarrow> string \<Rightarrow> watcher_ctx option" where
  "server_start_state_watcher oks ser_opt log_path daemon_mode initial_web_url =
     (case oks of (malloc_ok, create_ok) \<Rightarrow>
      if so_path ser_opt = [] \<or> so_port ser_opt = 0 \<or> so_pid ser_opt \<le> 0 then None
      else if \<not> malloc_ok then None
      else if \<not> create_ok then None
      else Some \<lparr>wc_receive_dir = snprintf_trunc 4096 (so_path ser_opt),
                wc_log_path = snprintf_trunc 4096 (case log_path of None \<Rightarrow> [] | Some p \<Rightarrow> p),
                wc_pid = so_pid ser_opt, wc_port = so_port ser_opt, wc_daemon_mode = daemon_mode,
                wc_last_web_url = snprintf_trunc 256 initial_web_url\<rparr>)"

text \<open>Joining the watcher: its whole run takes effect.\<close>

definition server_join_state_watcher ::
  "string option \<Rightarrow> int \<Rightarrow> nat \<Rightarrow> string option list \<Rightarrow> watcher_ctx option \<Rightarrow> fsys \<Rightarrow> fsys" where
  "server_join_state_watcher tmpdir process_id tests ips ctx f =
     (case ctx of None \<Rightarrow> f | Some c \<Rightarrow> snd (server_state_watcher_main tmpdir process_id tests ips c f))"


section \<open>The process\<close>

record server_process =
  sp_fs :: fsys
  sp_store :: message_store_state
  sp_tracker :: conn_tracker
  sp_shutdown :: shutdown_state
  sp_ready :: "byte list"
  sp_out :: string

text \<open>What the process meets: the outcomes of its calls, in the order of the code.\<close>

record process_env =
  pe_tmpdir :: "string option"
  pe_process_id :: int
  pe_store_ok :: bool
  pe_tracker_ok :: bool
  pe_listen :: listen_calls
  pe_ip_calls :: ipv4_calls
  pe_watcher :: "bool \<times> bool"
  pe_notify :: bool
  pe_enc :: qr_encoder
  pe_out_ip_calls :: ipv4_calls
  pe_rounds :: "listen_round list"
  pe_tests :: nat
  pe_ips_calls :: "ipv4_calls list"

text \<open>The address that \<^verbatim>\<open>control_build_url\<close> asks for, with its buffer of 64 bytes: for the state file, for the terminal, and for the watcher.\<close>

definition pe_ip :: "process_env \<Rightarrow> string option" where
  "pe_ip env = net_primary_ipv4 (pe_ip_calls env) 64"

definition pe_out_ip :: "process_env \<Rightarrow> string option" where
  "pe_out_ip env = net_primary_ipv4 (pe_out_ip_calls env) 64"

definition pe_ips :: "process_env \<Rightarrow> string option list" where
  "pe_ips env = map (\<lambda>calls. net_primary_ipv4 calls 64) (pe_ips_calls env)"

text \<open>The byte for the parent and the new value of \<^verbatim>\<open>*ready_fd\<close>; \<open>write_ok\<close>: the write returns 1.\<close>

definition server_notify_parent :: "bool \<Rightarrow> int \<Rightarrow> byte \<Rightarrow> server_process \<Rightarrow> int \<times> int \<times> server_process" where
  "server_notify_parent write_ok ready_fd code p =
     (if ready_fd < 0 then (0, ready_fd, p)
      else (if write_ok then 0 else 1, - 1, if write_ok then p\<lparr>sp_ready := sp_ready p @ [code]\<rparr> else p))"

definition server_print_access_details :: "process_env \<Rightarrow> server_opt \<Rightarrow> bool \<Rightarrow> string" where
  "server_print_access_details env ser_opt daemon_mode =
     control_print_server_access_details (pe_enc env) (pe_out_ip env) (so_path ser_opt) (so_port ser_opt) daemon_mode"

text \<open>
  From the beginning of \<^verbatim>\<open>server_run_process\<close> to the listener loop. A step that fails leads to one of the two
  labels, with the exit code.
\<close>

datatype start_up =
    GotoCleanUp int
  | GotoCloseSock int "watcher_ctx option"
  | Listening int "watcher_ctx option"

definition server_start_up ::
  "process_env \<Rightarrow> server_opt \<Rightarrow> int \<Rightarrow> string option \<Rightarrow> bool \<Rightarrow> server_process \<Rightarrow> start_up \<times> int \<times> server_process" where
  "server_start_up env ser_opt ready_fd log_path daemon_mode p =
     (if so_path ser_opt = [] then (GotoCleanUp 1, ready_fd, p)
      else case message_store_init (pe_store_ok env) (sp_store p) of (rc, st) \<Rightarrow>
        let p1 = p\<lparr>sp_store := st\<rparr> in
        if rc \<noteq> 0 then (GotoCleanUp 1, ready_fd, p1)
        else case server_conn_tracker_init (pe_tracker_ok env) (sp_tracker p1) of (rc, t) \<Rightarrow>
          let p2 = p1\<lparr>sp_tracker := t\<rparr> in
          if rc \<noteq> 0 then (GotoCleanUp 1, ready_fd, p2)
          else case create_listener_socket (\<lambda>ip. False) None (pe_listen env) of
            (None, closed) \<Rightarrow> (GotoCloseSock 1 None, ready_fd, p2)
          | (Some sock, closed) \<Rightarrow>
             (case (if daemon_mode then
                      (case server_persist_daemon_state (pe_tmpdir env) (pe_ip env) (pe_process_id env) ser_opt log_path
                              daemon_mode 256 (sp_fs p2) of
                         (ok, url, f) \<Rightarrow>
                           (ok, if ok then server_start_state_watcher (pe_watcher env) ser_opt log_path daemon_mode url else None,
                            p2\<lparr>sp_fs := f\<rparr>))
                    else (True, None, p2)) of
                (ok, ctx, p3) \<Rightarrow>
                  if \<not> ok then (GotoCloseSock 1 ctx, ready_fd, p3)
                  else if ready_fd \<ge> 0 then
                    (case server_notify_parent (pe_notify env) ready_fd 1 p3 of
                       (rc, fd, p4) \<Rightarrow> if rc \<noteq> 0 then (GotoCloseSock 1 ctx, fd, p4) else (Listening sock ctx, fd, p4))
                  else (Listening sock ctx, ready_fd, p3)))"

text \<open>\<^verbatim>\<open>server_conn_tracker_wait_idle\<close> returns when every connection thread has left the tracker.\<close>

definition all_ended :: "conn_tracker \<Rightarrow> conn_tracker" where
  "all_ended t = conns_ended (map fst (tk_head t)) t"

text \<open>The label \<^verbatim>\<open>CLOSE_SOCK\<close>.\<close>

definition server_close_sock :: "process_env \<Rightarrow> watcher_ctx option \<Rightarrow> server_process \<Rightarrow> server_process" where
  "server_close_sock env ctx p =
     (let p1 = p\<lparr>sp_shutdown := shutdown_request (sp_shutdown p)\<rparr>;
          p2 = p1\<lparr>sp_fs := server_join_state_watcher (pe_tmpdir env) (pe_process_id env) (pe_tests env) (pe_ips env) ctx (sp_fs p1)\<rparr>;
          p3 = p2\<lparr>sp_store := message_store_shutdown (sp_store p2)\<rparr>;
          (downs, bc, t) = server_conn_tracker_shutdown_all (sp_tracker p3)
      in p3\<lparr>sp_tracker := all_ended t\<rparr>)"

text \<open>The label \<^verbatim>\<open>CLEAN_UP\<close>. \<open>ready_fd\<close> is negative once the parent was told, so \<^verbatim>\<open>ready_notified\<close> adds nothing.\<close>

definition server_clean_up :: "process_env \<Rightarrow> int \<Rightarrow> bool \<Rightarrow> server_process \<Rightarrow> server_process" where
  "server_clean_up env ready_fd daemon_mode p =
     (let p1 = (if ready_fd \<ge> 0 then snd (snd (server_notify_parent (pe_notify env) ready_fd 0 p)) else p);
          p2 = (if daemon_mode then p1\<lparr>sp_fs := daemon_state_cleanup_files (pe_tmpdir env) (sp_fs p1)\<rparr> else p1)
      in p2\<lparr>sp_store := message_store_cleanup (sp_store p2), sp_tracker := server_conn_tracker_cleanup (sp_tracker p2)\<rparr>)"

definition server_run_process ::
  "process_env \<Rightarrow> (fsys \<times> message_store_state \<Rightarrow> fsys \<times> message_store_state) \<Rightarrow> server_opt \<Rightarrow> int \<Rightarrow> string option \<Rightarrow> bool \<Rightarrow>
   server_process \<Rightarrow> int option \<times> server_process" where
  "server_run_process env work ser_opt ready_fd log_path daemon_mode p =
     (case server_start_up env ser_opt ready_fd log_path daemon_mode p of
        (GotoCleanUp rc, fd, p1) \<Rightarrow> (Some rc, server_clean_up env fd daemon_mode p1)
      | (GotoCloseSock rc ctx, fd, p1) \<Rightarrow> (Some rc, server_clean_up env fd daemon_mode (server_close_sock env ctx p1))
      | (Listening sock ctx, fd, p1) \<Rightarrow>
          let p2 = p1\<lparr>sp_out := sp_out p1 @ server_print_access_details env ser_opt daemon_mode\<rparr>;
              (r, s) = server_run_listener sock (pe_rounds env)
                         \<lparr>ls_shutdown = sp_shutdown p2, ls_tracker = sp_tracker p2, ls_started = [], ls_closed = []\<rparr>;
              (f, st) = work (sp_fs p2, sp_store p2);
              p3 = p2\<lparr>sp_shutdown := ls_shutdown s, sp_tracker := ls_tracker s, sp_fs := f, sp_store := st\<rparr>
          in case r of
               None \<Rightarrow> (None, p3)
             | Some rc \<Rightarrow> (Some rc, server_clean_up env fd daemon_mode (server_close_sock env ctx p3)))"

section \<open>The daemon\<close>

definition server_pid_is_running_long :: "int \<Rightarrow> procs \<Rightarrow> bool \<times> procs" where
  "server_pid_is_running_long p ps =
     (if p \<le> 0 then (False, ps)
      else case posix_kill (to_pid_t p) 0 ps of
        (Inr u, ps') \<Rightarrow> (True, ps')
      | (Inl e, ps') \<Rightarrow> (e = EPERM, ps'))"

definition server_prepare_daemon_state :: "string option \<Rightarrow> fsys \<Rightarrow> procs \<Rightarrow> int \<times> fsys \<times> procs" where
  "server_prepare_daemon_state tmpdir f ps =
     (case daemon_state_read tmpdir f of
        (None, f1) \<Rightarrow> (0, f1, ps)
      | (Some st, f1) \<Rightarrow>
         (case server_pid_is_running_long (ds_pid st) ps of
            (True, ps1) \<Rightarrow> (1, f1, ps1)
          | (False, ps1) \<Rightarrow> (0, daemon_state_cleanup_files tmpdir f1, ps1)))"

text \<open>The three calls of \<^verbatim>\<open>dup2\<close> succeed or not; the descriptors 0, 1 and 2 are not part of the file system model.\<close>

definition server_redirect_stdio :: "bool \<Rightarrow> string \<Rightarrow> fsys \<Rightarrow> bool \<times> fsys" where
  "server_redirect_stdio dup_ok log_path f =
     (case posix_open log_path [O_CREAT, O_WRONLY] f of
        (Inl e, f1) \<Rightarrow> (False, f1)
      | (Inr err_fd, f1) \<Rightarrow>
         (case posix_open ''/dev/null'' [O_RDONLY] f1 of
            (Inl e, f2) \<Rightarrow> (False, snd (posix_close err_fd f2))
          | (Inr null_fd, f2) \<Rightarrow> (dup_ok, snd (posix_close err_fd (snd (posix_close null_fd f2))))))"

text \<open>What \<^verbatim>\<open>read\<close> on the pipe returns: an error, nothing at the end, or the byte.\<close>

definition server_wait_for_daemon_ready :: "errno + byte list \<Rightarrow> int" where
  "server_wait_for_daemon_ready rd =
     (case rd of
        Inl e \<Rightarrow> 1
      | Inr bs \<Rightarrow> if length bs = 1 \<and> bs = [1] then 0 else 1)"

datatype fork_outcome = ForkFails | InParent int "errno + byte list" | InChild int

text \<open>\<open>dc_pipe\<close>: the write end of the pipe.\<close>

record daemon_calls =
  dc_pipe :: "int option"
  dc_fork :: fork_outcome
  dc_setsid :: bool
  dc_dup :: bool

text \<open>The child, from \<^verbatim>\<open>setsid\<close> on.\<close>

definition server_child ::
  "process_env \<Rightarrow> daemon_calls \<Rightarrow> (fsys \<times> message_store_state \<Rightarrow> fsys \<times> message_store_state) \<Rightarrow> server_opt \<Rightarrow>
   int \<Rightarrow> string \<Rightarrow> int \<Rightarrow> server_process \<Rightarrow> int option \<times> server_process" where
  "server_child env dc work ser_opt ready_fd log_path self p =
     (if \<not> dc_setsid dc then (Some 1, snd (snd (server_notify_parent (pe_notify env) ready_fd 0 p)))
      else case server_redirect_stdio (dc_dup dc) log_path (sp_fs p) of
        (ok, f) \<Rightarrow>
          let p1 = p\<lparr>sp_fs := f\<rparr> in
          if \<not> ok then (Some 1, snd (snd (server_notify_parent (pe_notify env) ready_fd 0 p1)))
          else server_run_process (env\<lparr>pe_process_id := self\<rparr>) work (ser_opt\<lparr>so_pid := self\<rparr>) ready_fd (Some log_path) True p1)"

definition server ::
  "process_env \<Rightarrow> daemon_calls \<Rightarrow> (fsys \<times> message_store_state \<Rightarrow> fsys \<times> message_store_state) \<Rightarrow> server_opt \<Rightarrow> procs \<Rightarrow>
   server_process \<Rightarrow> int option \<times> procs \<times> server_process" where
  "server env dc work ser_opt ps p =
     (case daemon_state_default_log_path (pe_tmpdir env) 4096 of
        None \<Rightarrow> (Some 1, ps, p)
      | Some log_path \<Rightarrow>
         (case server_prepare_daemon_state (pe_tmpdir env) (sp_fs p) ps of
            (rc, f1, ps1) \<Rightarrow>
              let p1 = p\<lparr>sp_fs := f1\<rparr> in
              if rc \<noteq> 0 then (Some 1, ps1, p1)
              else
               (case (dc_pipe dc, dc_fork dc) of
                  (None, fk) \<Rightarrow> (Some 1, ps1, p1)
                | (Some ready_fd, ForkFails) \<Rightarrow> (Some 1, ps1, p1)
                | (Some ready_fd, InParent child_pid rd) \<Rightarrow>
                    if server_wait_for_daemon_ready rd \<noteq> 0 then (Some 1, ps1, p1)
                    else (Some 0, ps1, p1\<lparr>sp_out := sp_out p1 @ server_print_access_details env ser_opt True\<rparr>)
                | (Some ready_fd, InChild self) \<Rightarrow>
                   (case server_child env dc work ser_opt ready_fd log_path self p1 of (r, p2) \<Rightarrow> (r, ps1, p2)))))"

end
