(* ===== verification/Cli_Parse.thy ===== *)
theory Cli_Parse
  imports Cli Cstdlib
begin

text \<open>
  \<^verbatim>\<open>src/cli.c\<close>: the command line. The arguments are a list of C strings, the program's name first.
  The messages on the standard error stream are not modelled.
\<close>

definition parse_port :: "string \<Rightarrow> u16 option" where
  "parse_port s =
     (if s = [] then None
      else case strtoul10 s of
        None \<Rightarrow> None
      | Some (v, rest, erange) \<Rightarrow>
          if erange \<or> rest \<noteq> [] then None
          else if v = 0 \<or> v > 65535 then None
          else Some (ucast v))"

text \<open>\<^verbatim>\<open>need_value\<close> and \<^verbatim>\<open>take_value\<close>: the value and the arguments after it.\<close>

fun take_value :: "string list \<Rightarrow> (string \<times> string list) option" where
  "take_value [] = None"
| "take_value (v # rest) = Some (v, rest)"

text \<open>The local variables of \<^verbatim>\<open>parse_args\<close> and the options filled so far.\<close>

record parse_state =
  ps_opt :: opt
  ps_server :: bool
  ps_actions :: nat
  ps_action :: "char option"
  ps_output :: bool
  ps_ip :: bool
  ps_control :: bool

definition opt_zero :: opt where
  "opt_zero = \<lparr>opt_mode = server_mode, opt_path = None, opt_remote_path = None, opt_output_path = None,
     opt_message = None, opt_ip = ''127.0.0.1'', opt_port = 8888, opt_msg_type = 0\<rparr>"

text \<open>One round of the loop: \<open>Inl\<close> is an early return, \<open>Inr\<close> the arguments left and the state.\<close>

definition parse_flag ::
  "string \<Rightarrow> string list \<Rightarrow> parse_state \<Rightarrow> parse_result + (string list \<times> parse_state)" where
  "parse_flag a args ps =
     (if \<not> (length a \<ge> 2 \<and> a ! 0 = CHR ''-'') then Inl PARSE_ERR
      else if a ! 1 = CHR ''-'' then Inl PARSE_ERR
      else if length a > 2 then Inl PARSE_ERR
      else if a ! 1 = CHR ''h'' then Inl PARSE_HELP
      else if a ! 1 = CHR ''d'' then
        (if ps_control ps then Inl PARSE_ERR
         else if ps_server ps then Inl PARSE_ERR
         else case take_value args of
           None \<Rightarrow> Inl PARSE_ERR
         | Some (v, rest) \<Rightarrow> Inr (rest, ps\<lparr>ps_opt := (ps_opt ps)\<lparr>opt_path := Some v, opt_mode := server_mode\<rparr>,
                                          ps_server := True\<rparr>))
      else if a ! 1 = CHR ''c'' then
        (if ps_control ps then Inl PARSE_ERR
         else if ps_action ps = Some (CHR ''c'') then Inl PARSE_ERR
         else case take_value args of
           None \<Rightarrow> Inl PARSE_ERR
         | Some (v, rest) \<Rightarrow> Inr (rest, ps\<lparr>ps_opt := (ps_opt ps)\<lparr>opt_mode := client_mode, opt_path := Some v,
                                            opt_message := None, opt_msg_type := HF_MSG_TYPE_SEND_FILE\<rparr>,
                                          ps_action := Some (CHR ''c''), ps_actions := ps_actions ps + 1\<rparr>))
      else if a ! 1 = CHR ''g'' then
        (if ps_control ps then Inl PARSE_ERR
         else if ps_action ps = Some (CHR ''g'') then Inl PARSE_ERR
         else case take_value args of
           None \<Rightarrow> Inl PARSE_ERR
         | Some (v, rest) \<Rightarrow> Inr (rest, ps\<lparr>ps_opt := (ps_opt ps)\<lparr>opt_mode := client_mode,
                                            opt_remote_path := Some v, opt_msg_type := HF_MSG_TYPE_GET_FILE\<rparr>,
                                          ps_action := Some (CHR ''g''), ps_actions := ps_actions ps + 1\<rparr>))
      else if a ! 1 = CHR ''m'' then
        (if ps_control ps then Inl PARSE_ERR
         else if ps_action ps = Some (CHR ''m'') then Inl PARSE_ERR
         else case take_value args of
           None \<Rightarrow> Inl PARSE_ERR
         | Some (v, rest) \<Rightarrow> Inr (rest, ps\<lparr>ps_opt := (ps_opt ps)\<lparr>opt_mode := client_mode, opt_path := None,
                                            opt_message := Some v, opt_msg_type := HF_MSG_TYPE_TEXT_MESSAGE\<rparr>,
                                          ps_action := Some (CHR ''m''), ps_actions := ps_actions ps + 1\<rparr>))
      else if a ! 1 = CHR ''o'' then
        (if ps_control ps then Inl PARSE_ERR
         else if ps_output ps then Inl PARSE_ERR
         else case take_value args of
           None \<Rightarrow> Inl PARSE_ERR
         | Some (v, rest) \<Rightarrow> Inr (rest, ps\<lparr>ps_opt := (ps_opt ps)\<lparr>opt_output_path := Some v\<rparr>, ps_output := True\<rparr>))
      else if a ! 1 = CHR ''i'' then
        (case take_value args of
           None \<Rightarrow> Inl PARSE_ERR
         | Some (v, rest) \<Rightarrow> Inr (rest, ps\<lparr>ps_opt := (ps_opt ps)\<lparr>opt_ip := v\<rparr>, ps_ip := True\<rparr>))
      else if a ! 1 = CHR ''p'' then
        (if ps_control ps then Inl PARSE_ERR
         else case take_value args of
           None \<Rightarrow> Inl PARSE_ERR
         | Some (v, rest) \<Rightarrow>
            (case parse_port v of
               None \<Rightarrow> Inl PARSE_ERR
             | Some port \<Rightarrow> Inr (rest, ps\<lparr>ps_opt := (ps_opt ps)\<lparr>opt_port := port\<rparr>\<rparr>)))
      else Inl PARSE_ERR)"

lemma take_value_shorter: "take_value args = Some (v, rest) \<Longrightarrow> length rest \<le> length args"
  by (cases args) auto

lemma parse_flag_shorter: "parse_flag a args ps = Inr (rest, ps') \<Longrightarrow> length rest \<le> length args"
  by (auto simp: parse_flag_def split: if_splits option.splits dest!: take_value_shorter)

function parse_loop :: "string list \<Rightarrow> parse_state \<Rightarrow> parse_result + parse_state" where
  "parse_loop [] ps = Inr ps"
| "parse_loop (a # args) ps =
     (case parse_flag a args ps of Inl r \<Rightarrow> Inl r | Inr (rest, ps') \<Rightarrow> parse_loop rest ps')"
  by pat_completeness auto
termination
  by (relation "measure (length \<circ> fst)") (auto dest: parse_flag_shorter)

text \<open>
  The checks after the loop. \<open>Inr opt\<close> is \<^verbatim>\<open>PARSE_OK\<close>; what the other results leave in \<^verbatim>\<open>*opt\<close> is
  never looked at.
\<close>

definition parse_finish :: "parse_state \<Rightarrow> parse_result + opt" where
  "parse_finish ps =
     (let opt = ps_opt ps;
          opt' = (if \<not> ps_control ps
                  then opt\<lparr>opt_mode := (if ps_server ps then server_mode else client_mode)\<rparr> else opt)
      in if ps_output ps \<and> ps_action ps \<noteq> Some (CHR ''g'') then Inl PARSE_ERR
         else if \<not> ps_server ps \<and> ps_actions ps = 0 \<and> \<not> ps_control ps then Inl PARSE_ERR
         else if ps_server ps \<and> ps_actions ps > 0 then Inl PARSE_ERR
         else if ps_actions ps > 1 then Inl PARSE_ERR
         else if opt_mode opt' = server_mode \<and> opt_path opt' = None then Inl PARSE_ERR
         else if opt_mode opt' = client_mode \<and> ps_action ps = Some (CHR ''c'') \<and> opt_path opt' = None
         then Inl PARSE_ERR
         else if opt_mode opt' = client_mode \<and> ps_action ps = Some (CHR ''g'') \<and> opt_remote_path opt' = None
         then Inl PARSE_ERR
         else if opt_mode opt' = client_mode \<and> ps_action ps = Some (CHR ''m'') \<and> opt_message opt' = None
         then Inl PARSE_ERR
         else if ps_ip ps \<and> opt_mode opt' \<noteq> client_mode then Inl PARSE_ERR
         else Inr opt')"

definition parse_args :: "string list \<Rightarrow> parse_result + opt" where
  "parse_args argv =
     (let ps = \<lparr>ps_opt = opt_zero, ps_server = False, ps_actions = 0, ps_action = None, ps_output = False,
                ps_ip = False, ps_control = False\<rparr>;
          (args, ps0) =
            (if length argv > 1 \<and> argv ! 1 = ''status''
             then (drop 2 argv, ps\<lparr>ps_opt := opt_zero\<lparr>opt_mode := status_mode\<rparr>, ps_control := True\<rparr>)
             else if length argv > 1 \<and> argv ! 1 = ''stop''
             then (drop 2 argv, ps\<lparr>ps_opt := opt_zero\<lparr>opt_mode := stop_mode\<rparr>, ps_control := True\<rparr>)
             else (drop 1 argv, ps))
      in case parse_loop args ps0 of
           Inl r \<Rightarrow> Inl r
         | Inr ps' \<Rightarrow> parse_finish ps')"


section \<open>Accepted command lines\<close>

text \<open>What the rest of the program may rely on.\<close>

definition opt_ok :: "opt \<Rightarrow> bool" where
  "opt_ok opt \<longleftrightarrow> opt_port opt \<noteq> 0 \<and>
     (case opt_mode opt of
        server_mode \<Rightarrow> opt_path opt \<noteq> None \<and> opt_remote_path opt = None \<and> opt_message opt = None \<and> opt_output_path opt = None
      | client_mode \<Rightarrow>
          opt_msg_type opt = HF_MSG_TYPE_SEND_FILE \<and> opt_path opt \<noteq> None \<and> opt_remote_path opt = None \<and>
            opt_message opt = None \<and> opt_output_path opt = None \<or>
          opt_msg_type opt = HF_MSG_TYPE_GET_FILE \<and> opt_remote_path opt \<noteq> None \<and> opt_path opt = None \<and> opt_message opt = None \<or>
          opt_msg_type opt = HF_MSG_TYPE_TEXT_MESSAGE \<and> opt_message opt \<noteq> None \<and> opt_path opt = None \<and>
            opt_remote_path opt = None \<and> opt_output_path opt = None
      | _ \<Rightarrow> opt_path opt = None \<and> opt_remote_path opt = None \<and> opt_message opt = None \<and> opt_output_path opt = None)"

definition parse_inv :: "parse_state \<Rightarrow> bool" where
  "parse_inv ps \<longleftrightarrow> (let opt = ps_opt ps in
     opt_port opt \<noteq> 0 \<and>
     (ps_control ps \<longrightarrow> \<not> ps_server ps \<and> ps_actions ps = 0 \<and> opt_mode opt \<in> {status_mode, stop_mode}) \<and>
     (ps_actions ps = 0 \<longleftrightarrow> ps_action ps = None) \<and> (ps_output ps \<longleftrightarrow> opt_output_path opt \<noteq> None) \<and>
     (ps_actions ps = 0 \<longrightarrow> opt_remote_path opt = None \<and> opt_message opt = None \<and> (opt_path opt \<noteq> None \<longleftrightarrow> ps_server ps)) \<and>
     (ps_actions ps = 1 \<and> \<not> ps_server ps \<longrightarrow>
        ps_action ps = Some (CHR ''c'') \<and> opt_msg_type opt = HF_MSG_TYPE_SEND_FILE \<and> opt_path opt \<noteq> None \<and>
          opt_message opt = None \<and> opt_remote_path opt = None \<or>
        ps_action ps = Some (CHR ''g'') \<and> opt_msg_type opt = HF_MSG_TYPE_GET_FILE \<and> opt_remote_path opt \<noteq> None \<and>
          opt_message opt = None \<and> opt_path opt = None \<or>
        ps_action ps = Some (CHR ''m'') \<and> opt_msg_type opt = HF_MSG_TYPE_TEXT_MESSAGE \<and> opt_message opt \<noteq> None \<and>
          opt_path opt = None \<and> opt_remote_path opt = None))"

lemma parse_port_nonzero: "parse_port s = Some p \<Longrightarrow> p \<noteq> 0"
proof -
  assume "parse_port s = Some p"
  then obtain v :: u64 where v: "v \<noteq> 0" "v \<le> 65535" "p = ucast v"
    by (auto simp: parse_port_def not_less split: if_splits option.splits)
  then have "unat v \<le> 65535" by (simp add: word_le_nat_alt)
  then have "unat (ucast v :: u16) = unat v" by (simp add: unsigned_ucast_eq take_bit_nat_eq_self)
  with v show "p \<noteq> 0" by (auto simp: word_unat_eq_iff)
qed

text \<open>What a round of the loop can do.\<close>

lemma parse_flag_cases:
  assumes "parse_flag a args ps = Inr (rest, ps')"
  obtains (d) v where "\<not> ps_control ps" "\<not> ps_server ps"
      "ps' = ps\<lparr>ps_opt := (ps_opt ps)\<lparr>opt_path := Some v, opt_mode := server_mode\<rparr>, ps_server := True\<rparr>"
  | (c) v where "\<not> ps_control ps" "ps_action ps \<noteq> Some (CHR ''c'')"
      "ps' = ps\<lparr>ps_opt := (ps_opt ps)\<lparr>opt_mode := client_mode, opt_path := Some v, opt_message := None,
         opt_msg_type := HF_MSG_TYPE_SEND_FILE\<rparr>, ps_action := Some (CHR ''c''), ps_actions := ps_actions ps + 1\<rparr>"
  | (g) v where "\<not> ps_control ps" "ps_action ps \<noteq> Some (CHR ''g'')"
      "ps' = ps\<lparr>ps_opt := (ps_opt ps)\<lparr>opt_mode := client_mode, opt_remote_path := Some v,
         opt_msg_type := HF_MSG_TYPE_GET_FILE\<rparr>, ps_action := Some (CHR ''g''), ps_actions := ps_actions ps + 1\<rparr>"
  | (m) v where "\<not> ps_control ps" "ps_action ps \<noteq> Some (CHR ''m'')"
      "ps' = ps\<lparr>ps_opt := (ps_opt ps)\<lparr>opt_mode := client_mode, opt_path := None, opt_message := Some v,
         opt_msg_type := HF_MSG_TYPE_TEXT_MESSAGE\<rparr>, ps_action := Some (CHR ''m''), ps_actions := ps_actions ps + 1\<rparr>"
  | (out) v where "\<not> ps_control ps" "ps' = ps\<lparr>ps_opt := (ps_opt ps)\<lparr>opt_output_path := Some v\<rparr>, ps_output := True\<rparr>"
  | (ip) v where "ps' = ps\<lparr>ps_opt := (ps_opt ps)\<lparr>opt_ip := v\<rparr>, ps_ip := True\<rparr>"
  | (port) p where "p \<noteq> 0" "ps' = ps\<lparr>ps_opt := (ps_opt ps)\<lparr>opt_port := p\<rparr>\<rparr>"
proof -
  obtain v where tv: "take_value args = Some (v, rest)"
    using assms by (auto simp: parse_flag_def split: if_splits option.splits)
  note unf = assms [unfolded parse_flag_def tv option.case prod.case]
  have ch: "a ! 1 \<in> {CHR ''d'', CHR ''c'', CHR ''g'', CHR ''m'', CHR ''o'', CHR ''i'', CHR ''p''}"
    using unf by (simp split: if_splits)
  show thesis
  proof (cases "a ! 1 = CHR ''p''")
    case True
    with unf obtain p where "parse_port v = Some p" "ps' = ps\<lparr>ps_opt := (ps_opt ps)\<lparr>opt_port := p\<rparr>\<rparr>"
      by (auto split: if_splits option.splits)
    with port parse_port_nonzero show thesis by blast
  next
    case False
    with ch unf show thesis
      by (elim insertE emptyE) (simp_all split: if_splits add: d [of v] c [of v] g [of v] m [of v] out [of v] ip [of v])
  qed
qed

lemma parse_flag_inv:
  assumes "parse_flag a args ps = Inr (rest, ps')" "parse_inv ps"
  shows "parse_inv ps'"
  using assms(1)
proof (cases rule: parse_flag_cases)
  case (c v)
  with assms(2) show ?thesis by (cases "ps_actions ps") (auto simp: parse_inv_def Let_def)
next
  case (g v)
  with assms(2) show ?thesis by (cases "ps_actions ps") (auto simp: parse_inv_def Let_def)
next
  case (m v)
  with assms(2) show ?thesis by (cases "ps_actions ps") (auto simp: parse_inv_def Let_def)
qed (use assms(2) in \<open>simp_all add: parse_inv_def Let_def\<close>)

lemma parse_loop_inv:
  assumes "parse_loop args ps = Inr ps'" "parse_inv ps"
  shows "parse_inv ps'"
  using assms
proof (induction args ps rule: parse_loop.induct)
  case (2 a args ps)
  then obtain rest ps1 where f: "parse_flag a args ps = Inr (rest, ps1)" "parse_loop rest ps1 = Inr ps'"
    by (auto split: sum.splits prod.splits)
  from "2.IH" [OF f(1) refl f(2) parse_flag_inv [OF f(1) "2.prems"(2)]] show ?case .
qed simp


lemma parse_finish_ok:
  assumes "parse_finish ps = Inr opt" "parse_inv ps"
  shows "opt_ok opt"
proof -
  let ?opt = "if \<not> ps_control ps then (ps_opt ps)\<lparr>opt_mode := if ps_server ps then server_mode else client_mode\<rparr> else ps_opt ps"
  have opt: "opt = ?opt" using assms(1) by (simp add: parse_finish_def Let_def split: if_splits)
  have g: "ps_output ps \<longrightarrow> ps_action ps = Some (CHR ''g'')" "ps_server ps \<longrightarrow> ps_actions ps = 0" "ps_actions ps \<le> 1"
    "ps_server ps \<or> ps_actions ps \<noteq> 0 \<or> ps_control ps"
    using assms(1) by (auto simp: parse_finish_def Let_def split: if_splits)
  have port: "opt_port opt \<noteq> 0" using assms(2) by (simp add: opt parse_inv_def Let_def)
  consider (ctl) "ps_control ps" | (srv) "\<not> ps_control ps" "ps_server ps" | (cl) "\<not> ps_control ps" "\<not> ps_server ps" by blast
  then show ?thesis
  proof cases
    case ctl
    with assms(2) g port show ?thesis by (auto simp: parse_inv_def opt_ok_def opt Let_def)
  next
    case srv
    with assms(2) g port show ?thesis by (auto simp: parse_inv_def opt_ok_def opt Let_def)
  next
    case cl
    then have one: "ps_actions ps = 1" using g by auto
    have act: "ps_action ps = Some (CHR ''c'') \<and> opt_msg_type (ps_opt ps) = HF_MSG_TYPE_SEND_FILE \<and> opt_path (ps_opt ps) \<noteq> None \<and>
          opt_message (ps_opt ps) = None \<and> opt_remote_path (ps_opt ps) = None \<or>
        ps_action ps = Some (CHR ''g'') \<and> opt_msg_type (ps_opt ps) = HF_MSG_TYPE_GET_FILE \<and> opt_remote_path (ps_opt ps) \<noteq> None \<and>
          opt_message (ps_opt ps) = None \<and> opt_path (ps_opt ps) = None \<or>
        ps_action ps = Some (CHR ''m'') \<and> opt_msg_type (ps_opt ps) = HF_MSG_TYPE_TEXT_MESSAGE \<and> opt_message (ps_opt ps) \<noteq> None \<and>
          opt_path (ps_opt ps) = None \<and> opt_remote_path (ps_opt ps) = None"
      "ps_output ps \<longleftrightarrow> opt_output_path (ps_opt ps) \<noteq> None"
      using assms(2) one cl by (simp_all only: parse_inv_def Let_def simp_thms)
    from act(1) show ?thesis
      using cl g(1) act(2) port by (elim disjE conjE) (simp_all add: opt_ok_def opt)
  qed
qed

text \<open>
C25: A command line that is accepted is one the rest of the program can act on: the port is not 0, the server
mode has a directory, the client mode has exactly one action with the argument that action needs and
no argument of another one (an output path only with a download), and the control modes have none. In
particular no \<^verbatim>\<open>NULL\<close> is handed on, and the parser terminates on every argument vector.
\<close>
theorem parse_args_accepts_ok: "parse_args argv = Inr opt \<Longrightarrow> opt_ok opt"
proof -
  assume a: "parse_args argv = Inr opt"
  obtain args ps0 ps where l: "parse_loop args ps0 = Inr ps" "parse_finish ps = Inr opt" "parse_inv ps0"
    using a by (auto simp: parse_args_def parse_inv_def opt_zero_def Let_def split: if_splits sum.splits)
  from parse_finish_ok [OF l(2) parse_loop_inv [OF l(1,3)]] show "opt_ok opt" .
qed

section \<open>Printing a command line\<close>

text \<open>The command line the usage text gives for a set of options.\<close>

definition command_line :: "opt \<Rightarrow> string list" where
  "command_line opt =
     (let port = [''-p'', show_nat (unat (opt_port opt))] in
      case opt_mode opt of
        server_mode \<Rightarrow> [''-d'', the (opt_path opt)] @ port
      | client_mode \<Rightarrow>
          (if opt_msg_type opt = HF_MSG_TYPE_SEND_FILE then [''-c'', the (opt_path opt)]
           else if opt_msg_type opt = HF_MSG_TYPE_GET_FILE
           then [''-g'', the (opt_remote_path opt)] @
                (case opt_output_path opt of None \<Rightarrow> [] | Some out \<Rightarrow> [''-o'', out])
           else [''-m'', the (opt_message opt)]) @ [''-i'', opt_ip opt] @ port
      | status_mode \<Rightarrow> [''status'']
      | stop_mode \<Rightarrow> [''stop''])"

lemma parse_port_show: "p \<noteq> 0 \<Longrightarrow> parse_port (show_nat (unat p)) = Some (p :: u16)"
proof -
  assume p: "p \<noteq> 0"
  have lt: "unat p < 65536" using unsigned_less [of p, where 'a = nat] by simp
  then have s: "strtoul10 (show_nat (unat p)) = Some (of_nat (unat p), [], False)" by (intro strtoul10_show) simp
  have u: "unat (of_nat (unat p) :: u64) = unat p" unfolding unat_of_nat using lt by simp
  have "(of_nat (unat p) :: u64) \<noteq> 0" "\<not> (of_nat (unat p) :: u64) > 65535"
    using u lt p by (auto simp: word_unat_eq_iff word_less_nat_alt)
  moreover have "unat (ucast (of_nat (unat p) :: u64) :: u16) = unat p"
    unfolding unsigned_ucast_eq u by (rule take_bit_nat_eq_self) (use lt in simp)
  then have "(ucast (of_nat (unat p) :: u64) :: u16) = p" by (simp only: word_unat_eq_iff)
  ultimately show ?thesis using s by (simp add: parse_port_def)
qed

lemmas flag_simps = parse_flag_def parse_args_def parse_finish_def opt_zero_def Let_def parse_port_show

text \<open>The options a printed command line can carry: a mode's defaults for what it does not take.\<close>

definition opt_printable :: "opt \<Rightarrow> bool" where
  "opt_printable opt \<longleftrightarrow> opt_ok opt \<and>
     (opt_mode opt \<noteq> client_mode \<longrightarrow> opt_ip opt = ''127.0.0.1'' \<and> opt_msg_type opt = 0) \<and>
     (opt_mode opt \<in> {status_mode, stop_mode} \<longrightarrow> opt_port opt = 8888)"

text \<open>
C26: Printing and parsing are inverse: the command line the usage text prescribes for a set of
options, under any program name, is accepted and gives those options back.
\<close>
theorem parse_command_line: "opt_printable opt \<Longrightarrow> parse_args (prog # command_line opt) = Inr opt"
proof -
  assume p: "opt_printable opt"
  then have ok: "opt_ok opt" "opt_port opt \<noteq> 0" by (simp_all add: opt_printable_def opt_ok_def)
  show ?thesis
  proof (cases "opt_mode opt")
    case server_mode
    with p ok show ?thesis
      by (cases opt) (auto simp: opt_printable_def opt_ok_def command_line_def flag_simps)
  next
    case client_mode
    from ok(1) client_mode consider "opt_msg_type opt = HF_MSG_TYPE_SEND_FILE" | "opt_msg_type opt = HF_MSG_TYPE_GET_FILE"
      | "opt_msg_type opt = HF_MSG_TYPE_TEXT_MESSAGE" by (auto simp: opt_ok_def)
    then show ?thesis
    proof cases
      case 1
      with client_mode ok show ?thesis
        by (cases opt) (auto simp: opt_ok_def command_line_def flag_simps protocol_consts)
    next
      case 2
      with client_mode ok show ?thesis
        by (cases opt; cases "opt_output_path opt") (auto simp: opt_ok_def command_line_def flag_simps protocol_consts)
    next
      case 3
      with client_mode ok show ?thesis
        by (cases opt) (auto simp: opt_ok_def command_line_def flag_simps protocol_consts)
    qed
  next
    case status_mode
    with p show ?thesis by (cases opt) (auto simp: opt_printable_def opt_ok_def command_line_def flag_simps)
  next
    case stop_mode
    with p show ?thesis by (cases opt) (auto simp: opt_printable_def opt_ok_def command_line_def flag_simps)
  qed
qed


theorem parse_args_accepts_ok_witness:
  "opt_ok (projr (parse_args [''hf'', ''-g'', ''notes.txt'', ''-o'', ''/tmp/n'', ''-p'', ''9000'']))"
proof -
  let ?r = "parse_args [''hf'', ''-g'', ''notes.txt'', ''-o'', ''/tmp/n'', ''-p'', ''9000'']"
  have "parse_port ''9000'' = Some 9000"
    by (simp add: parse_port_def strtoul10_def strto_scan_def isspace_def isdigit_def char_code_def digits_val_def digit_val_def)
  then have "\<not> isl ?r" by (simp add: flag_simps)
  then have "?r = Inr (projr ?r)" by (rule sum.collapse(2) [symmetric])
  then show ?thesis by (rule parse_args_accepts_ok)
qed

text \<open>The options of the witness: a message to a peer on the default port.\<close>

definition demo_message_opt :: opt where
  "demo_message_opt = opt_zero\<lparr>opt_mode := client_mode, opt_message := Some ''hello'', opt_ip := ''10.0.0.2'',
     opt_msg_type := HF_MSG_TYPE_TEXT_MESSAGE\<rparr>"

theorem parse_command_line_witness:
  "parse_args [''hf'', ''-m'', ''hello'', ''-i'', ''10.0.0.2'', ''-p'', ''8888''] = Inr demo_message_opt"
proof -
  have "opt_printable demo_message_opt"
    by (simp add: demo_message_opt_def opt_printable_def opt_ok_def opt_zero_def)
  moreover have "digit_char 8 = CHR ''8''" by code_simp
  then have "show_nat 8888 = ''8888''" by (simp add: show_nat.simps)
  then have "command_line demo_message_opt = [''-m'', ''hello'', ''-i'', ''10.0.0.2'', ''-p'', ''8888'']"
    by (simp add: command_line_def demo_message_opt_def opt_zero_def protocol_consts)
  ultimately show ?thesis using parse_command_line [of demo_message_opt "''hf''"] by (simp only:)
qed

end
