(* ===== verification/Hfile.thy ===== *)
theory Hfile
  imports Process_Facts Client Cli_Parse
begin

text \<open>
  \<^verbatim>\<open>src/hfile.c\<close>: the program. The state of the machine is a world (the connection and the files of the client), the
  processes that a signal may reach, and what the server keeps; the outcomes of calls are arguments as elsewhere.
\<close>

record machine =
  mc_world :: world
  mc_procs :: procs
  mc_process :: server_process

text \<open>A path that was not given is \<^verbatim>\<open>NULL\<close>, which the server treats like the empty string.\<close>

definition init_server_opt :: "opt \<Rightarrow> server_opt" where
  "init_server_opt opt =
     \<lparr>so_path = (case opt_path opt of None \<Rightarrow> [] | Some p \<Rightarrow> p), so_port = opt_port opt, so_pid = 0\<rparr>"

definition init_client_opt :: "opt \<Rightarrow> client_opt" where
  "init_client_opt opt =
     \<lparr>co_path = opt_path opt, co_remote_path = opt_remote_path opt, co_output_path = opt_output_path opt,
      co_message = opt_message opt, co_ip = opt_ip opt, co_port = opt_port opt, co_msg_type = opt_msg_type opt\<rparr>"

text \<open>
  What the program meets: whether the two handlers could be installed, the connection of the client, the signals handled while a
  command other than the server runs, and the environment of the server.
\<close>

record main_env =
  me_sigaction :: "bool \<times> bool"
  me_connect :: connect_outcome
  me_signals :: "int list"
  me_process :: process_env
  me_daemon :: daemon_calls
  me_work :: "fsys \<times> message_store_state \<Rightarrow> fsys \<times> message_store_state"

definition with_shutdown :: "(shutdown_state \<Rightarrow> shutdown_state) \<Rightarrow> machine \<Rightarrow> machine" where
  "with_shutdown g m = m\<lparr>mc_process := (mc_process m)\<lparr>sp_shutdown := g (sp_shutdown (mc_process m))\<rparr>\<rparr>"

definition with_output :: "string \<Rightarrow> machine \<Rightarrow> machine" where
  "with_output out m = m\<lparr>mc_process := (mc_process m)\<lparr>sp_out := sp_out (mc_process m) @ out\<rparr>\<rparr>"

text \<open>The four commands.\<close>

definition main_dispatch :: "main_env \<Rightarrow> opt \<Rightarrow> machine \<Rightarrow> int option \<times> machine" where
  "main_dispatch env opt m =
     (case opt_mode opt of
        server_mode \<Rightarrow>
          (case server (me_process env) (me_daemon env) (me_work env) (init_server_opt opt) (mc_procs m)
                  ((mc_process m)\<lparr>sp_fs := fs (mc_world m)\<rparr>) of
             (r, ps, p) \<Rightarrow> (r, m\<lparr>mc_process := p, mc_procs := ps, mc_world := (mc_world m)\<lparr>fs := sp_fs p\<rparr>\<rparr>))
      | client_mode \<Rightarrow>
          (case client (me_connect env) (init_client_opt opt) (mc_world m) of
             (r, w) \<Rightarrow> (Some r, with_shutdown (deliver (me_signals env)) (m\<lparr>mc_world := w\<rparr>)))
      | status_mode \<Rightarrow>
          (case control_status (pe_enc (me_process env)) (pe_tmpdir (me_process env)) (fs (mc_world m)) (mc_procs m) of
             (r, out, f, ps) \<Rightarrow>
               (Some r, with_shutdown (deliver (me_signals env))
                  (with_output out (m\<lparr>mc_world := (mc_world m)\<lparr>fs := f\<rparr>, mc_procs := ps\<rparr>))))
      | stop_mode \<Rightarrow>
          (case control_stop (pe_tmpdir (me_process env)) (fs (mc_world m)) (mc_procs m) of
             (r, out, f, ps) \<Rightarrow>
               (Some r, with_shutdown (deliver (me_signals env))
                  (with_output out (m\<lparr>mc_world := (mc_world m)\<lparr>fs := f\<rparr>, mc_procs := ps\<rparr>)))))"

text \<open>\<open>None\<close>: the server still runs. The usage text is not modelled.\<close>

definition hf_main :: "main_env \<Rightarrow> string list \<Rightarrow> machine \<Rightarrow> int option \<times> machine" where
  "hf_main env argv m =
     (case shutdown_init (fst (me_sigaction env)) (snd (me_sigaction env)) (sp_shutdown (mc_process m)) of
        (rc, s) \<Rightarrow>
          let m1 = with_shutdown (\<lambda>_. s) m in
          if rc \<noteq> 0 then (Some 1, with_shutdown shutdown_cleanup m1)
          else case parse_args argv of
            Inl res \<Rightarrow> (Some (if res = PARSE_HELP then 0 else 1), with_shutdown shutdown_cleanup m1)
          | Inr opt \<Rightarrow>
             (case main_dispatch env opt m1 of
                (None, m2) \<Rightarrow> (None, m2)
              | (Some ret, m2) \<Rightarrow>
                  (Some (if shutdown_signal_number (sp_shutdown (mc_process m2)) \<noteq> 0 then shutdown_exit_code else ret),
                   with_shutdown shutdown_cleanup m2)))"

section \<open>Exit codes\<close>

lemma with_shutdown_simps [simp]:
  "sp_shutdown (mc_process (with_shutdown g m)) = g (sp_shutdown (mc_process m))"
  "sp_shutdown (mc_process (with_output out m)) = sp_shutdown (mc_process m)"
  "mc_world (with_shutdown g m) = mc_world m" "mc_procs (with_shutdown g m) = mc_procs m"
  "mc_world (with_output out m) = mc_world m"
  by (simp_all add: with_shutdown_def with_output_def)

text \<open>A command line that is not accepted changes nothing but the flag, and its exit code tells help from an error.\<close>

lemma hf_main_rejected:
  assumes "me_sigaction env = (True, True)" "parse_args argv = Inl res"
  shows "fst (hf_main env argv m) = Some (if res = PARSE_HELP then 0 else 1)"
    "mc_world (snd (hf_main env argv m)) = mc_world m" "mc_procs (snd (hf_main env argv m)) = mc_procs m"
  using assms by (simp_all add: hf_main_def shutdown_init_def Let_def)

text \<open>A client command ends with the result of the client, or with 130 if it was interrupted; the handlers are gone.\<close>

lemma hf_main_client:
  assumes "me_sigaction env = (True, True)" "parse_args argv = Inr opt" "opt_mode opt = client_mode" "0 \<notin> set (me_signals env)"
    and "client (me_connect env) (init_client_opt opt) (mc_world m) = (rc, w)" "hf_main env argv m = (r, m')"
  shows "r = Some (if me_signals env = [] then rc else 130)" "mc_world m' = w"
    "sd_sigint (sp_shutdown (mc_process m')) = SIG_DFL" "sd_sigterm (sp_shutdown (mc_process m')) = SIG_DFL"
proof -
  have last: "last (me_signals env) \<noteq> 0" if "me_signals env \<noteq> []" using assms(4) last_in_set [OF that] by auto
  show "r = Some (if me_signals env = [] then rc else 130)" "mc_world m' = w"
    "sd_sigint (sp_shutdown (mc_process m')) = SIG_DFL" "sd_sigterm (sp_shutdown (mc_process m')) = SIG_DFL"
    using assms last
    by (auto simp: hf_main_def main_dispatch_def shutdown_init_def shutdown_cleanup_def shutdown_exit_code_def deliver_signal Let_def
        split: if_splits)
qed

end
