(* ===== verification/End_To_End.thy ===== *)
theory End_To_End
  imports Connection Hfile Examples
begin

text \<open>
  The program against itself: a run of \<^verbatim>\<open>main\<close> for a client command on one machine and the thread of the connection of a server on
  another. What the client reports by its exit code is what happened on the server, and with a working connection it reports success.
\<close>

section \<open>The program as a client\<close>

lemma hf_main_client_runs:
  assumes "hf_main env argv m = (r, m')" "me_sigaction env = (True, True)" "me_signals env = []"
    and "parse_args argv = Inr opt" "opt_mode opt = client_mode"
  obtains rc where "client (me_connect env) (init_client_opt opt) (mc_world m) = (rc, mc_world m')" "r = Some rc"
proof -
  obtain rc w where c: "client (me_connect env) (init_client_opt opt) (mc_world m) = (rc, w)" by fastforce
  from hf_main_client [OF assms(2,4,5) _ c assms(1)] assms(3) c that show thesis by simp
qed

text \<open>Exit code 0 of a client command is a success of the client: neither a failed start nor a signal gives it.\<close>

lemma hf_main_client_succeeds:
  assumes "hf_main env argv m = (Some 0, m')" "parse_args argv = Inr opt" "opt_mode opt = client_mode" "0 \<notin> set (me_signals env)"
  shows "client (me_connect env) (init_client_opt opt) (mc_world m) = (0, mc_world m')"
proof (cases "me_sigaction env = (True, True)")
  case True
  obtain rc w where c: "client (me_connect env) (init_client_opt opt) (mc_world m) = (rc, w)" by fastforce
  from hf_main_client(1,2) [OF True assms(2,3,4) c assms(1)] c show ?thesis by (simp split: if_splits)
next
  case False
  with assms(1) show ?thesis by (cases "me_sigaction env") (auto simp: hf_main_def shutdown_init_def Let_def split: if_splits prod.splits)
qed

lemma init_client_opt_simps [simp]:
  "co_path (init_client_opt opt) = opt_path opt" "co_remote_path (init_client_opt opt) = opt_remote_path opt"
  "co_output_path (init_client_opt opt) = opt_output_path opt" "co_message (init_client_opt opt) = opt_message opt"
  "co_ip (init_client_opt opt) = opt_ip opt" "co_msg_type (init_client_opt opt) = opt_msg_type opt"
  by (simp_all add: init_client_opt_def)

section \<open>Success that is reported\<close>

text \<open>
C1: An upload the program reports as done is stored. The connection may break at any point, every system call on either side may
fail or be cut short, signals may arrive: if the command exits with code 0, then the receive directory of the server holds, under the base
name of the path, exactly the content of the client's file, and nothing else on the server differs.
\<close>
theorem hf_upload_is_stored:
  assumes "hf_main env argv m = (Some 0, m')" "parse_args argv = Inr opt" "opt_mode opt = client_mode" "0 \<notin> set (me_signals env)"
    and "opt_msg_type opt = HF_MSG_TYPE_SEND_FILE" "opt_path opt = Some path" "cstring path"
    and "server_connection_thread_main http sopt sw = sw'"
    and "end_ok (mc_world m)" "end_ok sw" "carried (mc_world m) (mc_world m') sw sw'"
  shows "\<exists>c full. file_at (fs (mc_world m)) path c \<and>
    fs_join_relative_path 4096 (so_path sopt) (Some (fs_basename_from_path path)) = Some full \<and>
    delivered full c (fs sw) (fs sw')"
  using upload_reported_is_stored [OF hf_main_client_succeeds [OF assms(1-4)] _ _ assms(7,8,9,10,11)] assms(5,6) by simp

text \<open>
C2: A download the program reports as done is the file of the server. If the command exits with code 0, the server has a regular
file of the requested name directly below its receive directory, and that content, all of it and nothing more, is now the content of
the output path (the requested name when none was given); nothing else in the client's file system differs.
\<close>
theorem hf_download_is_faithful:
  assumes "hf_main env argv m = (Some 0, m')" "parse_args argv = Inr opt" "opt_mode opt = client_mode" "0 \<notin> set (me_signals env)"
    and "opt_msg_type opt = HF_MSG_TYPE_GET_FILE" "opt_remote_path opt = Some remote" "cstring remote"
    and "server_connection_thread_main http sopt sw = sw'"
    and "end_ok (mc_world m)" "end_ok sw" "carried (mc_world m) (mc_world m') sw sw'"
  shows "\<exists>c k full. fs_join_relative_path 4096 (so_path sopt) (Some remote) = Some full \<and>
    nodes (fs sw) (canon full) = Some (FileN c k) \<and>
    delivered (case opt_output_path opt of Some out \<Rightarrow> out | None \<Rightarrow> remote) c (fs (mc_world m)) (fs (mc_world m'))"
  using download_reported_is_faithful [OF hf_main_client_succeeds [OF assms(1-4)] _ _ assms(7,8,9,10,11)] assms(5,6) by simp

text \<open>
C7: A message the program reports as delivered is the current message of the server: if the command exits with code 0, the server has stored
the message, trimmed, and advanced the version by one.
\<close>
theorem hf_message_is_stored:
  assumes "hf_main env argv m = (Some 0, m')" "parse_args argv = Inr opt" "opt_mode opt = client_mode" "0 \<notin> set (me_signals env)"
    and "opt_msg_type opt = HF_MSG_TYPE_TEXT_MESSAGE" "opt_message opt = Some message" "cstring message"
    and "server_connection_thread_main http sopt sw = sw'"
    and "end_ok (mc_world m)" "end_ok sw" "carried (mc_world m) (mc_world m') sw sw'"
  shows "store sw' = (store sw)\<lparr>ms_message := Some (ms_trimmed message), ms_version := ms_version (store sw) + 1\<rparr>"
  using message_reported_is_stored [OF hf_main_client_succeeds [OF assms(1-4)] _ _ assms(7,8,9,10,11)] assms(5,6) by simp


section \<open>Success on a working connection\<close>

text \<open>
C4: An upload over a working connection completes. When no call fails for good on either side, the path names a regular file of at most
100 GB, its base name is acceptable, and the destination and the temporary name are free for use, then the command exits with code 0 and the
file is in place on the server. Both runs end, and neither waits for something the other one does not send.
\<close>
theorem hf_upload_completes:
  assumes "hf_main env argv m = (r, m')" "me_sigaction env = (True, True)" "me_signals env = []"
    and "parse_args argv = Inr opt" "opt_mode opt = client_mode"
    and "opt_msg_type opt = HF_MSG_TYPE_SEND_FILE" "opt_path opt = Some path" "cstring path" "client_connect (me_connect env) (opt_ip opt)"
    and "server_connection_thread_main http sopt sw = sw'" "peek_ready (sk sw)"
    and "end_calm (mc_world m)" "end_calm sw" "joined (mc_world m) (mc_world m') sw sw'"
    and "nodes (fs (mc_world m)) (canon path) = Some (FileN c k)" "of_nat (length c) \<le> HF_MAX_FILE_SIZE"
    and "fs_validate_file_name (fs_basename_from_path path)" "length (fs_basename_from_path path) \<le> 255"
    and "upload_ready (so_path sopt) (fs_basename_from_path path) sw"
  shows "r = Some 0 \<and>
    (\<exists>full. fs_join_relative_path 4096 (so_path sopt) (Some (fs_basename_from_path path)) = Some full \<and>
       delivered full c (fs sw) (fs sw'))"
proof -
  from assms(1-5) obtain rc where "client (me_connect env) (init_client_opt opt) (mc_world m) = (rc, mc_world m')" "r = Some rc"
    by (rule hf_main_client_runs)
  with upload_session_completes [OF this(1) _ _ assms(8) _ assms(10-19)] assms(6,7,9) show ?thesis by simp
qed

text \<open>
C5: A download over a working connection completes: when the server has the file and the client can use its output path and its
temporary names, the command exits with code 0 and the client has the content.
\<close>
theorem hf_download_completes:
  assumes "hf_main env argv m = (r, m')" "me_sigaction env = (True, True)" "me_signals env = []"
    and "parse_args argv = Inr opt" "opt_mode opt = client_mode"
    and "opt_msg_type opt = HF_MSG_TYPE_GET_FILE" "opt_remote_path opt = Some remote" "cstring remote"
    and "client_connect (me_connect env) (opt_ip opt)" "fs_validate_file_name remote" "length remote \<le> 255"
    and "server_connection_thread_main http sopt sw = sw'" "peek_ready (sk sw)"
    and "end_calm (mc_world m)" "end_calm sw" "joined (mc_world m) (mc_world m') sw sw'"
    and "fs_join_relative_path 4096 (so_path sopt) (Some remote) = Some full"
    and "nodes (fs sw) (canon full) = Some (FileN c k)" "of_nat (length c) \<le> HF_MAX_FILE_SIZE"
    and "dest = (case opt_output_path opt of Some out \<Rightarrow> out | None \<Rightarrow> remote)"
    and "temp_names_free dest (pid (mc_world m)) (fs (mc_world m))" "\<forall>k. nodes (fs (mc_world m)) (canon dest) \<noteq> Some (DirN k)"
  shows "r = Some 0 \<and> delivered dest c (fs (mc_world m)) (fs (mc_world m'))"
proof -
  from assms(1-5) obtain rc where "client (me_connect env) (init_client_opt opt) (mc_world m) = (rc, mc_world m')" "r = Some rc"
    by (rule hf_main_client_runs)
  with download_session_completes [OF this(1) _ _ assms(8) _ assms(10-19) _ assms(21,22)] assms(6,7,9,20) show ?thesis by simp
qed

text \<open>
C6: A message over a working connection is delivered: the command exits with code 0 and the store of the server holds the trimmed
message with the next version.
\<close>
theorem hf_message_completes:
  assumes "hf_main env argv m = (r, m')" "me_sigaction env = (True, True)" "me_signals env = []"
    and "parse_args argv = Inr opt" "opt_mode opt = client_mode"
    and "opt_msg_type opt = HF_MSG_TYPE_TEXT_MESSAGE" "opt_message opt = Some message" "cstring message"
    and "client_connect (me_connect env) (opt_ip opt)" "length message \<le> HF_PROTOCOL_MAX_TEXT_MESSAGE_SIZE"
    and "server_connection_thread_main http sopt sw = sw'" "peek_ready (sk sw)" "ms_initialized (store sw)"
    and "end_calm (mc_world m)" "end_calm sw" "joined (mc_world m) (mc_world m') sw sw'"
  shows "r = Some 0 \<and> store sw' =
    (store sw)\<lparr>ms_message := Some (ms_trimmed message), ms_version := ms_version (store sw) + 1\<rparr>"
proof -
  from assms(1-5) obtain rc where "client (me_connect env) (init_client_opt opt) (mc_world m) = (rc, mc_world m')" "r = Some rc"
    by (rule hf_main_client_runs)
  with message_session_completes [OF this(1) _ _ assms(8) _ assms(10-16)] assms(6,7,9) show ?thesis by simp
qed

section \<open>Runs on concrete machines\<close>

text \<open>The command lines of the witnesses: a file is sent, a file is fetched, a message is sent.\<close>

definition peer :: opt where "peer = opt_zero\<lparr>opt_mode := client_mode, opt_ip := ''10.0.0.7''\<rparr>"
definition put_opt :: opt where "put_opt = peer\<lparr>opt_path := Some ''/home/b'', opt_msg_type := HF_MSG_TYPE_SEND_FILE\<rparr>"
definition get_opt :: opt where
  "get_opt = peer\<lparr>opt_remote_path := Some ''a'', opt_output_path := Some ''/home/c'', opt_msg_type := HF_MSG_TYPE_GET_FILE\<rparr>"
definition msg_opt :: opt where "msg_opt = peer\<lparr>opt_message := Some ''hello '', opt_msg_type := HF_MSG_TYPE_TEXT_MESSAGE\<rparr>"

lemma demo_lines:
  "parse_args [''hf'', ''-c'', ''/home/b'', ''-i'', ''10.0.0.7''] = Inr put_opt"
  "parse_args [''hf'', ''-g'', ''a'', ''-o'', ''/home/c'', ''-i'', ''10.0.0.7''] = Inr get_opt"
  "parse_args [''hf'', ''-m'', ''hello '', ''-i'', ''10.0.0.7''] = Inr msg_opt"
  by (simp_all add: flag_simps protocol_consts peer_def put_opt_def get_opt_def msg_opt_def)

lemma demo_opts [simp]:
  "opt_mode put_opt = client_mode" "opt_msg_type put_opt = HF_MSG_TYPE_SEND_FILE" "opt_path put_opt = Some ''/home/b''"
  "opt_mode get_opt = client_mode" "opt_msg_type get_opt = HF_MSG_TYPE_GET_FILE" "opt_remote_path get_opt = Some ''a''"
  "opt_output_path get_opt = Some ''/home/c''"
  "opt_mode msg_opt = client_mode" "opt_msg_type msg_opt = HF_MSG_TYPE_TEXT_MESSAGE" "opt_message msg_opt = Some ''hello ''"
  "opt_ip put_opt = ''10.0.0.7''" "opt_ip get_opt = ''10.0.0.7''" "opt_ip msg_opt = ''10.0.0.7''"
  by (simp_all add: put_opt_def get_opt_def msg_opt_def peer_def)

lemma demo_names [simp]:
  "cstring ''/home/b''" "cstring ''a''" "cstring ''hello ''" "fs_basename_from_path ''/home/b'' = ''b''"
  "fs_validate_file_name ''a''" "fs_validate_file_name ''b''" "client_connect Connected ''10.0.0.7''"
  "length ''hello '' \<le> HF_PROTOCOL_MAX_TEXT_MESSAGE_SIZE" "(of_nat (length [1, 2, 3, 4, 5 :: byte]) :: u64) \<le> HF_MAX_FILE_SIZE"
  "(of_nat (length [7, 8, 9 :: byte]) :: u64) \<le> HF_MAX_FILE_SIZE" "fs_join_relative_path 4096 (so_path demo_opt) (Some ''a'') = Some ''/srv/a''"
proof -
  show "length ''hello '' \<le> HF_PROTOCOL_MAX_TEXT_MESSAGE_SIZE" by (simp add: HF_PROTOCOL_MAX_TEXT_MESSAGE_SIZE_def)
qed (simp add: cstring_def | code_simp)+

definition demo_main_env :: main_env where
  "demo_main_env = \<lparr>me_sigaction = (True, True), me_connect = Connected, me_signals = [], me_process = demo_process_env,
     me_daemon = \<lparr>dc_pipe = Some 3, dc_fork = ForkFails, dc_setsid = True, dc_dup = True\<rparr>, me_work = id\<rparr>"

definition demo_machine :: "byte list \<Rightarrow> machine" where
  "demo_machine rx = \<lparr>mc_world = home_world rx, mc_procs = answering 0, mc_process = demo_process\<rparr>"

lemma demo_machine_simps [simp]:
  "mc_world (demo_machine rx) = home_world rx" "me_sigaction demo_main_env = (True, True)" "me_signals demo_main_env = []"
  "me_connect demo_main_env = Connected"
  by (simp_all add: demo_machine_def demo_main_env_def)

lemma demo_command:
  assumes "hf_main demo_main_env argv (demo_machine rx) = (r, m')" "parse_args argv = Inr opt" "opt_mode opt = client_mode"
  obtains rc where "client Connected (init_client_opt opt) (home_world rx) = (rc, mc_world m')" "r = Some rc"
  using assms(1) _ _ assms(2,3) by (rule hf_main_client_runs) (use that in simp_all)

lemma demo_ends:
  "end_calm (home_world rx)" "end_calm (demo_world rx)" "end_ok (home_world rx)" "end_ok (demo_world rx)" "peek_ready (sk (demo_world rx))"
  by (simp_all add: end_calm_def end_ok_def home_world_ok demo_world_ok peek_ready_def) (simp add: demo_world_def)

lemma demo_ready: "upload_ready (so_path demo_opt) ''b'' (demo_world rx)"
  by (simp add: upload_ready_def demo_world_ok) code_simp

lemma demo_files:
  "nodes (fs (home_world rx)) (canon ''/home/b'') = Some (FileN [1, 2, 3, 4, 5] 2)"
  "nodes (fs (demo_world rx)) (canon ''/srv/a'') = Some (FileN [7, 8, 9] 3)"
proof -
  have "canon ''/home/b'' = [''/'', ''home'', ''b'']" "canon ''/srv/a'' = [''/'', ''srv'', ''a'']" by code_simp+
  then show "nodes (fs (home_world rx)) (canon ''/home/b'') = Some (FileN [1, 2, 3, 4, 5] 2)"
    "nodes (fs (demo_world rx)) (canon ''/srv/a'') = Some (FileN [7, 8, 9] 3)"
    by (simp_all add: home_world_def home_fs_def demo_world_def demo_fs_def)
qed

lemma home_target:
  "temp_names_free ''/home/c'' (pid (home_world rx)) (fs (home_world rx))"
  "nodes (fs (home_world rx)) (canon ''/home/c'') \<noteq> Some (DirN k)"
proof -
  have t: "fs_build_temp_path 4096 ''/home/c'' 77 0 = Some ''/home/c.tmp.77.0''"
    "fs_build_temp_path 4096 ''/home/c'' 77 1 = Some ''/home/c.tmp.77.1''"
    "fs_build_temp_path 4096 ''/home/c'' 77 2 = Some ''/home/c.tmp.77.2''" by code_simp+
  have c: "canon ''/home/c.tmp.77.0'' \<noteq> [''/'', ''home'', ''b'']" "canon ''/home/c.tmp.77.1'' \<noteq> [''/'', ''home'', ''b'']"
    "canon ''/home/c.tmp.77.2'' \<noteq> [''/'', ''home'', ''b'']" "canon ''/home/c'' \<noteq> [''/'', ''home'', ''b'']" by code_simp+
  have "a < 3 \<Longrightarrow> a = 0 \<or> a = 1 \<or> a = 2" for a :: nat by auto
  with t c show "temp_names_free ''/home/c'' (pid (home_world rx)) (fs (home_world rx))"
    unfolding temp_names_free_def by (fastforce simp: home_world_def home_fs_def)
  show "nodes (fs (home_world rx)) (canon ''/home/c'') \<noteq> Some (DirN k)"
    using c(4) by (simp add: home_world_def home_fs_def)
qed

text \<open>What goes over the wire in the three runs.\<close>

definition put_bytes :: "byte list" where
  "put_bytes = encode_header (send_file_header ''b'' [1, 2, 3, 4, 5]) @ send_file_prefix ''b'' [1, 2, 3, 4, 5] @ [1, 2, 3, 4, 5]"

definition put_answer :: "byte list" where
  "put_answer = ok_frame_bytes PROTO_PHASE_READY @ ok_frame_bytes PROTO_PHASE_FINAL"

definition msg_bytes :: "byte list" where
  "msg_bytes = encode_header (text_header ''hello '') @ bytes_of_string ''hello ''"

lemma demo_server_side:
  assumes "rx = encode_header h @ payload" "header_valid h" "server_connection_thread_main http demo_opt (demo_world rx) = sw'"
  obtains w1 rc where "rx_step (demo_world rx) w1" "rx_data (sk w1) = rx" "rx_calm w1" "tx_quiet (sk w1)" "0 \<le> sock_fd (sk w1)"
    "fs_ok (fs w1)" "fs_sizes_ok (fs w1)" "tx_data (sk w1) = []" "handle_protocol_connection demo_opt w1 = (rc, sw')"
proof -
  from thread_calm [OF assms(3) _ assms(2) demo_ends(5,2), of payload] assms(1) demo_world_ok(9) obtain w1 rc where w1:
    "rx_step (demo_world rx) w1" "rx_data (sk w1) = rx" "end_calm w1" "handle_protocol_connection demo_opt w1 = (rc, sw')" by metis
  from end_calm_D [OF w1(3)] end_ok_D rx_step_D [OF w1(1)] demo_world_ok(1,2,4,10) that [OF w1(1,2) _ _ _ _ _ _ w1(4)] show thesis by simp
qed

lemma demo_upload:
  assumes "client Connected (init_client_opt put_opt) (home_world put_answer) = (crc, cw')"
    and s: "server_connection_thread_main http demo_opt (demo_world put_bytes) = sw'"
  shows "joined (home_world put_answer) cw' (demo_world put_bytes) sw'" and "crc = 0"
proof -
  let ?c = "[1, 2, 3, 4, 5] :: byte list" and ?o = "init_client_opt put_opt"
  have run: "client_send_file_raw Connected ?o (home_world put_answer) = (crc, cw')" using assms(1) by (simp add: client_kind_simps)
  have o: "co_path ?o = Some ''/home/b''" "client_connect Connected (co_ip ?o)" "co_msg_type ?o = HF_MSG_TYPE_SEND_FILE" by simp_all
  have b: "0 < length (fs_basename_from_path ''/home/b'')" "length (fs_basename_from_path ''/home/b'') \<le> 255" by simp_all
  have "tx_data (sk cw') = put_bytes"
    using client_send_file_raw_sends [OF run o(1) home_world_ok(1,2,4) demo_files(1) demo_names(9) home_world_ok(5,6) b o(2)]
    unfolding o(3) send_file_header_of demo_names(4) home_world_ok put_bytes_def by (simp add: put_answer_def)
  moreover from put_bytes_def send_file_header_valid s have "tx_data (sk sw') = put_answer"
  proof (rule demo_server_side)
    fix w1 rc assume w1: "rx_step (demo_world put_bytes) w1" "rx_data (sk w1) = put_bytes" "rx_calm w1" "tx_quiet (sk w1)"
      "tx_data (sk w1) = []" "handle_protocol_connection demo_opt w1 = (rc, sw')"
    have "upload_ready (so_path demo_opt) ''b'' w1" using demo_ready rx_step_fs_ready [OF w1(1)] by simp
    from handle_connection_upload(3) [OF w1(6), of "''b''" ?c] this w1 show ?thesis
      by (simp add: put_bytes_def put_answer_def cstring_def)
  qed
  ultimately show "joined (home_world put_answer) cw' (demo_world put_bytes) sw'"
    by (simp add: joined_def demo_world_ok home_world_ok)
  have "rx_data (sk (home_world put_answer)) = ok_frame_bytes PROTO_PHASE_READY @ ok_frame_bytes PROTO_PHASE_FINAL @ []"
    by (simp add: home_world_ok put_answer_def)
  from client_send_file_raw_effect(3) [OF run o(1) home_world_ok(1,2,4) demo_files(1) home_world_ok(5,6) b demo_names(9) o(2) this]
  show "crc = 0" .
qed

lemma demo_message:
  assumes "client Connected (init_client_opt msg_opt) (home_world (ok_frame_bytes PROTO_PHASE_FINAL)) = (crc, cw')"
    and s: "server_connection_thread_main http demo_opt (demo_world msg_bytes) = sw'"
  shows "joined (home_world (ok_frame_bytes PROTO_PHASE_FINAL)) cw' (demo_world msg_bytes) sw'" and "crc = 0"
proof -
  let ?o = "init_client_opt msg_opt"
  have run: "client_send_message Connected ?o (home_world (ok_frame_bytes PROTO_PHASE_FINAL)) = (crc, cw')"
    using assms(1) by (simp add: client_kind_simps)
  have o: "co_message ?o = Some ''hello ''" "client_connect Connected (co_ip ?o)" by simp_all
  have "tx_data (sk cw') = msg_bytes"
    using client_send_message_request [OF run o(1) home_world_ok(4,6) o(2) demo_names(8)] home_world_ok(8) by (simp add: msg_bytes_def)
  moreover from msg_bytes_def request_header_valid(2) s have "tx_data (sk sw') = ok_frame_bytes PROTO_PHASE_FINAL"
  proof (rule demo_server_side)
    fix w1 rc assume w1: "rx_step (demo_world msg_bytes) w1" "rx_data (sk w1) = msg_bytes" "rx_calm w1" "tx_quiet (sk w1)"
      "0 \<le> sock_fd (sk w1)" "tx_data (sk w1) = []" "handle_protocol_connection demo_opt w1 = (rc, sw')"
    have "ms_initialized (store w1)" using rx_step_D(6) [OF w1(1)] demo_world_ok(8) by simp
    with handle_connection_text(3) [OF w1(7) w1(2) [unfolded msg_bytes_def] demo_names(3,8) w1(3,4) _ w1(5)] w1(6) show ?thesis by simp
  qed
  ultimately show "joined (home_world (ok_frame_bytes PROTO_PHASE_FINAL)) cw' (demo_world msg_bytes) sw'"
    by (simp add: joined_def home_world_ok demo_world_ok)
  have "rx_quiet (sk (home_world rx))" for rx using home_world_ok(5) by (simp add: rx_calm_def)
  then show "crc = 0"
    using client_send_message_effect(3) [OF run o(1) home_world_ok(4) o(2) demo_names(8) _ home_world_ok(6), of "[]"]
    by (simp add: home_world_ok)
qed

lemma demo_download:
  assumes "client Connected (init_client_opt get_opt) (home_world (download_bytes ''a'' [7, 8, 9])) = (crc, cw')"
    and s: "server_connection_thread_main http demo_opt (demo_world (get_request ''a'')) = sw'"
  shows "joined (home_world (download_bytes ''a'' [7, 8, 9])) cw' (demo_world (get_request ''a'')) sw'" and "crc = 0"
proof -
  let ?o = "init_client_opt get_opt"
  have run: "client_get_file Connected ?o (home_world (download_bytes ''a'' [7, 8, 9])) = (crc, cw')"
    using assms(1) by (simp add: client_kind_simps)
  have o: "co_remote_path ?o = Some ''a''" "client_connect Connected (co_ip ?o)" "length ''a'' \<le> 255" by simp_all
  have "tx_data (sk cw') = get_request ''a''"
    using client_get_file_request [OF run o(1) home_world_ok(1,3,4,6) demo_names(5) o(3,2)] home_world_ok(8) by simp
  moreover have "get_request ''a'' = encode_header (get_file_header ''a'') @ htons_bytes (of_nat (length ''a'')) @ bytes_of_string ''a''"
    by (simp add: get_request_def)
  from this request_header_valid(1) s have "tx_data (sk sw') = download_bytes ''a'' [7, 8, 9]"
  proof (rule demo_server_side)
    fix w1 rc assume w1: "rx_step (demo_world (get_request ''a'')) w1" "rx_data (sk w1) = get_request ''a''" "rx_calm w1" "tx_quiet (sk w1)"
      "0 \<le> sock_fd (sk w1)" "fs_ok (fs w1)" "fs_sizes_ok (fs w1)" "tx_data (sk w1) = []" "handle_protocol_connection demo_opt w1 = (rc, sw')"
    have "nodes (fs w1) (canon ''/srv/a'') = Some (FileN [7, 8, 9] 3)" using rx_step_D(1) [OF w1(1)] demo_files(2) by simp
    from handle_connection_download(2) [OF w1(9) w1(2) [unfolded get_request_def] demo_names(5,2) o(3) w1(3,4,6,7,5) demo_names(11) this] w1(8)
    show ?thesis by simp
  qed
  ultimately show "joined (home_world (download_bytes ''a'' [7, 8, 9])) cw' (demo_world (get_request ''a'')) sw'"
    by (simp add: joined_def home_world_ok demo_world_ok)
  have "crc = 0 \<and> rx_data (sk cw') = [] \<and> delivered ''/home/c'' [7, 8, 9] (fs (home_world (download_bytes ''a'' [7, 8, 9]))) (fs cw')"
    by (rule client_get_file_effect(3) [where raw = "bytes_of_string ''a''", OF run o(1) home_world_ok(1,3-6)
          demo_names(5) o(3,2) _ _ _ demo_names(10)])
      (use home_target in \<open>simp_all add: download_target_def home_world_ok download_bytes_def\<close>)
  then show "crc = 0" by simp
qed

section \<open>Witnesses\<close>

text \<open>The three commands end with code 0, so that the statements on reported success apply to them.\<close>

lemma demo_upload_run:
  assumes "hf_main demo_main_env [''hf'', ''-c'', ''/home/b'', ''-i'', ''10.0.0.7''] (demo_machine put_answer) = (r, m')"
    and "server_connection_thread_main http demo_opt (demo_world put_bytes) = sw'"
  shows "r = Some 0" "joined (mc_world (demo_machine put_answer)) (mc_world m') (demo_world put_bytes) sw'"
proof -
  from assms(1) demo_lines(1) demo_opts(1) obtain rc where
    c: "client Connected (init_client_opt put_opt) (home_world put_answer) = (rc, mc_world m')" "r = Some rc" by (rule demo_command)
  from demo_upload [OF c(1) assms(2)] c(2) show "r = Some 0"
    "joined (mc_world (demo_machine put_answer)) (mc_world m') (demo_world put_bytes) sw'" by simp_all
qed

lemma demo_download_run:
  assumes "hf_main demo_main_env [''hf'', ''-g'', ''a'', ''-o'', ''/home/c'', ''-i'', ''10.0.0.7'']
      (demo_machine (download_bytes ''a'' [7, 8, 9])) = (r, m')"
    and "server_connection_thread_main http demo_opt (demo_world (get_request ''a'')) = sw'"
  shows "r = Some 0" "joined (mc_world (demo_machine (download_bytes ''a'' [7, 8, 9]))) (mc_world m') (demo_world (get_request ''a'')) sw'"
proof -
  from assms(1) demo_lines(2) demo_opts(4) obtain rc where
    c: "client Connected (init_client_opt get_opt) (home_world (download_bytes ''a'' [7, 8, 9])) = (rc, mc_world m')" "r = Some rc"
    by (rule demo_command)
  from demo_download [OF c(1) assms(2)] c(2) show "r = Some 0"
    "joined (mc_world (demo_machine (download_bytes ''a'' [7, 8, 9]))) (mc_world m') (demo_world (get_request ''a'')) sw'" by simp_all
qed

lemma demo_message_run:
  assumes "hf_main demo_main_env [''hf'', ''-m'', ''hello '', ''-i'', ''10.0.0.7''] (demo_machine (ok_frame_bytes PROTO_PHASE_FINAL)) = (r, m')"
    and "server_connection_thread_main http demo_opt (demo_world msg_bytes) = sw'"
  shows "r = Some 0" "joined (mc_world (demo_machine (ok_frame_bytes PROTO_PHASE_FINAL))) (mc_world m') (demo_world msg_bytes) sw'"
proof -
  from assms(1) demo_lines(3) demo_opts(8) obtain rc where
    c: "client Connected (init_client_opt msg_opt) (home_world (ok_frame_bytes PROTO_PHASE_FINAL)) = (rc, mc_world m')" "r = Some rc"
    by (rule demo_command)
  from demo_message [OF c(1) assms(2)] c(2) show "r = Some 0"
    "joined (mc_world (demo_machine (ok_frame_bytes PROTO_PHASE_FINAL))) (mc_world m') (demo_world msg_bytes) sw'" by simp_all
qed

lemma joined_carried: "joined cw cw' sw sw' \<Longrightarrow> carried cw cw' sw sw'"
  by (simp add: joined_def carried_def)

lemma demo_machine_ends: "end_ok (mc_world (demo_machine rx))" "end_calm (mc_world (demo_machine rx))" "0 \<notin> set (me_signals demo_main_env)"
  by (simp_all add: demo_ends)

abbreviation demo_thread :: "byte list \<Rightarrow> world" where
  "demo_thread rx \<equiv> server_connection_thread_main (\<lambda>opt w. w) demo_opt (demo_world rx)"

theorem hf_upload_is_stored_witness:
  "\<exists>c full. file_at home_fs ''/home/b'' c \<and> fs_join_relative_path 4096 ''/srv'' (Some ''b'') = Some full \<and>
     delivered full c demo_fs (fs (demo_thread put_bytes))"
proof -
  obtain r m' where h: "hf_main demo_main_env [''hf'', ''-c'', ''/home/b'', ''-i'', ''10.0.0.7''] (demo_machine put_answer) = (r, m')" by fastforce
  note d = demo_upload_run [OF h refl]
  have "fs (demo_world rx) = demo_fs" "so_path demo_opt = ''/srv''" "fs (home_world rx) = home_fs" for rx
    by (simp_all add: demo_world_def demo_opt_def home_world_def)
  with hf_upload_is_stored [OF h [unfolded d(1)] demo_lines(1) demo_opts(1) demo_machine_ends(3) demo_opts(2,3) demo_names(1) refl
      demo_machine_ends(1) demo_ends(4) joined_carried [OF d(2)]]
  show ?thesis by simp
qed

theorem hf_download_is_faithful_witness:
  "\<exists>c k full. fs_join_relative_path 4096 ''/srv'' (Some ''a'') = Some full \<and> nodes demo_fs (canon full) = Some (FileN c k) \<and>
     delivered ''/home/c'' c home_fs (fs (mc_world (snd (hf_main demo_main_env
       [''hf'', ''-g'', ''a'', ''-o'', ''/home/c'', ''-i'', ''10.0.0.7''] (demo_machine (download_bytes ''a'' [7, 8, 9]))))))"
proof -
  obtain r m' where h: "hf_main demo_main_env [''hf'', ''-g'', ''a'', ''-o'', ''/home/c'', ''-i'', ''10.0.0.7'']
      (demo_machine (download_bytes ''a'' [7, 8, 9])) = (r, m')" by fastforce
  note d = demo_download_run [OF h refl]
  have "fs (demo_world rx) = demo_fs" "so_path demo_opt = ''/srv''" "fs (home_world rx) = home_fs" for rx
    by (simp_all add: demo_world_def demo_opt_def home_world_def)
  with hf_download_is_faithful [OF h [unfolded d(1)] demo_lines(2) demo_opts(4) demo_machine_ends(3) demo_opts(5,6) demo_names(2) refl
      demo_machine_ends(1) demo_ends(4) joined_carried [OF d(2)]] h
  show ?thesis by simp
qed

theorem hf_message_is_stored_witness: "ms_message (store (demo_thread msg_bytes)) = Some ''hello''"
proof -
  obtain r m' where h: "hf_main demo_main_env [''hf'', ''-m'', ''hello '', ''-i'', ''10.0.0.7'']
      (demo_machine (ok_frame_bytes PROTO_PHASE_FINAL)) = (r, m')" by fastforce
  note d = demo_message_run [OF h refl]
  have "ms_trimmed ''hello '' = ''hello''" by code_simp
  with hf_message_is_stored [OF h [unfolded d(1)] demo_lines(3) demo_opts(8) demo_machine_ends(3) demo_opts(9,10) demo_names(3) refl
      demo_machine_ends(1) demo_ends(4) joined_carried [OF d(2)]]
  show ?thesis by simp
qed

theorem hf_upload_completes_witness:
  "fst (hf_main demo_main_env [''hf'', ''-c'', ''/home/b'', ''-i'', ''10.0.0.7''] (demo_machine put_answer)) = Some 0 \<and>
   (\<exists>full. fs_join_relative_path 4096 ''/srv'' (Some ''b'') = Some full \<and>
      delivered full [1, 2, 3, 4, 5] demo_fs (fs (demo_thread put_bytes)))"
proof -
  obtain r m' where h: "hf_main demo_main_env [''hf'', ''-c'', ''/home/b'', ''-i'', ''10.0.0.7''] (demo_machine put_answer) = (r, m')" by fastforce
  have "fs (demo_world rx) = demo_fs" "so_path demo_opt = ''/srv''" for rx by (simp_all add: demo_world_def demo_opt_def)
  with hf_upload_completes [OF h _ _ demo_lines(1) demo_opts(1-3) demo_names(1) _ refl demo_ends(5) demo_machine_ends(2) demo_ends(2)
      demo_upload_run(2) [OF h refl] _ demo_names(9)] demo_files(1) demo_ready h
  show ?thesis by simp
qed

theorem hf_download_completes_witness:
  "fst (hf_main demo_main_env [''hf'', ''-g'', ''a'', ''-o'', ''/home/c'', ''-i'', ''10.0.0.7''] (demo_machine (download_bytes ''a'' [7, 8, 9]))) = Some 0 \<and>
   delivered ''/home/c'' [7, 8, 9] home_fs (fs (mc_world (snd (hf_main demo_main_env
     [''hf'', ''-g'', ''a'', ''-o'', ''/home/c'', ''-i'', ''10.0.0.7''] (demo_machine (download_bytes ''a'' [7, 8, 9]))))))"
proof -
  obtain r m' where h: "hf_main demo_main_env [''hf'', ''-g'', ''a'', ''-o'', ''/home/c'', ''-i'', ''10.0.0.7'']
      (demo_machine (download_bytes ''a'' [7, 8, 9])) = (r, m')" by fastforce
  have "fs (home_world rx) = home_fs" for rx by (simp add: home_world_def)
  with hf_download_completes [OF h _ _ demo_lines(2) demo_opts(4-6) demo_names(2) _ demo_names(5) _ refl demo_ends(5) demo_machine_ends(2)
      demo_ends(2) demo_download_run(2) [OF h refl] demo_names(11) demo_files(2) demo_names(10) refl] home_target h
  show ?thesis by simp
qed

theorem hf_message_completes_witness:
  "fst (hf_main demo_main_env [''hf'', ''-m'', ''hello '', ''-i'', ''10.0.0.7''] (demo_machine (ok_frame_bytes PROTO_PHASE_FINAL))) = Some 0 \<and>
   ms_message (store (demo_thread msg_bytes)) = Some ''hello'' \<and> ms_version (store (demo_thread msg_bytes)) = 1"
proof -
  obtain r m' where h: "hf_main demo_main_env [''hf'', ''-m'', ''hello '', ''-i'', ''10.0.0.7'']
      (demo_machine (ok_frame_bytes PROTO_PHASE_FINAL)) = (r, m')" by fastforce
  have "ms_trimmed ''hello '' = ''hello''" by code_simp
  moreover have "ms_version (store (demo_world rx)) = 0" for rx by (simp add: demo_world_def)
  ultimately show ?thesis
    using hf_message_completes [OF h _ _ demo_lines(3) demo_opts(8-10) demo_names(3) _ demo_names(8) refl demo_ends(5) demo_world_ok(8)
        demo_machine_ends(2) demo_ends(2) demo_message_run(2) [OF h refl]] h by simp
qed

end
