(* ===== verification/Fs_Tree.thy ===== *)
theory Fs_Tree
  imports Fs
begin

text \<open>
  The operations of \<^verbatim>\<open>src/fs.c\<close> that the program does not call (yet): rewinding a file, and the removal of a directory with everything below it. A first pass refuses a tree that holds
  anything but files and directories, a second one removes it. Directories are read through \<^verbatim>\<open>readdir\<close>, which is the
  parameter \<open>rd\<close>: the names in a directory of a file system, in the order of the kernel.
\<close>

section \<open>Rewinding\<close>

definition posix_lseek_set :: "int \<Rightarrow> nat \<Rightarrow> fsys \<Rightarrow> (errno + nat) \<times> fsys" where
  "posix_lseek_set fd off f0 =
     (case fs_pop f0 of
        (FsFail e, f) \<Rightarrow> (Inl e, f)
      | (_, f) \<Rightarrow>
         (case fds f fd of
            None \<Rightarrow> (Inl EBADF, f)
          | Some o' \<Rightarrow> (Inr off, f\<lparr>fds := (fds f)(fd \<mapsto> o'\<lparr>of_pos := off\<rparr>)\<rparr>)))"

definition fs_seek_start :: "int \<Rightarrow> fsys \<Rightarrow> bool \<times> fsys" where
  "fs_seek_start fd f = (case posix_lseek_set fd 0 f of (r, f') \<Rightarrow> (\<not> isl r, f'))"

text \<open>After a rewind the file is read from its first byte again, wherever its position was.\<close>

lemma fs_seek_start_rewinds:
  assumes "fs_seek_start fd f = (ok, f')"
  shows "nodes f' = nodes f"
    and "ok \<Longrightarrow> fs_read fd n f' = (Inr bs, f'') \<Longrightarrow> \<exists>o' c m k. fds f fd = Some o' \<and> nodes f (of_path o') = Some (FileN c m) \<and> bs = take k c"
proof -
  obtain e g where pop: "fs_pop f = (e, g)" by fastforce
  then have g: "nodes g = nodes f" "fds g = fds f" by (auto elim!: fs_popE)
  show n: "nodes f' = nodes f"
    using assms pop g by (auto simp: fs_seek_start_def posix_lseek_set_def split: fs_event.splits option.splits)
  assume "ok" "fs_read fd n f' = (Inr bs, f'')"
  moreover from \<open>ok\<close> obtain o' where "fds f fd = Some o'" "fds f' fd = Some (o'\<lparr>of_pos := 0\<rparr>)"
    using assms pop g by (auto simp: fs_seek_start_def posix_lseek_set_def split: fs_event.splits option.splits)
  moreover obtain e1 g1 where pop1: "fs_pop f' = (e1, g1)" by fastforce
  moreover have "nodes g1 = nodes f'" "fds g1 = fds f'" using pop1 by (auto elim!: fs_popE)
  ultimately show "\<exists>o' c m k. fds f fd = Some o' \<and> nodes f (of_path o') = Some (FileN c m) \<and> bs = take k c"
    using n by (auto simp: fs_read_def posix_read_def Let_def split: fs_event.splits option.splits node.splits)
qed

section \<open>Directory streams\<close>

type_synonym reader = "fsys \<Rightarrow> path \<Rightarrow> string list"

text \<open>What is left of a stream is a list of names; no name of an entry is empty.\<close>

definition posix_readdir :: "string list \<Rightarrow> fsys \<Rightarrow> (errno + (string \<times> string list) option) \<times> fsys" where
  "posix_readdir names f0 =
     (case fs_pop f0 of
        (FsFail e, f) \<Rightarrow> (Inl e, f)
      | (_, f) \<Rightarrow> (Inr (case dropWhile (\<lambda>nm. nm = []) names of [] \<Rightarrow> None | nm # nms \<Rightarrow> Some (nm, nms)), f))"

definition posix_closedir :: "fsys \<Rightarrow> (errno + unit) \<times> fsys" where
  "posix_closedir f0 = (case fs_pop f0 of (FsFail e, f) \<Rightarrow> (Inl e, f) | (_, f) \<Rightarrow> (Inr (), f))"

definition dot_name :: "string \<Rightarrow> bool" where
  "dot_name nm \<longleftrightarrow> nm = ''.'' \<or> nm = ''..''"

definition posix_rmdir :: "reader \<Rightarrow> string \<Rightarrow> fsys \<Rightarrow> (errno + unit) \<times> fsys" where
  "posix_rmdir rd path f0 =
     (case fs_pop f0 of
        (FsFail e, f) \<Rightarrow> (Inl e, f)
      | (_, f) \<Rightarrow>
         (case nodes f (canon path) of
            None \<Rightarrow> (Inl ENOENT, f)
          | Some n \<Rightarrow>
              if \<not> is_dir n then (Inl ENOTDIR, f)
              else if filter (\<lambda>nm. \<not> dot_name nm) (rd f (canon path)) \<noteq> [] then (Inl ENOTEMPTY, f)
              else (Inr (), f\<lparr>nodes := (nodes f)(canon path := None)\<rparr>)))"

lemma posix_readdir_next:
  assumes "posix_readdir names f = (Inr (Some (nm, nms)), f')"
  shows "length nms < length names" "nm \<noteq> []" "nm \<in> set names" "set nms \<subseteq> set names"
proof -
  from assms have d: "dropWhile (\<lambda>nm. nm = []) names = nm # nms"
    by (auto simp: posix_readdir_def split: prod.splits fs_event.splits list.splits)
  from arg_cong [OF d, of length] length_dropWhile_le [of "\<lambda>nm. nm = []" names] show "length nms < length names" by simp
  show "nm \<noteq> []" using hd_dropWhile [of "\<lambda>nm. nm = []" names] d by simp
  show "nm \<in> set names" "set nms \<subseteq> set names" using set_dropWhileD [of _ "\<lambda>nm. nm = []" names] d by auto
qed

lemma fs_join_path_longer:
  assumes "fs_join_path 4096 path nm = Some child" "nm \<noteq> []"
  shows "length path < length child" "length child < 4096"
  using assms by (auto simp: fs_join_path_def snprintf_checked_def Let_def split: if_splits)

section \<open>The first pass\<close>

text \<open>Paths grow on the way down and are shorter than 4096; a stream gets shorter with every name.\<close>

abbreviation (input) tree_order :: "(reader \<times> string \<times> fsys + reader \<times> string \<times> string list \<times> fsys) rel" where
  "tree_order \<equiv> measures
     [case_sum (\<lambda>(rd, path, f). 4096 - length path) (\<lambda>(rd, path, names, f). 4096 - length path),
      case_sum (\<lambda>_. 1) (\<lambda>_. 0), case_sum (\<lambda>_. 0) (\<lambda>(rd, path, names, f). length names)]"

function fs_remove_tree_validate :: "reader \<Rightarrow> string \<Rightarrow> fsys \<Rightarrow> bool \<times> fsys"
  and remove_tree_validate_loop :: "reader \<Rightarrow> string \<Rightarrow> string list \<Rightarrow> fsys \<Rightarrow> bool \<times> fsys" where
  "fs_remove_tree_validate rd path f =
     (case fs_stat_path path f of
        (None, f1) \<Rightarrow> (False, f1)
      | (Some info, f1) \<Rightarrow>
          if info_kind info = FS_PATH_KIND_FILE then (True, f1)
          else if info_kind info \<noteq> FS_PATH_KIND_DIR then (False, f1)
          else case posix_opendir path f1 of
            (Inl e, f2) \<Rightarrow> (False, f2)
          | (Inr d, f2) \<Rightarrow> remove_tree_validate_loop rd path (rd f2 d) f2)"
| "remove_tree_validate_loop rd path names f =
     (case posix_readdir names f of
        (Inl e, f1) \<Rightarrow> (False, snd (posix_closedir f1))
      | (Inr None, f1) \<Rightarrow> (True, snd (posix_closedir f1))
      | (Inr (Some (nm, nms)), f1) \<Rightarrow>
          if nm = ''.'' \<or> nm = ''..'' then remove_tree_validate_loop rd path nms f1
          else case fs_join_path 4096 path nm of
            None \<Rightarrow> (False, snd (posix_closedir f1))
          | Some child_path \<Rightarrow>
             (case fs_remove_tree_validate rd child_path f1 of
                (False, f2) \<Rightarrow> (False, snd (posix_closedir f2))
              | (True, f2) \<Rightarrow> remove_tree_validate_loop rd path nms f2))"
  by pat_completeness auto

termination
proof (relation tree_order, goal_cases)
  case 1
  show ?case by simp
next
  case 2
  then show ?case by simp
next
  case (3 rd path names f)
  then show ?case by (auto dest!: posix_readdir_next(1) [OF sym])
next
  case (4 rd path names f r f1 o' x nm nms child)
  then show ?case
    using posix_readdir_next(2) [of names f nm nms f1] fs_join_path_longer [of path nm child] by auto
next
  case 5
  then show ?case by (auto dest!: posix_readdir_next(1) [OF sym])
qed

declare fs_remove_tree_validate.simps [simp del] remove_tree_validate_loop.simps [simp del]

section \<open>The second pass\<close>

function fs_remove_tree_impl :: "reader \<Rightarrow> string \<Rightarrow> fsys \<Rightarrow> bool \<times> fsys"
  and remove_tree_impl_loop :: "reader \<Rightarrow> string \<Rightarrow> string list \<Rightarrow> fsys \<Rightarrow> bool \<times> fsys" where
  "fs_remove_tree_impl rd path f =
     (case fs_stat_path path f of
        (None, f1) \<Rightarrow> (False, f1)
      | (Some info, f1) \<Rightarrow>
          if info_kind info = FS_PATH_KIND_FILE then (case posix_remove path f1 of (r, f2) \<Rightarrow> (r = Inr (), f2))
          else if info_kind info \<noteq> FS_PATH_KIND_DIR then (False, f1)
          else case posix_opendir path f1 of
            (Inl e, f2) \<Rightarrow> (False, f2)
          | (Inr d, f2) \<Rightarrow> remove_tree_impl_loop rd path (rd f2 d) f2)"
| "remove_tree_impl_loop rd path names f =
     (case posix_readdir names f of
        (Inl e, f1) \<Rightarrow> (False, snd (posix_closedir f1))
      | (Inr None, f1) \<Rightarrow>
         (case posix_closedir f1 of
            (Inl e, f2) \<Rightarrow> (False, f2)
          | (Inr _, f2) \<Rightarrow> (case posix_rmdir rd path f2 of (r, f3) \<Rightarrow> (r = Inr (), f3)))
      | (Inr (Some (nm, nms)), f1) \<Rightarrow>
          if nm = ''.'' \<or> nm = ''..'' then remove_tree_impl_loop rd path nms f1
          else case fs_join_path 4096 path nm of
            None \<Rightarrow> (False, snd (posix_closedir f1))
          | Some child_path \<Rightarrow>
             (case fs_remove_tree_impl rd child_path f1 of
                (False, f2) \<Rightarrow> (False, snd (posix_closedir f2))
              | (True, f2) \<Rightarrow> remove_tree_impl_loop rd path nms f2))"
  by pat_completeness auto

termination
proof (relation tree_order, goal_cases)
  case (4 rd path names f r f1 o' x nm nms child)
  then show ?case
    using posix_readdir_next(2) [of names f nm nms f1] fs_join_path_longer [of path nm child] by auto
qed (auto dest!: posix_readdir_next(1) [OF sym])

declare fs_remove_tree_impl.simps [simp del] remove_tree_impl_loop.simps [simp del]

definition fs_remove_tree :: "reader \<Rightarrow> string \<Rightarrow> fsys \<Rightarrow> bool \<times> fsys" where
  "fs_remove_tree rd path f =
     (if path = [] then (False, f)
      else case fs_remove_tree_validate rd path f of
        (False, f1) \<Rightarrow> (False, f1)
      | (True, f1) \<Rightarrow> fs_remove_tree_impl rd path f1)"

section \<open>What the kernel promises about directories\<close>

text \<open>
  \<open>lists_dir\<close>: \<^verbatim>\<open>readdir\<close> gives every entry of the directory once, and the two dots or not. \<open>tree_ok\<close>: below
  \<open>p\<close> only directories have entries, and names are single components.
\<close>

definition lists_dir :: "reader \<Rightarrow> fsys \<Rightarrow> path \<Rightarrow> bool" where
  "lists_dir rd f p \<longleftrightarrow> distinct (rd f p) \<and> {nm \<in> set (rd f p). \<not> dot_name nm} = {c. nodes f (p @ [c]) \<noteq> None}"

definition name_ok :: "string \<Rightarrow> bool" where
  "name_ok nm \<longleftrightarrow> normal_comp nm \<and> CHR ''/'' \<notin> set nm"

definition tree_ok :: "path \<Rightarrow> (path \<Rightarrow> node option) \<Rightarrow> bool" where
  "tree_ok p ns \<longleftrightarrow> (\<forall>q c. prefix p q \<and> ns (q @ [c]) \<noteq> None \<longrightarrow> name_ok c \<and> (\<exists>m. ns q = Some (DirN m)))"

definition without :: "path \<Rightarrow> (path \<Rightarrow> node option) \<Rightarrow> path \<Rightarrow> node option" where
  "without p ns = (\<lambda>q. if prefix p q then None else ns q)"

lemma without_idem [simp]: "without p (without (p @ [c]) ns) = without p ns"
  by (auto simp: without_def fun_eq_iff dest: append_prefixD)

lemma tree_ok_without: "tree_ok p ns \<Longrightarrow> tree_ok p (without r ns)"
  by (auto simp: tree_ok_def without_def split: if_splits)

lemma tree_ok_below: "tree_ok p ns \<Longrightarrow> tree_ok (p @ [c]) ns"
  by (auto simp: tree_ok_def dest: append_prefixD)

text \<open>A directory without entries has nothing below it.\<close>

lemma tree_ok_no_entries:
  assumes "tree_ok p ns" "\<forall>c. ns (p @ [c]) = None"
  shows "strict_prefix p q \<Longrightarrow> ns q = None"
proof (induction q rule: rev_induct)
  case (snoc c q)
  show ?case
  proof (cases "q = p")
    case False
    with snoc.prems have "strict_prefix p q" by (auto simp: strict_prefix_def)
    with snoc.IH assms(1) show ?thesis by (fastforce simp: tree_ok_def strict_prefix_def)
  qed (use assms(2) in simp)
qed simp

lemma join_child:
  assumes "fs_join_path 4096 path nm = Some child" "path \<noteq> []" "name_ok nm"
  shows "canon child = canon path @ [nm]" "child \<noteq> []"
proof -
  show "canon child = canon path @ [nm]"
    using fs_join_path_canon(1) [OF assms(1,2)] assms(3)
    by (simp add: name_ok_def split_on_none push_comp_def normal_comp_def)
  show "child \<noteq> []" using fs_join_path_longer [OF assms(1)] assms(3) by (auto simp: name_ok_def normal_comp_def)
qed


section \<open>Effects of the calls\<close>

lemma fs_untouched_quiet: "fs_untouched f f' \<Longrightarrow> fs_quiet f \<Longrightarrow> fs_quiet f'"
  by (auto simp: fs_untouched_def intro: fs_quiet_subset)

lemma fs_untouched_nodes: "fs_untouched f f' \<Longrightarrow> nodes f' = nodes f"
  by (simp add: fs_untouched_def)

lemma readdir_effect:
  assumes "posix_readdir names f = (r, f')" "[] \<notin> set names"
  obtains (fails) e where "r = Inl e" "fs_untouched f f'" "\<not> fs_quiet f"
  | (ends) "r = Inr None" "names = []" "fs_untouched f f'"
  | (gives) nm nms where "r = Inr (Some (nm, nms))" "names = nm # nms" "fs_untouched f f'"
proof -
  obtain e g where pop: "fs_pop f = (e, g)" by fastforce
  then have g: "fs_untouched f g" by (auto simp: fs_untouched_def elim!: fs_popE)
  have "dropWhile (\<lambda>nm. nm = []) names = names" using assms(2) by (cases names) auto
  with assms(1) pop g fs_quiet_no_fail [OF _ pop] show thesis
    by (cases e; cases names) (auto simp: posix_readdir_def intro: fails ends gives)
qed

lemma closedir_effect:
  assumes "posix_closedir f = (r, f')"
  shows "fs_untouched f f'" "fs_quiet f \<Longrightarrow> r = Inr ()"
proof -
  obtain e g where pop: "fs_pop f = (e, g)" by fastforce
  then have g: "fs_untouched f g" by (auto simp: fs_untouched_def elim!: fs_popE)
  show "fs_untouched f f'" "fs_quiet f \<Longrightarrow> r = Inr ()"
    using assms pop g fs_quiet_no_fail [OF _ pop] by (auto simp: posix_closedir_def split: fs_event.splits)
qed

lemma closedir_untouched [simp, intro]: "fs_untouched f f1 \<Longrightarrow> fs_untouched f (snd (posix_closedir f1))"
  using closedir_effect(1) [OF surjective_pairing] by (blast intro: fs_untouched_trans)

fun node_kind :: "node \<Rightarrow> fs_path_kind" where
  "node_kind (FileN c m) = FS_PATH_KIND_FILE"
| "node_kind (DirN m) = FS_PATH_KIND_DIR"
| "node_kind (SymlinkN t m) = FS_PATH_KIND_SYMLINK"
| "node_kind (OtherN m) = FS_PATH_KIND_OTHER"

lemma stat_effect:
  assumes "fs_stat_path path f = (r, f')"
  shows "fs_untouched f f'" "r = Some info \<Longrightarrow> \<exists>n. nodes f (canon path) = Some n \<and> info_kind info = node_kind n"
    and "fs_quiet f \<Longrightarrow> nodes f (canon path) \<noteq> None \<Longrightarrow> r \<noteq> None"
proof -
  obtain e g where pop: "fs_pop f = (e, g)" by fastforce
  then have g: "fs_untouched f g" by (auto simp: fs_untouched_def elim!: fs_popE)
  show "fs_untouched f f'" "r = Some info \<Longrightarrow> \<exists>n. nodes f (canon path) = Some n \<and> info_kind info = node_kind n"
    "fs_quiet f \<Longrightarrow> nodes f (canon path) \<noteq> None \<Longrightarrow> r \<noteq> None"
    using assms pop g fs_quiet_no_fail [OF _ pop]
    by (auto simp: fs_stat_path_def posix_lstat_def fs_untouched_def split: fs_event.splits option.splits node.splits)
qed

lemma opendir_dir:
  assumes "posix_opendir path f = (r, f')" "nodes f (canon path) = Some (DirN m)"
  shows "r = Inr d \<Longrightarrow> d = canon path" "fs_quiet f \<Longrightarrow> \<not> isl r"
proof -
  obtain e g where pop: "fs_pop f = (e, g)" by fastforce
  then have g: "nodes g = nodes f" by (auto elim!: fs_popE)
  show "r = Inr d \<Longrightarrow> d = canon path" "fs_quiet f \<Longrightarrow> \<not> isl r"
    using assms pop g fs_quiet_no_fail [OF _ pop] by (auto simp: posix_opendir_def split: fs_event.splits)
qed

lemma remove_effect:
  assumes "posix_remove path f = (r, f')"
  shows "fds f' = fds f" "set (fs_sched f') \<subseteq> set (fs_sched f)"
    and "r = Inr () \<Longrightarrow> nodes f' = (nodes f)(canon path := None)" "r \<noteq> Inr () \<Longrightarrow> nodes f' = nodes f"
    and "fs_quiet f \<Longrightarrow> nodes f (canon path) \<noteq> None \<Longrightarrow> r = Inr ()"
proof -
  obtain e g where pop: "fs_pop f = (e, g)" by fastforce
  then have g: "nodes g = nodes f" "fds g = fds f" "set (fs_sched g) \<subseteq> set (fs_sched f)" by (auto elim!: fs_popE)
  show "fds f' = fds f" "set (fs_sched f') \<subseteq> set (fs_sched f)"
    "r = Inr () \<Longrightarrow> nodes f' = (nodes f)(canon path := None)" "r \<noteq> Inr () \<Longrightarrow> nodes f' = nodes f"
    "fs_quiet f \<Longrightarrow> nodes f (canon path) \<noteq> None \<Longrightarrow> r = Inr ()"
    using assms pop g fs_quiet_no_fail [OF _ pop] by (auto simp: posix_remove_def split: fs_event.splits option.splits)
qed

lemma rmdir_effect:
  assumes "posix_rmdir rd path f = (r, f')" "\<forall>g. nodes g = nodes f \<longrightarrow> lists_dir rd g (canon path)"
  shows "fds f' = fds f" "set (fs_sched f') \<subseteq> set (fs_sched f)"
    and "r = Inr () \<Longrightarrow> nodes f' = (nodes f)(canon path := None) \<and> (\<forall>c. nodes f (canon path @ [c]) = None)"
    and "r \<noteq> Inr () \<Longrightarrow> nodes f' = nodes f"
    and "fs_quiet f \<Longrightarrow> nodes f (canon path) = Some (DirN m) \<Longrightarrow> \<forall>c. nodes f (canon path @ [c]) = None \<Longrightarrow> r = Inr ()"
proof -
  obtain e g where pop: "fs_pop f = (e, g)" by fastforce
  then have g: "nodes g = nodes f" "fds g = fds f" "set (fs_sched g) \<subseteq> set (fs_sched f)" by (auto elim!: fs_popE)
  have "{nm \<in> set (rd g (canon path)). \<not> dot_name nm} = {c. nodes f (canon path @ [c]) \<noteq> None}"
    using assms(2) g(1) by (simp add: lists_dir_def)
  then have l: "filter (\<lambda>nm. \<not> dot_name nm) (rd g (canon path)) = [] \<longleftrightarrow> (\<forall>c. nodes f (canon path @ [c]) = None)"
    unfolding filter_empty_conv by blast
  show "fds f' = fds f" "set (fs_sched f') \<subseteq> set (fs_sched f)"
    "r = Inr () \<Longrightarrow> nodes f' = (nodes f)(canon path := None) \<and> (\<forall>c. nodes f (canon path @ [c]) = None)"
    "r \<noteq> Inr () \<Longrightarrow> nodes f' = nodes f"
    "fs_quiet f \<Longrightarrow> nodes f (canon path) = Some (DirN m) \<Longrightarrow> \<forall>c. nodes f (canon path @ [c]) = None \<Longrightarrow> r = Inr ()"
    using assms(1) pop g fs_quiet_no_fail [OF _ pop] l
    by (auto simp: posix_rmdir_def split: fs_event.splits option.splits if_splits)
qed


section \<open>What the first pass finds\<close>

definition plain_below :: "path \<Rightarrow> (path \<Rightarrow> node option) \<Rightarrow> bool" where
  "plain_below p ns \<longleftrightarrow> (\<forall>q n. prefix p q \<and> ns q = Some n \<longrightarrow> is_file n \<or> is_dir n)"

text \<open>The paths of all entries below \<open>p\<close>, spelled from \<open>path\<close> on, fit into the buffers.\<close>

definition fits_below :: "string \<Rightarrow> path \<Rightarrow> (path \<Rightarrow> node option) \<Rightarrow> bool" where
  "fits_below path p ns \<longleftrightarrow>
     (\<forall>q. prefix p q \<and> ns q \<noteq> None \<longrightarrow> length path + sum_list (map (\<lambda>c. Suc (length c)) (drop (length p) q)) < 4096)"

lemma plain_below_child: "plain_below p ns \<Longrightarrow> plain_below (p @ [c]) ns"
  by (auto simp: plain_below_def dest: append_prefixD)

lemma fits_below_child:
  assumes "fits_below path p ns" "fs_join_path 4096 path nm = Some child"
  shows "fits_below child (p @ [nm]) ns"
proof -
  have "length child \<le> length path + Suc (length nm)"
    using assms(2) by (auto simp: fs_join_path_def snprintf_checked_def Let_def split: if_splits)
  moreover have "length path + (Suc (length nm) + sum_list (map (\<lambda>c. Suc (length c)) (drop (length (p @ [nm])) q))) < 4096"
    if "prefix (p @ [nm]) q" "ns q \<noteq> None" for q
  proof -
    from that(1) have "prefix p q" "drop (length p) q = nm # drop (length (p @ [nm])) q" by (auto simp: prefix_def)
    with assms(1) that(2) show ?thesis unfolding fits_below_def by fastforce
  qed
  ultimately show ?thesis unfolding fits_below_def by fastforce
qed

lemma fits_below_join:
  assumes "fits_below path p ns" "ns (p @ [nm]) \<noteq> None"
  shows "fs_join_path 4096 path nm \<noteq> None"
proof -
  from assms have "length path + sum_list (map (\<lambda>c. Suc (length c)) (drop (length p) (p @ [nm]))) < 4096"
    unfolding fits_below_def by (meson prefixI)
  then have "length path + Suc (length nm) < 4096" by simp
  then show ?thesis by (simp add: fs_join_path_def snprintf_checked_def Let_def)
qed

text \<open>Induction over the paths that the recursion goes through.\<close>

lemma path_induct [case_names below]:
  assumes "\<And>path. (\<And>child. length path < length child \<Longrightarrow> length child < 4096 \<Longrightarrow> P child) \<Longrightarrow> P path"
  shows "P path"
proof (induction path rule: measure_induct_rule [of "\<lambda>path. 4096 - length path"])
  case (less path)
  show ?case by (rule assms) (rule less, simp)
qed

text \<open>The laws of \<^verbatim>\<open>readdir\<close> for a file system with these entries or fewer.\<close>

definition reader_ok :: "reader \<Rightarrow> (path \<Rightarrow> node option) \<Rightarrow> bool" where
  "reader_ok rd ns \<longleftrightarrow> (\<forall>g p. nodes g \<subseteq>\<^sub>m ns \<longrightarrow> lists_dir rd g p)"

definition validated :: "reader \<Rightarrow> string \<Rightarrow> fsys \<Rightarrow> bool \<Rightarrow> fsys \<Rightarrow> bool" where
  "validated rd path f ok f' \<longleftrightarrow> fs_untouched f f' \<and> (ok \<longrightarrow> plain_below (canon path) (nodes f)) \<and>
     (fs_quiet f \<and> nodes f (canon path) \<noteq> None \<and> plain_below (canon path) (nodes f) \<and> fits_below path (canon path) (nodes f) \<longrightarrow> ok)"

text \<open>The loop, given what the recursive calls do.\<close>

definition loop_validated :: "path \<Rightarrow> string list \<Rightarrow> (path \<Rightarrow> node option) \<Rightarrow> string \<Rightarrow> fsys \<Rightarrow> bool \<Rightarrow> fsys \<Rightarrow> bool" where
  "loop_validated p names ns path f ok f' \<longleftrightarrow> fs_untouched f f' \<and>
     (ok \<longrightarrow> (\<forall>nm \<in> set names. \<not> dot_name nm \<longrightarrow> plain_below (p @ [nm]) ns)) \<and>
     (fs_quiet f \<and> (\<forall>nm \<in> set names. \<not> dot_name nm \<longrightarrow> ns (p @ [nm]) \<noteq> None) \<and> plain_below p ns \<and> fits_below path p ns \<longrightarrow> ok)"

lemma loop_validated_later:
  assumes "loop_validated p nms ns path g ok f'" "fs_untouched f g" "\<not> dot_name nm \<longrightarrow> plain_below (p @ [nm]) ns"
  shows "loop_validated p (nm # nms) ns path f ok f'"
  using assms fs_untouched_trans [of f g f'] fs_untouched_quiet [of f g] by (auto simp: loop_validated_def)

lemma loop_validated_fails:
  assumes "fs_untouched f f'" "\<not> (fs_quiet f \<and> ns (p @ [nm]) \<noteq> None \<and> plain_below p ns \<and> fits_below path p ns)" "\<not> dot_name nm"
  shows "loop_validated p (nm # nms) ns path f False f'"
  using assms by (auto simp: loop_validated_def)

lemma validate_loop_effect:
  assumes "remove_tree_validate_loop rd path names f = (ok, f')" "path \<noteq> []" "nodes f = ns" "\<forall>nm \<in> set names. dot_name nm \<or> name_ok nm"
    and rec: "\<And>child nm g ok g'. length path < length child \<Longrightarrow> length child < 4096 \<Longrightarrow> child \<noteq> [] \<Longrightarrow> canon child = canon path @ [nm] \<Longrightarrow>
        nodes g = ns \<Longrightarrow> fs_remove_tree_validate rd child g = (ok, g') \<Longrightarrow> validated rd child g ok g'"
  shows "loop_validated (canon path) names ns path f ok f'"
  using assms(1,3,4)
proof (induction names arbitrary: f)
  case Nil
  obtain r f1 where d: "posix_readdir [] f = (r, f1)" by fastforce
  from d show ?case
    by (cases rule: readdir_effect) (use Nil.prems(1) d in \<open>auto simp: remove_tree_validate_loop.simps loop_validated_def\<close>)
next
  case (Cons nm nms)
  let ?p = "canon path"
  have ih: "loop_validated ?p nms ns path g ok f'" if "remove_tree_validate_loop rd path nms g = (ok, f')" "fs_untouched f g" for g
    by (rule Cons.IH [OF that(1)]) (use Cons.prems(2,3) that(2) in \<open>simp_all add: fs_untouched_def\<close>)
  obtain r f1 where d: "posix_readdir (nm # nms) f = (r, f1)" by fastforce
  have "[] \<notin> set (nm # nms)" using Cons.prems(3) by (auto simp: dot_name_def name_ok_def normal_comp_def)
  from d this show ?case
  proof (cases rule: readdir_effect)
    case (fails e)
    with Cons.prems(1) d show ?thesis by (auto simp: remove_tree_validate_loop.simps loop_validated_def)
  next
    case (gives nm' nms')
    note unf = remove_tree_validate_loop.simps [of rd path "nm # nms" f]
    have n1: "nodes f1 = ns" using gives(3) Cons.prems(2) by (simp add: fs_untouched_def)
    show ?thesis
    proof (cases "dot_name nm")
      case True
      then have "remove_tree_validate_loop rd path nms f1 = (ok, f')" using Cons.prems(1) d gives unf by (auto simp: dot_name_def)
      from loop_validated_later [OF ih [OF this gives(3)] gives(3)] True show ?thesis by simp
    next
      case False
      then have nm: "name_ok nm" using Cons.prems(3) by simp
      show ?thesis
      proof (cases "fs_join_path 4096 path nm")
        case None
        then have "ok = False" "fs_untouched f f'" using Cons.prems(1) d gives False unf by (auto simp: dot_name_def)
        moreover have "\<not> (fs_quiet f \<and> ns (?p @ [nm]) \<noteq> None \<and> plain_below ?p ns \<and> fits_below path ?p ns)"
          using fits_below_join [of path ?p ns nm] None by blast
        ultimately show ?thesis using loop_validated_fails False by simp
      next
        case (Some child)
        have l: "length path < length child" "length child < 4096"
          using fs_join_path_longer [OF Some] nm by (auto simp: name_ok_def normal_comp_def)
        note c = join_child [OF Some assms(2) nm]
        obtain ok2 f2 where v: "fs_remove_tree_validate rd child f1 = (ok2, f2)" by fastforce
        have val: "validated rd child f1 ok2 f2" by (rule rec [OF l c(2,1) n1 v])
        then have u2: "fs_untouched f f2" using gives(3) by (auto simp: validated_def intro: fs_untouched_trans)
        show ?thesis
        proof (cases ok2)
          case True
          then have "remove_tree_validate_loop rd path nms f2 = (ok, f')"
            using Cons.prems(1) d gives False Some v unf by (auto simp: dot_name_def)
          from loop_validated_later [OF ih [OF this u2] u2] True val show ?thesis by (simp add: validated_def n1 c(1))
        next
          case bad: False
          then have r: "ok = False" "f' = snd (posix_closedir f2)"
            using Cons.prems(1) d gives False Some v unf by (auto simp: dot_name_def)
          have "\<not> (fs_quiet f \<and> ns (?p @ [nm]) \<noteq> None \<and> plain_below ?p ns \<and> fits_below path ?p ns)"
            using val bad fits_below_child [OF _ Some, of ?p ns] plain_below_child [of ?p ns nm] fs_untouched_quiet [OF gives(3)]
            by (auto simp: validated_def n1 c(1))
          with loop_validated_fails False r u2 show ?thesis by simp
        qed
      qed
    qed
  qed simp
qed


lemma entries_named:
  assumes "lists_dir rd f p" "tree_ok p (nodes f)"
  shows "\<forall>nm \<in> set (rd f p). dot_name nm \<or> name_ok nm"
proof
  fix nm assume "nm \<in> set (rd f p)"
  then have "dot_name nm \<or> nodes f (p @ [nm]) \<noteq> None" using assms(1) by (auto simp: lists_dir_def)
  with assms(2) show "dot_name nm \<or> name_ok nm" by (auto simp: tree_ok_def)
qed

text \<open>What lies below a directory lies below one of its entries.\<close>

lemma below_entry:
  assumes "prefix p q" "q \<noteq> p" "ns q = Some n" "tree_ok p ns"
  obtains c where "prefix (p @ [c]) q" "ns (p @ [c]) \<noteq> None"
proof -
  from assms(1,2) obtain c cs where q: "q = p @ c # cs" by (metis append_Nil2 neq_Nil_conv prefix_def)
  have "ns (p @ [c]) \<noteq> None" if "ns (p @ c # cs) \<noteq> None" for cs
    using that
  proof (induction cs rule: rev_induct)
    case (snoc x xs)
    from assms(4) snoc.prems have "\<exists>m. ns (p @ c # xs) = Some (DirN m)" unfolding tree_ok_def by (metis append.assoc append_Cons prefixI)
    with snoc.IH show ?case by auto
  qed simp
  with q assms(3) that [of c] show thesis by (auto simp: prefix_def)
qed

lemma validate_effect:
  "path \<noteq> [] \<Longrightarrow> tree_ok (canon path) (nodes f) \<Longrightarrow> reader_ok rd (nodes f) \<Longrightarrow>
     fs_remove_tree_validate rd path f = (ok, f') \<Longrightarrow> validated rd path f ok f'"
proof (induction path arbitrary: f ok f' rule: path_induct)
  case (below path)
  let ?p = "canon path"
  obtain i f1 where st: "fs_stat_path path f = (i, f1)" by fastforce
  note e = stat_effect [OF st]
  note unf = fs_remove_tree_validate.simps [of rd path f]
  show ?case
  proof (cases i)
    case None
    with below.prems(4) st unf e show ?thesis by (auto simp: validated_def)
  next
    case (Some info)
    from e(2) [OF this] obtain n where n: "nodes f ?p = Some n" "info_kind info = node_kind n" by blast
    show ?thesis
    proof (cases n)
      case (FileN c m)
      have "plain_below ?p (nodes f)"
        unfolding plain_below_def using below_entry [of ?p _ "nodes f"] below.prems(2) n(1) FileN
        by (metis node.disc(1) node.distinct(1) option.inject prefix_order.refl tree_ok_def)
      moreover have "ok" "f' = f1" using below.prems(4) st unf Some n(2) FileN by auto
      ultimately show ?thesis using e(1) by (simp add: validated_def)
    next
      case (DirN m)
      obtain r f2 where o: "posix_opendir path f1 = (r, f2)" by fastforce
      have u2: "fs_untouched f f2" using e(1) posix_opendir_effect [OF o] by (rule fs_untouched_trans)
      have dir: "nodes f1 ?p = Some (DirN m)" using e(1) n(1) DirN by (simp add: fs_untouched_def)
      show ?thesis
      proof (cases r)
        case (Inl err)
        then have "\<not> fs_quiet f" using opendir_dir(2) [OF o dir] fs_untouched_quiet [OF e(1)] by auto
        moreover have "\<not> ok" "f' = f2" using below.prems(4) st unf Some n(2) DirN o Inl by auto
        ultimately show ?thesis using u2 by (simp add: validated_def)
      next
        case (Inr d)
        then have d: "d = ?p" using opendir_dir(1) [OF o dir] by simp
        have n2: "nodes f2 = nodes f" using u2 by (simp add: fs_untouched_def)
        have ld: "lists_dir rd f2 ?p" using below.prems(3) n2 by (simp add: reader_ok_def)
        have "remove_tree_validate_loop rd path (rd f2 ?p) f2 = (ok, f')"
          using below.prems(4) st unf Some n(2) DirN o Inr d by auto
        from this below.prems(1) n2 entries_named [OF ld] have l: "loop_validated ?p (rd f2 ?p) (nodes f) path f2 ok f'"
        proof (rule validate_loop_effect)
          show "tree_ok ?p (nodes f2)" using below.prems(2) n2 by simp
          show "validated rd child g ok g'" if "length path < length child" "length child < 4096" "child \<noteq> []"
            "canon child = ?p @ [nm]" "nodes g = nodes f" "fs_remove_tree_validate rd child g = (ok, g')" for child nm g ok g'
            by (rule below.IH [OF that(1-3) _ _ that(6)]) (use that(4,5) below.prems(2,3) tree_ok_below in auto)
        qed
        have ents: "\<And>c. nodes f (?p @ [c]) \<noteq> None \<Longrightarrow> c \<in> set (rd f2 ?p) \<and> \<not> dot_name c"
          "\<And>c. c \<in> set (rd f2 ?p) \<Longrightarrow> \<not> dot_name c \<Longrightarrow> nodes f (?p @ [c]) \<noteq> None"
          using ld n2 by (auto simp: lists_dir_def)
        have "plain_below ?p (nodes f)" if "\<forall>nm \<in> set (rd f2 ?p). \<not> dot_name nm \<longrightarrow> plain_below (?p @ [nm]) (nodes f)"
          unfolding plain_below_def using below_entry [of ?p _ "nodes f"] below.prems(2) n(1) DirN ents(1) that
          by (metis node.disc(6) option.inject plain_below_def)
        with l ents(2) u2 fs_untouched_trans [OF u2] fs_untouched_quiet [OF u2] show ?thesis
          unfolding loop_validated_def validated_def by blast
      qed
    next
      case (SymlinkN t m)
      then have "\<not> plain_below ?p (nodes f)" using n(1) by (fastforce simp: plain_below_def)
      moreover have "\<not> ok" "f' = f1" using below.prems(4) st unf Some n(2) SymlinkN by auto
      ultimately show ?thesis using e(1) by (simp add: validated_def)
    next
      case (OtherN m)
      then have "\<not> plain_below ?p (nodes f)" using n(1) by (fastforce simp: plain_below_def)
      moreover have "\<not> ok" "f' = f1" using below.prems(4) st unf Some n(2) OtherN by auto
      ultimately show ?thesis using e(1) by (simp add: validated_def)
    qed
  qed
qed


section \<open>What the second pass removes\<close>

definition shrinks :: "path \<Rightarrow> fsys \<Rightarrow> fsys \<Rightarrow> bool" where
  "shrinks p f f' \<longleftrightarrow> fds f' = fds f \<and> set (fs_sched f') \<subseteq> set (fs_sched f) \<and> nodes f' \<subseteq>\<^sub>m nodes f \<and>
     (\<forall>q. \<not> prefix p q \<longrightarrow> nodes f' q = nodes f q)"

lemma shrinks_untouched: "fs_untouched f f' \<Longrightarrow> shrinks p f f'"
  by (simp add: fs_untouched_def shrinks_def)

lemma shrinks_trans: "shrinks p f g \<Longrightarrow> shrinks p g h \<Longrightarrow> shrinks p f h"
  unfolding shrinks_def by (metis map_le_trans subset_trans)

lemma shrinks_child: "shrinks (p @ [c]) f f' \<Longrightarrow> shrinks p f f'"
  by (auto simp: shrinks_def dest: append_prefixD)

lemma shrinks_quiet: "shrinks p f f' \<Longrightarrow> fs_quiet f \<Longrightarrow> fs_quiet f'"
  by (auto simp: shrinks_def intro: fs_quiet_subset)

lemma reader_ok_mono: "reader_ok rd ns \<Longrightarrow> ns' \<subseteq>\<^sub>m ns \<Longrightarrow> reader_ok rd ns'"
  unfolding reader_ok_def by (meson map_le_trans)

lemma without_le: "without p ns \<subseteq>\<^sub>m ns"
  by (auto simp: without_def map_le_def)

lemma plain_below_mono: "plain_below p ns \<Longrightarrow> ns' \<subseteq>\<^sub>m ns \<Longrightarrow> plain_below p ns'"
  unfolding plain_below_def map_le_def by (metis domI)

lemma fits_below_mono: "fits_below path p ns \<Longrightarrow> ns' \<subseteq>\<^sub>m ns \<Longrightarrow> fits_below path p ns'"
  unfolding fits_below_def map_le_def by (metis domIff)

definition removed :: "string \<Rightarrow> fsys \<Rightarrow> bool \<Rightarrow> fsys \<Rightarrow> bool" where
  "removed path f ok f' \<longleftrightarrow> shrinks (canon path) f f' \<and> (ok \<longrightarrow> nodes f' = without (canon path) (nodes f)) \<and>
     (fs_quiet f \<and> nodes f (canon path) \<noteq> None \<and> plain_below (canon path) (nodes f) \<and> fits_below path (canon path) (nodes f) \<longrightarrow> ok)"

text \<open>\<open>names\<close> is what is left to read of the directory \<open>p\<close>.\<close>

definition stream_ok :: "path \<Rightarrow> string list \<Rightarrow> (path \<Rightarrow> node option) \<Rightarrow> bool" where
  "stream_ok p names ns \<longleftrightarrow> distinct names \<and> {nm \<in> set names. \<not> dot_name nm} = {c. ns (p @ [c]) \<noteq> None}"

definition loop_removed :: "string \<Rightarrow> string list \<Rightarrow> fsys \<Rightarrow> bool \<Rightarrow> fsys \<Rightarrow> bool" where
  "loop_removed path names f ok f' \<longleftrightarrow> shrinks (canon path) f f' \<and> (ok \<longrightarrow> nodes f' = without (canon path) (nodes f)) \<and>
     (fs_quiet f \<and> stream_ok (canon path) names (nodes f) \<and> is_dir (the (nodes f (canon path))) \<and> nodes f (canon path) \<noteq> None \<and>
      plain_below (canon path) (nodes f) \<and> fits_below path (canon path) (nodes f) \<longrightarrow> ok)"

lemma stream_ok_dot: "dot_name nm \<Longrightarrow> stream_ok p (nm # nms) ns \<Longrightarrow> stream_ok p nms ns"
  by (auto simp: stream_ok_def)

lemma stream_ok_next:
  assumes "\<not> dot_name nm" "stream_ok p (nm # nms) ns"
  shows "stream_ok p nms (without (p @ [nm]) ns)" "ns (p @ [nm]) \<noteq> None"
proof -
  have *: "distinct (nm # nms)" "{c \<in> set (nm # nms). \<not> dot_name c} = {c. ns (p @ [c]) \<noteq> None}"
    using assms(2) unfolding stream_ok_def by blast+
  then show "ns (p @ [nm]) \<noteq> None" using assms(1) by auto
  have "{c \<in> set nms. \<not> dot_name c} = {c \<in> set (nm # nms). \<not> dot_name c} - {nm}" using *(1) by auto
  also have "\<dots> = {c. without (p @ [nm]) ns (p @ [c]) \<noteq> None}" unfolding *(2) by (auto simp: without_def)
  finally show "stream_ok p nms (without (p @ [nm]) ns)" using *(1) by (simp add: stream_ok_def)
qed

text \<open>The end of the stream: the directory goes when it has no entries any more.\<close>

lemma rmdir_removed:
  assumes "posix_rmdir rd path f = (r, f')" "reader_ok rd (nodes f)" "tree_ok (canon path) (nodes f)"
  shows "loop_removed path [] f (r = Inr ()) f'"
proof -
  let ?p = "canon path"
  have "\<forall>g. nodes g = nodes f \<longrightarrow> lists_dir rd g ?p" using assms(2) by (simp add: reader_ok_def)
  note e = rmdir_effect [OF assms(1) this]
  have "nodes f' = without ?p (nodes f)" if "r = Inr ()"
    using e(3) [OF that] tree_ok_no_entries [OF assms(3)] by (auto simp: without_def fun_eq_iff strict_prefix_def)
  moreover from this have "shrinks ?p f f'"
    using e(1,2,4) without_le [of ?p "nodes f"] by (cases "r = Inr ()") (auto simp: shrinks_def without_def)
  moreover have "r = Inr ()" if "fs_quiet f" "stream_ok ?p [] (nodes f)" "is_dir (the (nodes f ?p))" "nodes f ?p \<noteq> None"
    using that e(5) by (auto simp: stream_ok_def is_dir_def)
  ultimately show ?thesis by (auto simp: loop_removed_def)
qed

lemma loop_removed_before:
  assumes "loop_removed path names g ok f'" "fs_untouched f g"
  shows "loop_removed path names f ok f'"
  using assms shrinks_trans [OF shrinks_untouched [OF assms(2)]] fs_untouched_quiet [OF assms(2)]
  by (auto simp: loop_removed_def fs_untouched_nodes)

lemma loop_removed_dot: "dot_name nm \<Longrightarrow> loop_removed path nms f ok f' \<Longrightarrow> loop_removed path (nm # nms) f ok f'"
  using stream_ok_dot [of nm "canon path" nms "nodes f"] by (auto simp: loop_removed_def)

text \<open>A child that is gone, followed by the other entries.\<close>

lemma loop_removed_child:
  assumes "removed child f True g" "canon child = canon path @ [nm]" "\<not> dot_name nm" "loop_removed path nms g ok f'"
  shows "loop_removed path (nm # nms) f ok f'"
proof -
  let ?p = "canon path"
  have g: "nodes g = without (?p @ [nm]) (nodes f)" "shrinks ?p f g"
    using assms(1,2) shrinks_child by (auto simp: removed_def)
  have dir: "nodes g ?p = nodes f ?p" unfolding g(1) without_def by (auto simp: prefix_def)
  have "shrinks ?p f f'" using shrinks_trans [OF g(2)] assms(4) by (simp add: loop_removed_def)
  moreover have "ok \<longrightarrow> nodes f' = without ?p (nodes f)" using assms(4) by (simp add: loop_removed_def g(1))
  moreover have ok if "fs_quiet f" "stream_ok ?p (nm # nms) (nodes f)" "is_dir (the (nodes f ?p))" "nodes f ?p \<noteq> None"
      "plain_below ?p (nodes f)" "fits_below path ?p (nodes f)"
  proof -
    have "stream_ok ?p nms (nodes g)" using stream_ok_next(1) [OF assms(3) that(2)] g(1) by simp
    moreover have "nodes g \<subseteq>\<^sub>m nodes f" using g(1) without_le by simp
    ultimately show ok
      using assms(4) shrinks_quiet [OF g(2) that(1)] that(3,4) dir plain_below_mono [OF that(5)] fits_below_mono [OF that(6)]
      by (simp add: loop_removed_def)
  qed
  ultimately show ?thesis by (simp add: loop_removed_def)
qed


lemma loop_removed_fails:
  assumes "shrinks (canon path) f f'" "\<not> dot_name nm"
    and "\<not> (fs_quiet f \<and> nodes f (canon path @ [nm]) \<noteq> None \<and> plain_below (canon path) (nodes f) \<and> fits_below path (canon path) (nodes f))"
  shows "loop_removed path (nm # nms) f False f'"
  using assms stream_ok_next(2) [OF assms(2), of "canon path" nms "nodes f"] by (auto simp: loop_removed_def)

lemma impl_loop_effect:
  assumes "remove_tree_impl_loop rd path names f = (ok, f')" "path \<noteq> []" "tree_ok (canon path) (nodes f)" "reader_ok rd (nodes f)"
    and "\<forall>nm \<in> set names. dot_name nm \<or> name_ok nm"
    and rec: "\<And>child g ok g'. length path < length child \<Longrightarrow> length child < 4096 \<Longrightarrow> child \<noteq> [] \<Longrightarrow> tree_ok (canon child) (nodes g) \<Longrightarrow>
        reader_ok rd (nodes g) \<Longrightarrow> fs_remove_tree_impl rd child g = (ok, g') \<Longrightarrow> removed child g ok g'"
  shows "loop_removed path names f ok f'"
  using assms(1,3-5)
proof (induction names arbitrary: f)
  case Nil
  obtain r f1 where d: "posix_readdir [] f = (r, f1)" by fastforce
  have "[] \<notin> set ([] :: string list)" by simp
  from d this show ?case
  proof (cases rule: readdir_effect)
    case (fails e)
    with Nil.prems(1) d show ?thesis by (auto simp: remove_tree_impl_loop.simps loop_removed_def intro: shrinks_untouched)
  next
    case ends
    obtain x f2 where c: "posix_closedir f1 = (x, f2)" by fastforce
    have u2: "fs_untouched f f2" using ends(3) closedir_effect(1) [OF c] by (rule fs_untouched_trans)
    show ?thesis
    proof (cases x)
      case (Inl e)
      then have "\<not> fs_quiet f" using closedir_effect(2) [OF c] fs_untouched_quiet [OF ends(3)] by auto
      with Nil.prems(1) d ends c Inl u2 show ?thesis by (auto simp: remove_tree_impl_loop.simps loop_removed_def intro: shrinks_untouched)
    next
      case (Inr u)
      obtain r' f3 where m: "posix_rmdir rd path f2 = (r', f3)" by fastforce
      have "loop_removed path [] f2 (r' = Inr ()) f3"
        by (rule rmdir_removed [OF m]) (use Nil.prems(2,3) u2 in \<open>simp_all add: fs_untouched_def\<close>)
      from loop_removed_before [OF this u2] Nil.prems(1) d ends c Inr m show ?thesis by (simp add: remove_tree_impl_loop.simps)
    qed
  qed simp_all
next
  case (Cons nm nms)
  let ?p = "canon path"
  obtain r f1 where d: "posix_readdir (nm # nms) f = (r, f1)" by fastforce
  have "[] \<notin> set (nm # nms)" using Cons.prems(4) by (auto simp: dot_name_def name_ok_def normal_comp_def)
  from d this show ?case
  proof (cases rule: readdir_effect)
    case (fails e)
    with Cons.prems(1) d show ?thesis by (auto simp: remove_tree_impl_loop.simps loop_removed_def intro: shrinks_untouched)
  next
    case (gives nm' nms')
    note unf = remove_tree_impl_loop.simps [of rd path "nm # nms" f]
    have n1: "nodes f1 = nodes f" using gives(3) by (simp add: fs_untouched_def)
    have names: "\<forall>nm \<in> set nms. dot_name nm \<or> name_ok nm" using Cons.prems(4) by simp
    have "loop_removed path (nm # nms) f1 ok f'"
    proof (cases "dot_name nm")
      case True
      then have "remove_tree_impl_loop rd path nms f1 = (ok, f')" using Cons.prems(1) d gives unf by (auto simp: dot_name_def)
      from loop_removed_dot [OF True Cons.IH [OF this]] Cons.prems(2,3) n1 names show ?thesis by simp
    next
      case False
      then have nm: "name_ok nm" using Cons.prems(4) by simp
      show ?thesis
      proof (cases "fs_join_path 4096 path nm")
        case None
        then have "ok = False" "f' = snd (posix_closedir f1)" using Cons.prems(1) d gives False unf by (auto simp: dot_name_def)
        with loop_removed_fails [OF shrinks_untouched False] fits_below_join [of path ?p "nodes f1" nm] None show ?thesis by blast
      next
        case (Some child)
        have l: "length path < length child" "length child < 4096"
          using fs_join_path_longer [OF Some] nm by (auto simp: name_ok_def normal_comp_def)
        note c = join_child [OF Some assms(2) nm]
        obtain ok2 f2 where v: "fs_remove_tree_impl rd child f1 = (ok2, f2)" by fastforce
        have rm: "removed child f1 ok2 f2"
          by (rule rec [OF l c(2) _ _ v]) (use Cons.prems(2,3) n1 c(1) tree_ok_below in simp_all)
        show ?thesis
        proof (cases ok2)
          case True
          then have "remove_tree_impl_loop rd path nms f2 = (ok, f')"
            using Cons.prems(1) d gives False Some v unf by (auto simp: dot_name_def)
          moreover have "nodes f2 = without (?p @ [nm]) (nodes f)" using rm True by (simp add: removed_def c(1) n1)
          ultimately have "loop_removed path nms f2 ok f'"
            using Cons.IH [OF _ _ _ names] Cons.prems(2,3) tree_ok_without reader_ok_mono without_le by metis
          with loop_removed_child [OF _ c(1) False] rm True show ?thesis by simp
        next
          case bad: False
          then have r: "ok = False" "f' = snd (posix_closedir f2)"
            using Cons.prems(1) d gives False Some v unf by (auto simp: dot_name_def)
          have "shrinks ?p f1 f'"
            using rm r(2) shrinks_child [of ?p nm] shrinks_trans [OF _ shrinks_untouched [OF closedir_untouched [OF fs_untouched_refl]]]
            by (simp add: removed_def c(1))
          moreover have "\<not> (fs_quiet f1 \<and> nodes f1 (?p @ [nm]) \<noteq> None \<and> plain_below ?p (nodes f1) \<and> fits_below path ?p (nodes f1))"
            using rm bad fits_below_child [OF _ Some, of ?p "nodes f1"] plain_below_child [of ?p "nodes f1" nm]
            by (auto simp: removed_def c(1))
          ultimately show ?thesis using loop_removed_fails [OF _ False] r(1) by simp
        qed
      qed
    qed
    with gives(3) show ?thesis by (rule loop_removed_before [rotated])
  qed simp
qed

lemma impl_effect:
  "path \<noteq> [] \<Longrightarrow> tree_ok (canon path) (nodes f) \<Longrightarrow> reader_ok rd (nodes f) \<Longrightarrow>
     fs_remove_tree_impl rd path f = (ok, f') \<Longrightarrow> removed path f ok f'"
proof (induction path arbitrary: f ok f' rule: path_induct)
  case (below path)
  let ?p = "canon path"
  obtain i f1 where st: "fs_stat_path path f = (i, f1)" by fastforce
  note e = stat_effect [OF st]
  note unf = fs_remove_tree_impl.simps [of rd path f]
  have refused: "removed path f False g" if "fs_untouched f g" "\<not> (fs_quiet f \<and> nodes f ?p \<noteq> None \<and> plain_below ?p (nodes f))" for g
    using shrinks_untouched [OF that(1)] that(2) by (auto simp: removed_def)
  show ?case
  proof (cases i)
    case None
    then have "\<not> ok" "f' = f1" using below.prems(4) st unf by auto
    moreover have "\<not> (fs_quiet f \<and> nodes f ?p \<noteq> None)" using e(3) None by blast
    ultimately show ?thesis using refused [OF e(1)] by auto
  next
    case (Some info)
    from e(2) [OF this] obtain n where n: "nodes f ?p = Some n" "info_kind info = node_kind n" by blast
    consider (regular) "info_kind info = FS_PATH_KIND_FILE" | (directory) "info_kind info = FS_PATH_KIND_DIR" | (special) "\<not> is_file n" "\<not> is_dir n"
      using n(2) by (cases n) auto
    then show ?thesis
    proof cases
      case regular
      obtain r f2 where m: "posix_remove path f1 = (r, f2)" by fastforce
      note me = remove_effect [OF m]
      have n1: "nodes f1 = nodes f" using e(1) by (simp add: fs_untouched_def)
      have out: "ok = (r = Inr ())" "f' = f2" using below.prems(4) st unf Some regular m by auto
      have "\<forall>c. nodes f (?p @ [c]) = None" using below.prems(2) n regular unfolding tree_ok_def
        by (metis fs_path_kind.distinct(1) node_kind.simps(2) option.inject prefix_order.refl)
      then have "(nodes f)(?p := None) = without ?p (nodes f)"
        using tree_ok_no_entries [OF below.prems(2)] by (auto simp: without_def fun_eq_iff strict_prefix_def)
      then have gone: "r = Inr () \<Longrightarrow> nodes f2 = without ?p (nodes f)" using me(3) n1 by simp
      have "shrinks ?p f1 f2"
        using me(1,2,4) gone without_le [of ?p "nodes f"] n1 by (cases "r = Inr ()") (auto simp: shrinks_def without_def)
      from shrinks_trans [OF shrinks_untouched [OF e(1)] this] gone me(5) n1 fs_untouched_quiet [OF e(1)] out show ?thesis
        by (auto simp: removed_def)
    next
      case directory
      then obtain k where k: "n = DirN k" using n(2) by (cases n) auto
      obtain r f2 where o: "posix_opendir path f1 = (r, f2)" by fastforce
      have u2: "fs_untouched f f2" using e(1) posix_opendir_effect [OF o] by (rule fs_untouched_trans)
      then have n2: "nodes f2 = nodes f" by (simp add: fs_untouched_def)
      have at: "nodes f1 ?p = Some (DirN k)" using e(1) n(1) k by (simp add: fs_untouched_def)
      show ?thesis
      proof (cases r)
        case (Inl err)
        then have "\<not> fs_quiet f" using opendir_dir(2) [OF o at] fs_untouched_quiet [OF e(1)] by auto
        moreover have "\<not> ok" "f' = f2" using below.prems(4) st unf Some directory o Inl by auto
        ultimately show ?thesis using refused [OF u2] by simp
      next
        case (Inr d)
        then have d: "d = ?p" using opendir_dir(1) [OF o at] by simp
        have ld: "lists_dir rd f2 ?p" using below.prems(3) n2 by (simp add: reader_ok_def)
        have "remove_tree_impl_loop rd path (rd f2 ?p) f2 = (ok, f')"
          using below.prems(4) st unf Some directory o Inr d by auto
        then have "loop_removed path (rd f2 ?p) f2 ok f'"
        proof (rule impl_loop_effect)
          show "path \<noteq> []" "tree_ok ?p (nodes f2)" "reader_ok rd (nodes f2)" using below.prems(1-3) n2 by simp_all
          show "\<forall>nm \<in> set (rd f2 ?p). dot_name nm \<or> name_ok nm" by (rule entries_named [OF ld]) (simp add: n2 below.prems(2))
        qed (rule below.IH)
        moreover have "stream_ok ?p (rd f2 ?p) (nodes f2)" using ld by (simp add: stream_ok_def lists_dir_def)
        ultimately show ?thesis
          using loop_removed_before [OF _ u2] fs_untouched_quiet [OF u2] n(1) k n2 by (fastforce simp: loop_removed_def removed_def)
      qed
    next
      case special
      then have "\<not> plain_below ?p (nodes f)" using n(1) by (fastforce simp: plain_below_def)
      moreover have "\<not> ok" "f' = f1" using below.prems(4) st unf Some special n(2) by (cases n; auto)+
      ultimately show ?thesis using refused [OF e(1)] by simp
    qed
  qed
qed


section \<open>Removing a tree\<close>

text \<open>
C40: The removal of a tree is exact. Whatever the calls answer, nothing outside the tree changes and no descriptor is left open; success means that the
path and everything below it are gone; a tree that holds a link or a special file is refused before anything is removed. With a kernel
that does not fail, the removal of a tree of files and directories whose paths fit into the buffers succeeds.
\<close>
theorem fs_remove_tree_exact:
  assumes "fs_remove_tree rd path f = (ok, f')" "tree_ok (canon path) (nodes f)" "reader_ok rd (nodes f)"
  shows "fds f' = fds f \<and> (\<forall>q. \<not> prefix (canon path) q \<longrightarrow> nodes f' q = nodes f q) \<and>
    (ok \<longrightarrow> (\<forall>q. prefix (canon path) q \<longrightarrow> nodes f' q = None)) \<and>
    (\<not> plain_below (canon path) (nodes f) \<longrightarrow> \<not> ok \<and> nodes f' = nodes f) \<and>
    (path \<noteq> [] \<and> fs_quiet f \<and> nodes f (canon path) \<noteq> None \<and> plain_below (canon path) (nodes f) \<and>
       fits_below path (canon path) (nodes f) \<longrightarrow> ok)"
proof (cases "path = []")
  case True
  with assms(1) show ?thesis by (simp add: fs_remove_tree_def)
next
  case False
  obtain ok1 f1 where v: "fs_remove_tree_validate rd path f = (ok1, f1)" by fastforce
  note val = validate_effect [OF False assms(2,3) v, unfolded validated_def]
  then have n1: "nodes f1 = nodes f" "fds f1 = fds f" "fs_quiet f \<longrightarrow> fs_quiet f1"
    by (auto simp: fs_untouched_def intro: fs_quiet_subset)
  show ?thesis
  proof (cases ok1)
    case True
    with assms(1) v False have r: "fs_remove_tree_impl rd path f1 = (ok, f')" by (simp add: fs_remove_tree_def)
    have "removed path f1 ok f'" by (rule impl_effect [OF False _ _ r]) (use assms(2,3) n1 in simp_all)
    with val True n1 show ?thesis by (auto simp: removed_def shrinks_def without_def)
  next
    case bad: False
    with assms(1) v False have "\<not> ok" "f' = f1" by (auto simp: fs_remove_tree_def)
    with val bad n1 show ?thesis by auto
  qed
qed

text \<open>A tree with a directory in it, and a file beside it.\<close>

definition tree_fs :: fsys where
  "tree_fs = \<lparr>nodes = [[''/'', ''d''] \<mapsto> DirN 0, [''/'', ''d'', ''a''] \<mapsto> FileN [1] 1, [''/'', ''d'', ''b''] \<mapsto> DirN 2,
       [''/'', ''d'', ''b'', ''a''] \<mapsto> FileN [] 3, [''/'', ''e''] \<mapsto> FileN [2] 4],
     fds = Map.empty, next_fd = 3, fs_sched = [FsGo, FsShort 1], fs_now = 5\<rparr>"

definition tree_reader :: reader where
  "tree_reader f p = filter (\<lambda>c. nodes f (p @ [c]) \<noteq> None) [''b'', ''e'', ''a'', ''d'']"

lemma tree_reader_ok: "reader_ok tree_reader (nodes tree_fs)"
  unfolding reader_ok_def
proof (intro allI impI)
  fix g :: fsys and p assume "nodes g \<subseteq>\<^sub>m nodes tree_fs"
  then have "nodes tree_fs (p @ [c]) \<noteq> None" if "nodes g (p @ [c]) \<noteq> None" for c
    using that unfolding map_le_def by (metis domIff)
  then have "c \<in> set [''b'', ''e'', ''a'', ''d'']" if "nodes g (p @ [c]) \<noteq> None" for c
    using that by (fastforce simp: tree_fs_def append_eq_Cons_conv split: if_splits)
  moreover have "\<not> dot_name c" if "c \<in> set [''b'', ''e'', ''a'', ''d'']" for c using that by (auto simp: dot_name_def)
  ultimately have "{nm \<in> set (tree_reader g p). \<not> dot_name nm} = {c. nodes g (p @ [c]) \<noteq> None}"
    unfolding tree_reader_def set_filter by blast
  then show "lists_dir tree_reader g p" by (simp add: lists_dir_def tree_reader_def)
qed

theorem fs_remove_tree_exact_witness:
  "let (ok, f') = fs_remove_tree tree_reader ''/d'' tree_fs in
   ok \<and> nodes f' [''/'', ''d''] = None \<and> nodes f' [''/'', ''d'', ''b'', ''a''] = None \<and> nodes f' [''/'', ''e''] = Some (FileN [2] 4)"
proof -
  obtain ok f' where r: "fs_remove_tree tree_reader ''/d'' tree_fs = (ok, f')" by fastforce
  have p: "canon ''/d'' = [''/'', ''d'']" by code_simp
  have "tree_ok (canon ''/d'') (nodes tree_fs)"
    by (auto simp: p tree_ok_def tree_fs_def name_ok_def normal_comp_def prefix_def append_eq_Cons_conv split: if_splits)
  from fs_remove_tree_exact [OF r this tree_reader_ok, unfolded p] have e: "\<forall>q. \<not> prefix [''/'', ''d''] q \<longrightarrow> nodes f' q = nodes tree_fs q"
    "ok \<longrightarrow> (\<forall>q. prefix [''/'', ''d''] q \<longrightarrow> nodes f' q = None)"
    "fs_quiet tree_fs \<and> nodes tree_fs [''/'', ''d''] \<noteq> None \<and> plain_below [''/'', ''d''] (nodes tree_fs) \<and>
       fits_below ''/d'' [''/'', ''d''] (nodes tree_fs) \<longrightarrow> ok" by auto
  have "fs_quiet tree_fs" "nodes tree_fs [''/'', ''d''] \<noteq> None" by (auto simp: tree_fs_def fs_quiet_def)
  moreover have "plain_below [''/'', ''d''] (nodes tree_fs)" "fits_below ''/d'' [''/'', ''d''] (nodes tree_fs)"
    by (auto simp: plain_below_def fits_below_def tree_fs_def split: if_splits)
  ultimately have ok using e(3) by blast
  with e(1,2) r show ?thesis by (auto simp: tree_fs_def)
qed

end
