(* ===== verification/Http_Listing.thy ===== *)
theory Http_Listing
  imports Http_Session Fs_Tree "HOL-Library.Product_Lexorder" "HOL-Library.List_Lexorder"
begin

text \<open>
  The directory listing of the web interface (\<^verbatim>\<open>http_list_files\<close> and its JSON text): it is sorted, tells the truth, and on a calm
  system is complete, provided \<^verbatim>\<open>readdir\<close> gives all entries (\<open>reader_ok\<close>; the code does not ask whether it failed). The order of \<^verbatim>\<open>http_file_entry_cmp\<close> is the order of a key, so that the sorting is the
  library's \<^term>\<open>sort_key\<close>.
\<close>

section \<open>The order\<close>

definition entry_key :: "http_file_entry \<Rightarrow> int \<times> nat list" where
  "entry_key e = (- uint (fe_mtime e), map char_code (fe_name e))"

lemma strcmp_order: "strcmp s t \<le> 0 \<longleftrightarrow> map char_code s \<le> map char_code t"
  by (induction s t rule: strcmp.induct) auto

lemma entry_cmp_order: "http_file_entry_cmp a b \<le> 0 \<longleftrightarrow> entry_key a \<le> entry_key b"
  by (auto simp: http_file_entry_cmp_def entry_key_def strcmp_order word_less_def less_eq_prod_simp split: if_splits)

text \<open>The order a reader expects: the newest first, those of the same time by the bytes of their names.\<close>

definition listed_before :: "http_file_entry \<Rightarrow> http_file_entry \<Rightarrow> bool" where
  "listed_before a b \<longleftrightarrow> fe_mtime b < fe_mtime a \<or>
     fe_mtime a = fe_mtime b \<and> map char_code (fe_name a) < map char_code (fe_name b)"

lemma listed_before_key: "listed_before a b \<longleftrightarrow> entry_key a < entry_key b"
  by (auto simp: listed_before_def entry_key_def word_less_def less_prod_simp word_uint_eq_iff)

lemma sort_entries_sort_key: "sort_entries es = sort_key entry_key es"
proof -
  have "insort_entry e xs = insort_key entry_key e xs" for e xs
    by (induction xs) (simp_all add: entry_cmp_order)
  then show ?thesis unfolding sort_entries_def sort_key_def by (simp add: fun_eq_iff cong: foldr_cong)
qed

text \<open>Entries with different names are never equal in this order.\<close>

lemma char_code_eq [simp]: "char_code c = char_code d \<longleftrightarrow> c = d"
  by (simp add: char_code_def)

lemma sort_entries_sorted:
  assumes "distinct (map fe_name es)"
  shows "sorted_wrt listed_before (sort_entries es)" "set (sort_entries es) = set es"
proof -
  have inj: "inj (map char_code)" by (rule inj_mapI) (simp add: inj_def)
  have "distinct (map (map char_code) (map fe_name es))" using assms inj by (simp only: distinct_map) (blast intro: inj_on_subset)
  moreover have "map (map char_code) (map fe_name es) = map snd (map entry_key es)" by (simp add: entry_key_def)
  ultimately have "distinct (map entry_key es)" by (metis distinct_map)
  then have "distinct (map entry_key (sort_entries es))"
    by (simp add: sort_entries_sort_key distinct_map)
  moreover have "sorted (map entry_key (sort_entries es))" by (simp add: sort_entries_sort_key)
  ultimately have "sorted_wrt (<) (map entry_key (sort_entries es))" by (simp add: strict_sorted_iff)
  then show "sorted_wrt listed_before (sort_entries es)" by (simp add: sorted_wrt_map listed_before_key [abs_def])
  show "set (sort_entries es) = set es" by (simp add: sort_entries_sort_key)
qed

lemma subseq_distinct: "subseq xs ys \<Longrightarrow> distinct ys \<Longrightarrow> distinct xs"
  by (induction rule: list_emb.induct) (auto dest: list_emb_set)

section \<open>The entries\<close>

text \<open>What a listing has to say about the entry \<open>nm\<close> of the directory \<open>p\<close>.\<close>

definition entry_of :: "(path \<Rightarrow> node option) \<Rightarrow> path \<Rightarrow> string \<Rightarrow> string \<Rightarrow> http_file_entry option" where
  "entry_of ns p rel nm = map_option (\<lambda>n.
     \<lparr>fe_name = nm, fe_path = (if rel = [] then nm else rel @ ''/'' @ nm), fe_kind = node_kind n,
      fe_size = (case n of FileN c m \<Rightarrow> of_nat (length c) | _ \<Rightarrow> 0), fe_mtime = node_mtime n\<rparr>) (ns (p @ [nm]))"

lemma entry_of_name: "entry_of ns p rel nm = Some e \<Longrightarrow> fe_name e = nm"
  by (auto simp: entry_of_def)

lemma stat_info:
  assumes "fs_stat_path path f = (Some info, f')"
  obtains n where "nodes f (canon path) = Some n" "info_kind info = node_kind n" "info_mtime info = node_mtime n"
    "(if info_kind info = FS_PATH_KIND_FILE then info_size info else 0) = (case n of FileN c m \<Rightarrow> of_nat (length c) | _ \<Rightarrow> 0)"
proof -
  obtain e g where pop: "fs_pop f = (e, g)" by fastforce
  then have "nodes g = nodes f" by (auto elim!: fs_popE)
  with assms pop that show thesis
    by (auto simp: fs_stat_path_def posix_lstat_def split: fs_event.splits option.splits node.splits)
qed

text \<open>The result of the loop: the entries that could be looked at, in the order of the stream.\<close>

definition lists :: "(path \<Rightarrow> node option) \<Rightarrow> path \<Rightarrow> string \<Rightarrow> string list \<Rightarrow> bool \<Rightarrow> http_file_entry list \<Rightarrow> bool" where
  "lists ns p rel names calm es \<longleftrightarrow> subseq (map fe_name es) (filter (\<lambda>nm. \<not> dot_name nm) names) \<and>
     (\<forall>e \<in> set es. entry_of ns p rel (fe_name e) = Some e) \<and>
     (calm \<longrightarrow> (\<forall>nm \<in> set names. \<not> dot_name nm \<and> ns (p @ [nm]) \<noteq> None \<longrightarrow> nm \<in> fe_name ` set es))"

lemma lists_skip: "lists ns p rel nms calm es \<Longrightarrow> dot_name nm \<or> \<not> (calm \<and> ns (p @ [nm]) \<noteq> None) \<Longrightarrow> lists ns p rel (nm # nms) calm es"
  by (auto simp: lists_def)

lemma lists_entry:
  "lists ns p rel nms calm es \<Longrightarrow> \<not> dot_name nm \<Longrightarrow> entry_of ns p rel nm = Some e \<Longrightarrow> lists ns p rel (nm # nms) calm (e # es)"
  using entry_of_name [of ns p rel nm e] by (auto simp: lists_def)

lemma lists_calm: "lists ns p rel nms calm es \<Longrightarrow> (calm' \<Longrightarrow> calm) \<Longrightarrow> lists ns p rel nms calm' es"
  by (auto simp: lists_def)

lemma local_step_facts:
  "local_step w w' \<Longrightarrow> nodes (fs w') = nodes (fs w)" "local_step w w' \<Longrightarrow> fs_quiet (fs w) \<Longrightarrow> fs_quiet (fs w')"
  "local_step w w' \<Longrightarrow> sk w' = sk w"
  by (auto simp: local_step_def web_step_def fs_untouched_def intro: fs_quiet_subset)

lemma http_list_loop_lists:
  assumes "http_list_loop dir rel names cap es w = (Some out, w')" "dir \<noteq> []" "\<forall>nm \<in> set names. dot_name nm \<or> name_ok nm"
    and "nodes (fs w) = ns"
  shows "\<exists>new. out = es @ new \<and> lists ns (canon dir) rel names (fs_quiet (fs w)) new"
  using assms(1,3,4)
proof (induction names arbitrary: cap es w)
  case Nil
  then show ?case by (auto simp: lists_def)
next
  case (Cons nm nms)
  let ?p = "canon dir"
  have ih: "\<exists>new. out = es' @ new \<and> lists ns ?p rel nms (fs_quiet (fs w)) new"
    if "http_list_loop dir rel nms cap' es' w1 = (Some out, w')" "local_step w w1" for cap' es' w1
  proof -
    from Cons.IH [OF that(1)] Cons.prems(2,3) local_step_facts(1) [OF that(2)] obtain new where
      "out = es' @ new" "lists ns ?p rel nms (fs_quiet (fs w1)) new" by auto
    with local_step_facts(2) [OF that(2)] lists_calm show ?thesis by blast
  qed
  show ?case
  proof (cases "dot_name nm")
    case True
    then have "http_list_loop dir rel nms cap es w = (Some out, w')" using Cons.prems(1) by (simp add: dot_name_def)
    from ih [OF this local_step_refl] True lists_skip show ?thesis by blast
  next
    case False
    then have nm: "name_ok nm" "\<not> (nm = ''.'' \<or> nm = ''..'')" using Cons.prems(2) by (auto simp: dot_name_def)
    with Cons.prems(1) obtain full rp where p: "fs_join_path 4096 dir nm = Some full"
      "http_build_relative_child_path HF_HTTP_PATH_MAX rel nm = Some rp"
      by (cases "fs_join_path 4096 dir nm"; cases "http_build_relative_child_path HF_HTTP_PATH_MAX rel nm") auto
    have rp: "rp = (if rel = [] then nm else rel @ ''/'' @ nm)"
      using p(2) by (auto simp: http_build_relative_child_path_def snprintf_checked_def split: if_splits)
    note c = join_child(1) [OF p(1) assms(2) nm(1)]
    obtain i f1 where st: "fs_stat_path full (fs w) = (i, f1)" by fastforce
    define w1 where "w1 = w\<lparr>fs := f1\<rparr>"
    have s1: "local_step w w1" unfolding w1_def by (rule local_step_of(3) [OF stat_effect(1) [OF st]])
    show ?thesis
    proof (cases i)
      case None
      then have "http_list_loop dir rel nms cap es w1 = (Some out, w')" using Cons.prems(1) p nm(2) st by (simp add: w1_def)
      from ih [OF this s1] obtain new where new: "out = es @ new" "lists ns ?p rel nms (fs_quiet (fs w)) new" by (elim exE conjE)
      have "\<not> (fs_quiet (fs w) \<and> ns (?p @ [nm]) \<noteq> None)" using stat_effect(3) [OF st] None Cons.prems(3) c by metis
      then show ?thesis using lists_skip [OF new(2) disjI2] new(1) by (intro exI [of _ new] conjI)
    next
      case (Some info)
      define b2 where "b2 = (if length es = cap then malloc w1 else (True, w1))"
      obtain b3 w3 where m3: "malloc (snd b2) = (b3, w3)" by fastforce
      obtain b4 w4 where m4: "malloc w3 = (b4, w4)" by fastforce
      have "local_step w1 (snd b2)" using local_step_of(2) [of w1 "fst (malloc w1)" "snd (malloc w1)"] by (simp add: b2_def)
      with s1 local_step_of(2) [OF m3] local_step_of(2) [OF m4] have s4: "local_step w w4" by (blast intro: local_step_trans)
      let ?e = "\<lparr>fe_name = nm, fe_path = rp, fe_kind = info_kind info,
        fe_size = (if info_kind info = FS_PATH_KIND_FILE then info_size info else 0), fe_mtime = info_mtime info\<rparr>"
      obtain cap' where r: "http_list_loop dir rel nms cap' (es @ [?e]) w4 = (Some out, w')"
        using Cons.prems(1) m3 m4 nm(2) unfolding http_list_loop.simps p st Some option.case prod.case Let_def w1_def [symmetric] b2_def [symmetric]
        by (cases b2; cases b3; cases b4; cases "fst b2") simp_all
      from st [unfolded Some] obtain n where n: "nodes (fs w) (canon full) = Some n" "info_kind info = node_kind n" "info_mtime info = node_mtime n"
        "(if info_kind info = FS_PATH_KIND_FILE then info_size info else 0) = (case n of FileN c m \<Rightarrow> of_nat (length c) | _ \<Rightarrow> 0)"
        by (rule stat_info)
      have "entry_of ns ?p rel nm = Some ?e" using n(1) Cons.prems(3) unfolding entry_of_def n(4) by (simp add: c rp n(2,3))
      with ih [OF r s4] lists_entry [OF _ False] show ?thesis by (metis append.assoc append_Cons append_Nil)
    qed
  qed
qed

text \<open>With memory and with names that fit, the loop comes to its end.\<close>

definition names_fit :: "string \<Rightarrow> string \<Rightarrow> string list \<Rightarrow> bool" where
  "names_fit dir rel names \<longleftrightarrow> (\<forall>nm \<in> set names. \<not> dot_name nm \<longrightarrow> fs_join_path 4096 dir nm \<noteq> None \<and>
     http_build_relative_child_path HF_HTTP_PATH_MAX rel nm \<noteq> None)"

lemma malloc_calm: "malloc w = (b, w') \<Longrightarrow> False \<notin> set (mem w) \<Longrightarrow> b \<and> False \<notin> set (mem w')"
  by (cases "mem w") (auto simp: malloc_def)

lemma http_list_loop_succeeds:
  "names_fit dir rel names \<Longrightarrow> False \<notin> set (mem w) \<Longrightarrow>
    fst (http_list_loop dir rel names cap es w) \<noteq> None \<and> False \<notin> set (mem (snd (http_list_loop dir rel names cap es w)))"
proof (induction names arbitrary: cap es w)
  case (Cons nm nms)
  have fit: "names_fit dir rel nms" using Cons.prems(1) by (simp add: names_fit_def)
  show ?case
  proof (cases "dot_name nm")
    case True
    with Cons.IH [OF fit Cons.prems(2)] show ?thesis by (simp add: dot_name_def)
  next
    case False
    with Cons.prems(1) obtain full rp where p: "fs_join_path 4096 dir nm = Some full"
      "http_build_relative_child_path HF_HTTP_PATH_MAX rel nm = Some rp" by (auto simp: names_fit_def)
    obtain i f1 where st: "fs_stat_path full (fs w) = (i, f1)" by fastforce
    define w1 where "w1 = w\<lparr>fs := f1\<rparr>"
    define b2 where "b2 = (if length es = cap then malloc w1 else (True, w1))"
    obtain b3 w3 where m3: "malloc (snd b2) = (b3, w3)" by fastforce
    obtain b4 w4 where m4: "malloc w3 = (b4, w4)" by fastforce
    have f1: "False \<notin> set (mem w1)" using Cons.prems(2) by (simp add: w1_def)
    then have f2: "fst b2" "False \<notin> set (mem (snd b2))"
      using malloc_calm [of w1 "fst (malloc w1)" "snd (malloc w1)"] by (simp_all add: b2_def)
    note f3 = malloc_calm [OF m3 f2(2)]
    note f4 = malloc_calm [OF m4 conjunct2 [OF f3]]
    obtain w2 where b2: "b2 = (True, w2)" using f2(1) by (cases b2) auto
    show ?thesis
    proof (cases i)
      case None
      then show ?thesis using Cons.IH [OF fit f1] p False st by (simp add: dot_name_def w1_def)
    next
      case (Some info)
      have e: "(if length es = cap then malloc w1 else (True, w1)) = (True, w2)" using b2 by (simp only: b2_def)
      have m: "malloc w2 = (True, w3)" "malloc w3 = (True, w4)" using m3 m4 f3 f4 b2 by simp_all
      show ?thesis
        using False unfolding http_list_loop.simps dot_name_def p st Some option.case prod.case Let_def w1_def [symmetric] e m
        by (simp add: Cons.IH [OF fit conjunct2 [OF f4]])
    qed
  qed
qed simp

section \<open>The answer\<close>

definition files_json :: "http_file_entry list \<Rightarrow> string" where
  "files_json es = ''['' @ concat (entries_pieces True es) @ '']''"

text \<open>A listing of the directory \<open>p\<close>: sorted, true, and complete when \<open>calm\<close>.\<close>

definition listing :: "(path \<Rightarrow> node option) \<Rightarrow> path \<Rightarrow> string \<Rightarrow> bool \<Rightarrow> http_file_entry list \<Rightarrow> bool" where
  "listing ns p rel calm es \<longleftrightarrow> sorted_wrt listed_before es \<and>
     (\<forall>e \<in> set es. entry_of ns p rel (fe_name e) = Some e) \<and>
     (calm \<longrightarrow> set es = {e. \<exists>nm. entry_of ns p rel nm = Some e})"

lemma http_list_files_listing:
  assumes "http_list_files env dir rel w = (r, w')" "dir \<noteq> []" "nodes (fs w) (canon dir) = Some (DirN k)"
    and "tree_ok (canon dir) (nodes (fs w))" "reader_ok (readdir env) (nodes (fs w))"
  shows "r = Some es \<Longrightarrow> listing (nodes (fs w)) (canon dir) rel (fs_quiet (fs w)) es"
    and "fs_quiet (fs w) \<Longrightarrow> False \<notin> set (mem w) \<Longrightarrow>
      \<forall>nm. nodes (fs w) (canon dir @ [nm]) \<noteq> None \<longrightarrow> names_fit dir rel [nm] \<Longrightarrow>
      r \<noteq> None \<and> False \<notin> set (mem w')"
proof -
  let ?p = "canon dir" and ?ns = "nodes (fs w)"
  obtain x f1 where o: "posix_opendir dir (fs w) = (x, f1)" by fastforce
  note u = posix_opendir_effect [OF o]
  then have n1: "nodes f1 = ?ns" by (simp add: fs_untouched_def)
  obtain y w1 where l: "http_list_loop dir rel (readdir env f1 ?p) 0 [] (w\<lparr>fs := f1\<rparr>) = (y, w1)" by fastforce
  have ld: "lists_dir (readdir env) f1 ?p" using assms(5) n1 by (simp add: reader_ok_def)
  then have ents: "{nm \<in> set (readdir env f1 ?p). \<not> dot_name nm} = {c. ?ns (?p @ [c]) \<noteq> None}" "distinct (readdir env f1 ?p)"
    using n1 by (simp_all add: lists_dir_def)
  have r: "r = (case x of Inl e \<Rightarrow> None | Inr d \<Rightarrow> map_option sort_entries y)"
    using assms(1) o l opendir_dir(1) [OF o assms(3)] by (cases x; cases y) (auto simp: http_list_files_def)
  show "listing ?ns ?p rel (fs_quiet (fs w)) es" if "r = Some es"
  proof -
    from that r obtain out where out: "y = Some out" "es = sort_entries out" by (auto split: sum.splits)
    have "\<forall>nm \<in> set (readdir env f1 ?p). dot_name nm \<or> name_ok nm" by (rule entries_named [OF ld]) (simp add: n1 assms(4))
    from http_list_loop_lists [OF l [unfolded out] assms(2) this refl] fs_untouched_quiet [OF u] lists_calm
    have li: "lists ?ns ?p rel (readdir env f1 ?p) (fs_quiet (fs w)) out" by (auto simp: n1)
    have "distinct (map fe_name out)" using li ents(2) by (metis lists_def distinct_filter subseq_distinct)
    note s = sort_entries_sorted [OF this]
    moreover have "set out = {e. \<exists>nm. entry_of ?ns ?p rel nm = Some e}" if "fs_quiet (fs w)"
    proof (intro set_eqI iffI)
      fix e assume "e \<in> {e. \<exists>nm. entry_of ?ns ?p rel nm = Some e}"
      then obtain nm where e: "entry_of ?ns ?p rel nm = Some e" by blast
      then have "?ns (?p @ [nm]) \<noteq> None" by (auto simp: entry_of_def)
      with ents(1) li that obtain e' where "e' \<in> set out" "fe_name e' = nm" unfolding lists_def by blast
      with li e show "e \<in> set out" by (auto simp: lists_def)
    qed (use li in \<open>auto simp: lists_def\<close>)
    ultimately show ?thesis using li by (auto simp: listing_def out(2) lists_def)
  qed
  show "r \<noteq> None \<and> False \<notin> set (mem w')" if "fs_quiet (fs w)" "False \<notin> set (mem w)" "\<forall>nm. ?ns (?p @ [nm]) \<noteq> None \<longrightarrow> names_fit dir rel [nm]"
  proof -
    have "names_fit dir rel (readdir env f1 ?p)" 
      unfolding names_fit_def
    proof (intro ballI impI)
      fix nm assume "nm \<in> set (readdir env f1 ?p)" "\<not> dot_name nm"
      with ents(1) that(3) show "fs_join_path 4096 dir nm \<noteq> None \<and> http_build_relative_child_path HF_HTTP_PATH_MAX rel nm \<noteq> None"
        by (auto simp: names_fit_def set_eq_iff)
    qed
    with http_list_loop_succeeds [of dir rel "readdir env f1 ?p" "w\<lparr>fs := f1\<rparr>" 0 "[]"] that(2) l
    obtain out where "y = Some out" "False \<notin> set (mem w1)" by auto
    moreover have "\<not> isl x" by (rule opendir_dir(2) [OF o assms(3) that(1)])
    ultimately show ?thesis using assms(1) o l opendir_dir(1) [OF o assms(3)] by (cases x) (auto simp: http_list_files_def)
  qed
qed

lemma http_build_files_json_listing:
  assumes "http_build_files_json env dir rel w = (r, w')" "dir \<noteq> []" "nodes (fs w) (canon dir) = Some (DirN k)"
    and "tree_ok (canon dir) (nodes (fs w))" "reader_ok (readdir env) (nodes (fs w))"
  shows "r = Some b \<Longrightarrow> \<exists>es. listing (nodes (fs w)) (canon dir) rel (fs_quiet (fs w)) es \<and> hb_data b = files_json es"
    and "fs_quiet (fs w) \<Longrightarrow> False \<notin> set (mem w) \<Longrightarrow>
      \<forall>nm. nodes (fs w) (canon dir @ [nm]) \<noteq> None \<longrightarrow> names_fit dir rel [nm] \<Longrightarrow>
      \<forall>es. listing (nodes (fs w)) (canon dir) rel True es \<longrightarrow> length (files_json es) < 2 ^ 62 \<Longrightarrow> r \<noteq> None"
proof -
  obtain x w1 where x: "http_list_files env dir rel w = (x, w1)" by fastforce
  note l = http_list_files_listing [OF x assms(2-5)]
  have r: "http_buf_append_all ([''[''] @ entries_pieces True es @ ['']'']) http_buf_zero w1 = (r, w')" if "x = Some es" for es
    using assms(1) x that by (simp add: http_build_files_json_def)
  have z: "hb_data http_buf_zero = []" by (simp add: http_buf_zero_def)
  show "\<exists>es. listing (nodes (fs w)) (canon dir) rel (fs_quiet (fs w)) es \<and> hb_data b = files_json es" if "r = Some b"
  proof -
    from assms(1) x that obtain es where es: "x = Some es" by (cases x) (auto simp: http_build_files_json_def)
    with http_buf_append_all_effect(2) [OF r that] l(1) show ?thesis by (auto simp: files_json_def z)
  qed
  show "r \<noteq> None" if "fs_quiet (fs w)" "False \<notin> set (mem w)" "\<forall>nm. nodes (fs w) (canon dir @ [nm]) \<noteq> None \<longrightarrow> names_fit dir rel [nm]"
    "\<forall>es. listing (nodes (fs w)) (canon dir) rel True es \<longrightarrow> length (files_json es) < 2 ^ 62"
  proof -
    from l(2) [OF that(1-3)] obtain es where es: "x = Some es" "False \<notin> set (mem w1)" by auto
    with l(1) that(1,4) have "length (files_json es) < 2 ^ 62" by simp
    then show ?thesis by (intro http_buf_append_all_effect(4) [OF r [OF es(1)] es(2)]) (simp add: files_json_def z)
  qed
qed

text \<open>The whole answer that carries a listing.\<close>

definition listing_answer :: "http_file_entry list \<Rightarrow> byte list" where
  "listing_answer es =
     bytes_of_string (http_response_header 200 ''OK'' JSON_TYPE (length (files_json es)) [] @ files_json es)"

text \<open>
  The branches of the handler for a path that is a directory: a listing that could not be begun, one that was
  given up, and one that is sent.
\<close>

lemma http_handle_files_list_cases:
  assumes "http_handle_files_list env opt req w = (ok, w')" "http_list_path req = Some rel"
    and "fs_join_relative_path 4096 (so_path opt) (Some rel) = Some dir" "nodes (fs w) (canon dir) = Some (DirN k)"
  obtains (lost) w1 where "http_send_json_error 404 ''Not Found'' ''path not found'' w1 = (ok, w')" "sk w1 = sk w" "\<not> fs_quiet (fs w)"
  | (listed) w1 x w2 where "local_step w w1" "mem w1 = mem w" "http_build_files_json env dir rel w1 = (x, w2)"
      "(case x of None \<Rightarrow> http_send_json_error 500 ''Internal Server Error'' ''failed to list files'' w2
        | Some body \<Rightarrow> http_send_response 200 ''OK'' JSON_TYPE (hb_data body) None w2) = (ok, w')"
proof -
  obtain i f1 where st: "fs_stat_path dir (fs w) = (i, f1)" by fastforce
  note e = stat_effect [OF st]
  show thesis
  proof (cases i)
    case None
    with e(3) assms(4) have "\<not> fs_quiet (fs w)" by auto
    with None assms(1-3) st lost [of "w\<lparr>fs := f1\<rparr>"] show thesis by (simp add: http_handle_files_list_def)
  next
    case (Some info)
    with e(2) assms(4) have "info_kind info = FS_PATH_KIND_DIR" by auto
    with Some assms(1-3) st listed [OF local_step_of(3) [OF e(1)]] show thesis
      by (auto simp: http_handle_files_list_def split: prod.splits option.splits)
  qed
qed

text \<open>
  C13: A listing sent by the web interface as a success is the JSON text of entries of the directory, each with the kind, size and time
  the file system has for it, the newest first and those of the same time by name, none twice. On a system where no call
  fails every entry is there, and the listing is sent.
\<close>
theorem http_listing_exact:
  assumes "http_handle_files_list env opt req w = (ok, w')" "http_list_path req = Some rel"
    and "fs_join_relative_path 4096 (so_path opt) (Some rel) = Some dir" "dir \<noteq> []" "nodes (fs w) (canon dir) = Some (DirN k)"
    and "tree_ok (canon dir) (nodes (fs w))" "reader_ok (readdir env) (nodes (fs w))"
  shows "(prefix (tx_data (sk w) @ bytes_of_string (status_line 200)) (tx_data (sk w')) \<longrightarrow>
      (\<exists>es j. listing (nodes (fs w)) (canon dir) rel (fs_quiet (fs w)) es \<and>
         tx_data (sk w') = tx_data (sk w) @ take j (listing_answer es) \<and> (ok \<longrightarrow> j = length (listing_answer es)))) \<and>
    (fs_quiet (fs w) \<and> tx_quiet (sk w) \<and> False \<notin> set (mem w) \<and>
     (\<forall>nm. nodes (fs w) (canon dir @ [nm]) \<noteq> None \<longrightarrow> names_fit dir rel [nm]) \<and>
     (\<forall>es. listing (nodes (fs w)) (canon dir) rel True es \<longrightarrow> length (files_json es) < 2 ^ 62) \<longrightarrow>
       ok \<and> (\<exists>es. listing (nodes (fs w)) (canon dir) rel True es \<and> tx_data (sk w') = tx_data (sk w) @ listing_answer es))"
  using assms(1-3,5)
proof (cases rule: http_handle_files_list_cases)
  case (lost w1)
  have "opens 404 w w'" by (rule json_error_effect(2) [OF lost(1)]) (simp add: lost(2))
  with opens_status [of 404 w w' 200] lost(3) show ?thesis by auto
next
  case (listed w1 x w2)
  have n1: "nodes (fs w1) = nodes (fs w)" "fs_quiet (fs w) \<longrightarrow> fs_quiet (fs w1)" "sk w1 = sk w"
    using local_step_facts [OF listed(1)] by auto
  have sk2: "sk w2 = sk w" using local_step_facts(3) [OF http_build_files_json_local [OF listed(3)]] n1(3) by simp
  note b = http_build_files_json_listing [OF listed(3) assms(4), unfolded n1(1), OF assms(5-7)]
  show ?thesis
  proof (cases x)
    case None
    then have "opens 500 w w'" using listed(4) json_error_effect(2) [of 500 _ _ w2 ok w' w] sk2 by auto
    then have "\<not> prefix (tx_data (sk w) @ bytes_of_string (status_line 200)) (tx_data (sk w'))"
      using opens_status [of 500 w w' 200] by auto
    moreover have "\<not> (fs_quiet (fs w) \<and> False \<notin> set (mem w) \<and>
     (\<forall>nm. nodes (fs w) (canon dir @ [nm]) \<noteq> None \<longrightarrow> names_fit dir rel [nm]) \<and>
     (\<forall>es. listing (nodes (fs w)) (canon dir) rel True es \<longrightarrow> length (files_json es) < 2 ^ 62))"
      using b(2) n1(2) listed(2) None by auto
    ultimately show ?thesis by blast
  next
    case (Some body)
    from b(1) [OF Some] obtain es where es: "listing (nodes (fs w)) (canon dir) rel (fs_quiet (fs w1)) es" "hb_data body = files_json es"
      by blast
    then have li: "listing (nodes (fs w)) (canon dir) rel (fs_quiet (fs w)) es" using n1(2) by (auto simp: listing_def)
    have send: "http_send_response 200 ''OK'' JSON_TYPE (files_json es) None w2 = (ok, w')" using listed(4) Some es(2) by simp
    note a = http_send_response_answers [OF send]
    from a(1) obtain j where j: "tx_data (sk w') = tx_data (sk w) @ take j (listing_answer es)" "ok \<longrightarrow> j = length (listing_answer es)"
      by (auto simp: answers_def listing_answer_def sk2)
    have "ok" if "tx_quiet (sk w)" "length (files_json es) < 2 ^ 62"
    proof (rule a(2))
      have "length (show_nat (length (files_json es))) \<le> 19" using that(2) by (intro length_show_nat) simp_all
      then show "length (http_response_header 200 ''OK'' JSON_TYPE (length (files_json es)) []) < 1024"
        using length_show_nat [of 200 3] by (simp add: http_response_header_def)
    qed (use that sk2 in simp)
    with li j show ?thesis by auto
  qed
qed

text \<open>A complete listing is the only one.\<close>

lemma listing_unique:
  assumes "listing ns p rel True es" "listing ns p rel True es'"
  shows "es = es'"
proof -
  have inj: "inj (map char_code)" by (rule inj_mapI) (simp add: inj_def)
  have "sorted_wrt (<) (map entry_key xs)" if "listing ns p rel True xs" for xs
    using that by (simp add: listing_def sorted_wrt_map listed_before_key [abs_def])
  with assms have "map entry_key es = map entry_key es'"
    by (intro strict_sorted_equal) (auto simp: listing_def)
  moreover have "map (map char_code) (map fe_name xs) = map snd (map entry_key xs)" for xs by (simp add: entry_key_def)
  ultimately have "map (map char_code) (map fe_name es) = map (map char_code) (map fe_name es')" by (simp only:)
  with inj have "map fe_name es = map fe_name es'" by (simp only: inj_map_eq_map)
  moreover have spec: "es = map (\<lambda>nm. the (entry_of ns p rel nm)) (map fe_name es)" if "listing ns p rel True es" for es
    using that by (auto simp: listing_def intro!: nth_equalityI)
  moreover from spec [OF assms(1)] spec [OF assms(2)] have "es = map (\<lambda>nm. the (entry_of ns p rel nm)) (map fe_name es)"
    "es' = map (\<lambda>nm. the (entry_of ns p rel nm)) (map fe_name es')" by (simp_all only:)
  ultimately show ?thesis by (simp only:)
qed

text \<open>The directory \<^verbatim>\<open>/d\<close> of the tree that was removed above, listed at its top.\<close>

definition list_request :: http_request where
  "list_request = http_request_zero\<lparr>rq_method := ''GET'', rq_path := ''/api/files''\<rparr>"

definition list_world :: world where
  "list_world = (demo_world [])\<lparr>fs := tree_fs\<rparr>"

lemma listing_two:
  assumes "\<And>nm. entry_of ns p rel nm = (if nm = a then Some y else if nm = b then Some x else None)"
    and "fe_name x = b" "fe_name y = a" "a \<noteq> b" "listed_before x y"
  shows "listing ns p rel True [x, y]"
proof -
  have "(\<exists>nm. entry_of ns p rel nm = Some e) \<longleftrightarrow> e = x \<or> e = y" for e
    unfolding assms(1) using assms(4) by (metis option.inject option.distinct(1))
  then show ?thesis using assms(2-5) by (auto simp: listing_def assms(1))
qed

theorem http_listing_exact_witness:
  "let (ok, w') = http_handle_files_list (demo_env\<lparr>readdir := tree_reader\<rparr>) (demo_opt\<lparr>so_path := ''/d''\<rparr>) list_request list_world in
   ok \<and> tx_data (sk w') = listing_answer
     [\<lparr>fe_name = ''b'', fe_path = ''b'', fe_kind = FS_PATH_KIND_DIR, fe_size = 0, fe_mtime = 2\<rparr>,
      \<lparr>fe_name = ''a'', fe_path = ''a'', fe_kind = FS_PATH_KIND_FILE, fe_size = 1, fe_mtime = 1\<rparr>]"
proof -
  let ?es = "[\<lparr>fe_name = ''b'', fe_path = ''b'', fe_kind = FS_PATH_KIND_DIR, fe_size = 0, fe_mtime = 2\<rparr>,
      \<lparr>fe_name = ''a'', fe_path = ''a'', fe_kind = FS_PATH_KIND_FILE, fe_size = 1, fe_mtime = 1\<rparr>]"
  obtain ok w' where r: "http_handle_files_list (demo_env\<lparr>readdir := tree_reader\<rparr>) (demo_opt\<lparr>so_path := ''/d''\<rparr>) list_request list_world = (ok, w')"
    by fastforce
  have p: "canon ''/d'' = [''/'', ''d'']" by code_simp
  have q: "http_list_path list_request = Some []" by code_simp
  have d: "fs_join_relative_path 4096 (so_path (demo_opt\<lparr>so_path := ''/d''\<rparr>)) (Some []) = Some ''/d''" by code_simp
  have f: "fs list_world = tree_fs" "sk list_world = sk (demo_world [])" "mem list_world = [True]"
    by (simp_all add: list_world_def demo_world_def)
  have t: "tree_ok (canon ''/d'') (nodes tree_fs)"
    by (auto simp: p tree_ok_def tree_fs_def name_ok_def normal_comp_def prefix_def append_eq_Cons_conv split: if_splits)
  have n: "nodes tree_fs (canon ''/d'') = Some (DirN 0)" by (simp add: p tree_fs_def)
  have e: "entry_of (nodes tree_fs) [''/'', ''d''] [] nm = (if nm = ''a'' then Some (?es ! 1) else if nm = ''b'' then Some (?es ! 0) else None)" for nm
    by (simp add: entry_of_def tree_fs_def)
  have c: "listed_before (?es ! 0) (?es ! 1)" "fe_name (?es ! 0) = ''b''" "fe_name (?es ! 1) = ''a''" by (simp_all add: listed_before_def)
  from listing_two [OF e c(2,3) _ c(1)] have l: "listing (nodes tree_fs) (canon ''/d'') [] True ?es" by (simp add: p)
  have fit: "names_fit ''/d'' [] [''a'']" "names_fit ''/d'' [] [''b'']" by code_simp+
  have "length (files_json ?es) < 200" by code_simp
  then have len: "length (files_json ?es) < 2 ^ 62" by simp
  have only: "es = ?es" if "listing (nodes tree_fs) (canon ''/d'') [] True es" for es by (rule listing_unique [OF that l])
  have "fs_quiet tree_fs" by (auto simp: tree_fs_def fs_quiet_def)
  moreover have "\<forall>nm. nodes tree_fs (canon ''/d'' @ [nm]) \<noteq> None \<longrightarrow> names_fit ''/d'' [] [nm]" using fit by (auto simp: p tree_fs_def)
  moreover have "\<forall>es. listing (nodes tree_fs) (canon ''/d'') [] True es \<longrightarrow> length (files_json es) < 2 ^ 62"
    using only len by blast
  moreover have "False \<notin> set [True]" by simp
  ultimately obtain es where "ok" "listing (nodes tree_fs) (canon ''/d'') [] True es"
      "tx_data (sk w') = tx_data (sk (demo_world [])) @ listing_answer es"
    using http_listing_exact [OF r q d, unfolded f, OF _ n t] tree_reader_ok demo_world_ok(7) [of "[]"] by auto
  with only [OF this(2)] have "ok \<and> tx_data (sk w') = listing_answer ?es" using demo_world_ok(10) [of "[]"] by auto
  with r show ?thesis by simp
qed

end
