(* ===== verification/Spec2Isabelle.thy ===== *)
theory Spec2Isabelle
  imports End_To_End Http_Listing
begin

text \<open>
  HFile sends files and text messages between the machines of a local network. One program is both ends: a server
  (a daemon) with a receive directory, reached through a native binary protocol and through HTTP on the same port, and a client
  that uploads a file, sends a message or downloads a file. \<^verbatim>\<open>hf status\<close> and \<^verbatim>\<open>hf stop\<close> find the daemon through
  a state file. This development models the C sources under \<^verbatim>\<open>src/src\<close> on Linux and proves what makes them correct.

  \<^bold>\<open>The parts and the theories.\<close>
  \<^item> \<open>Prelude\<close>: bytes, C strings, decimal text, \<^verbatim>\<open>snprintf\<close>, shared lemmas. \<open>World\<close>: the kernel as the program
    sees it: a socket with a schedule of short, interrupted and failing calls, a file system with such a schedule, and the outcomes of
    \<^verbatim>\<open>malloc\<close>. \<open>Cstdlib\<close>: \<^verbatim>\<open>strtol\<close> and \<^verbatim>\<open>strtoul\<close>.
  \<^item> \<open>Fs\<close> and \<open>Fs_Tree\<close> (\<^verbatim>\<open>fs.c\<close>), \<open>Net\<close> and \<open>Net_Facts\<close> (\<^verbatim>\<open>net.c\<close>): paths and names, temporary
    files, the removal of a tree, the loops around \<^verbatim>\<open>send\<close>, \<^verbatim>\<open>recv\<close>, \<^verbatim>\<open>sendfile\<close> and \<^verbatim>\<open>splice\<close>, the
    lookup of the own address.
  \<^item> \<open>Protocol\<close> (\<^verbatim>\<open>protocol.c\<close>): headers, response frames, payload prefixes. \<open>Transfer_Io\<close> (\<^verbatim>\<open>transfer_io.c\<close>): a
    body is received into a temporary file and renamed; the contract of a routine that receives a body is the locale
    \<open>body_receiver\<close>, with the socket and the HTTP routine as its instances. \<open>App_Service\<close> (\<^verbatim>\<open>app_service.c\<close>).
  \<^item> \<open>Message_Store\<close>, \<open>Message_Facts\<close> (\<^verbatim>\<open>message_store.c\<close>): the current message, its version and waiting for a
    newer one; the locale \<open>message_cell\<close> is what its clients rely on.
  \<^item> \<open>Server\<close> (\<^verbatim>\<open>server.c\<close>, the handlers), \<open>Client\<close> (\<^verbatim>\<open>client.c\<close>), \<open>Session\<close>: both ends of the native
    protocol and their composition over a connection.
  \<^item> \<open>Http_Codec\<close>, \<open>Http\<close>, \<open>Http_Facts\<close>, \<open>Http_Session\<close> (\<^verbatim>\<open>http.c\<close>, and the asset table of
    \<^verbatim>\<open>webui.c\<close>): numbers, percent and JSON coding, the growing buffer; every handler and the routes; what each
    handler may change and send; whole connections and the message stream.
    \<open>Http_Listing\<close> is the directory listing.
  \<^item> \<open>Connection\<close>: the thread that serves one connection of either kind, and a server that serves any number of them; the locale
    \<open>connection_handler\<close> is what such a thread asks of a handler, with the native and the HTTP handler as its instances.
    \<open>End_To_End\<close>: \<^verbatim>\<open>main\<close> of the client against such a thread, from the command line to the stored file.
  \<^item> \<open>Conn_Tracker\<close> (\<^verbatim>\<open>server_conn_tracker.c\<close>): the connection threads as a step relation over the tracker.
  \<^item> \<open>Daemon_State\<close> (\<^verbatim>\<open>daemon_state.c\<close>), \<open>Control\<close> (\<^verbatim>\<open>control.c\<close>), \<open>Shutdown\<close>
    (\<^verbatim>\<open>shutdown.c\<close>), \<open>Server_Process\<close> and \<open>Process_Facts\<close> (\<^verbatim>\<open>server.c\<close>, the process), \<open>Cli\<close>,
    \<open>Cli_Parse\<close> (\<^verbatim>\<open>cli.c\<close>), \<open>Hfile\<close> (\<^verbatim>\<open>hfile.c\<close>): the state file, status and stop, the flag and the signals, listener,
    watcher and daemon, the command line, and \<^verbatim>\<open>main\<close>.
  \<^item> \<open>Examples\<close> has the concrete worlds of the witnesses.

  \<^bold>\<open>How state and operations correspond to the code.\<close> A handler is a function on \<open>world\<close> (the connection \<open>sk\<close>, the files
  \<open>fs\<close>, the memory \<open>mem\<close>, the message store \<open>store\<close>), named like the C function. Every early return and every
  \<^verbatim>\<open>goto\<close> is a branch; return codes are \<open>bool\<close>, \<open>int\<close> or a sum with the error. Sizes and versions are words of
  their C width. Every call of the kernel may fail or be cut short, as the schedules say; theorems of safety hold for all
  schedules, theorems of progress for those with no lasting failure (\<open>rx_calm\<close>, \<open>tx_quiet\<close>, \<open>fs_quiet\<close>).
  Loops are recursive functions with a termination proof, so no fuel is needed; the two loops that may run for ever (the message stream and the
  listener) are driven by a list of rounds and return \<open>None\<close> when it is used up, and it is proved that they return once a
  shutdown is requested. Threads: the critical sections of the store and of the tracker are atomic steps in any order; the file
  operations of one connection are one sequence, and the watcher of the state file takes effect at its join.

  \<^bold>\<open>What is shown.\<close> From the command line to the connection thread of the server: exit code 0 of \<^verbatim>\<open>hf -c\<close>, \<^verbatim>\<open>hf -m\<close>
  and \<^verbatim>\<open>hf -g\<close> means that the file or message is stored, or that the download is faithful, and over a working connection they
  exit with 0. However many connections are served, nothing outside the receive directory changes and no descriptor stays open. HTTP: status 201 means stored, a download is exact, a connection is confined to
  the receive directory, a listing is sorted, true and complete, the stream sends accepted messages in order and stays up to date, every other request ends. Store: it refines the history of
  accepted messages, trimming removes exactly the Unicode white space at the end, waits lose no update. Tracker: its counter is the number of live threads, waiting for
  idle is safe and always possible. Daemon: the state file is replaced atomically and read back as written, the parent is told only about a recorded daemon, the
  process cleans up however it ends, what it recorded about itself can be read back whatever its address, \<^verbatim>\<open>hf stop\<close> signals the recorded process only. Codecs: headers, frames, JSON, percent
  coding, numbers, queries, events, QR output and the command line round-trip or equal a reference definition. Removing a tree removes all of it
  and nothing else. Some theorems show where the code
  falls short: line breaks in the state file, wide process ids, the shutdown of a closed descriptor.

  \<^bold>\<open>Not modelled.\<close> The Windows and macOS branches; \<^verbatim>\<open>qrcodegen\<close>, \<^verbatim>\<open>picohttpparser\<close>, and \<^verbatim>\<open>readdir\<close>, which are parameters (of
  \<^verbatim>\<open>readdir\<close> the laws \<open>lists_dir\<close> and \<open>reader_ok\<close>: every entry of a directory once); the literals of the web page; the
  usage text and what is printed on standard error; time-outs of sockets (a receive that times out is one that fails); guards against
  \<^verbatim>\<open>NULL\<close> arguments that no caller passes.
\<close>

section \<open>Observations\<close>

text \<open>
  The kind of a connection is decided by one look at what has arrived. When that is a single byte, the whole request is dropped without
  an answer, although the rest of it may follow.
\<close>

lemma single_byte_is_dropped:
  "rx_sched (sk w) = RxUpTo 0 # es \<Longrightarrow> server_connection_thread_main http opt w = w\<lparr>sk := (sk w)\<lparr>rx_sched := es\<rparr>\<rparr>"
  by (simp add: server_connection_thread_main_def server_detect_connection_kind_def recv_peek_def recv_def)

text \<open>Names that the checks let through although they name no new entry of the receive directory.\<close>

lemma dot_is_a_file_name: "fs_validate_file_name ''.''" "canon ''/srv/.'' = canon ''/srv''"
  by code_simp+

lemma trailing_slash_is_valid: "fs_validate_relative_path ''a/''" "canon ''/srv/a/'' = canon ''/srv/a''"
  by code_simp+

text \<open>
  When the receive directory is the directory of the state file, a peer may upload a file under the name of the state file: the name is valid and the
  destination is the file that \<^verbatim>\<open>hf stop\<close> reads.
\<close>

lemma state_file_in_receive_dir:
  "fs_validate_file_name ''hf-daemon.state''"
  "fs_join_relative_path 4096 ''/tmp'' (Some ''hf-daemon.state'') = daemon_state_default_state_path None 4096"
  unfolding state_path_tmp by code_simp+

text \<open>A port with a blank or a sign before its digits is accepted.\<close>

lemma port_with_blank: "parse_port '' 80'' = Some 80" "parse_port ''+80'' = Some 80"
proof -
  have "strto_scan '' 80'' = (False, ''80'', [])" "strto_scan ''+80'' = (False, ''80'', [])" "digits_val ''80'' = 80" by code_simp+
  then show "parse_port '' 80'' = Some 80" "parse_port ''+80'' = Some 80" by (simp_all add: parse_port_def strtoul10_def)
qed

end
